(* ===== verification/Prelude.thy ===== *)
theory Prelude
  imports Main "HOL-Library.Sublist"
begin

text \<open>
  Shared vocabulary of the development: Go byte strings, Go errors, and the functions of
  the packages \<^verbatim>\<open>strings\<close>, \<^verbatim>\<open>errors\<close> and \<^verbatim>\<open>strconv\<close> that the SDK calls.

  A Go \<^verbatim>\<open>string\<close> is a sequence of bytes and HOL's \<^typ>\<open>char\<close> is one byte, so
  \<^typ>\<open>string\<close> models both \<^verbatim>\<open>string\<close> and the contents of a \<^verbatim>\<open>[]byte\<close>.
  Where the code can tell a nil slice from an empty one the type is \<^typ>\<open>string option\<close>.
\<close>

named_theorems go_simps \<open>equations of the Go string and number helpers\<close>
named_theorems err_simps \<open>equations of the Go error values\<close>

type_synonym bytes = string
type_synonym gobytes = "string option"

text \<open>The contents of a possibly nil slice; \<^verbatim>\<open>len\<close> of nil is 0.\<close>

definition bytes_of :: "gobytes \<Rightarrow> bytes" where
  "bytes_of b = (case b of None \<Rightarrow> [] | Some s \<Rightarrow> s)"

lemma bytes_of_simps [simp]: "bytes_of None = []" "bytes_of (Some s) = s"
  by (simp_all add: bytes_of_def)


section \<open>Go errors\<close>

text \<open>
  \<open>Sentinel\<close> is a package-level \<^verbatim>\<open>errors.New\<close> variable (compared by identity; the
  texts of the SDK's sentinels are pairwise distinct), \<open>ErrorText\<close> any other leaf
  error, \<open>Wrap pre e post\<close> is \<^verbatim>\<open>fmt.Errorf("pre%wpost", e)\<close>, and \<open>TerminalErr\<close> is
  \<^verbatim>\<open>*webhookhttp.TerminalError\<close> with its possibly nil cause.
\<close>

datatype goerr =
    Sentinel string
  | ErrorText string
  | Wrap string goerr string
  | TerminalErr "goerr option"

fun error_text :: "goerr \<Rightarrow> string" where
  "error_text (Sentinel s) = s"
| "error_text (ErrorText s) = s"
| "error_text (Wrap pre e post) = pre @ error_text e @ post"
| "error_text (TerminalErr None) = ''webhookhttp: terminal error''"
| "error_text (TerminalErr (Some e)) = error_text e"

text \<open>\<^verbatim>\<open>errors.Is\<close>: the error itself or one of the errors it wraps.\<close>

fun errors_is :: "goerr \<Rightarrow> goerr \<Rightarrow> bool" where
  "errors_is (Wrap pre e post) t = (Wrap pre e post = t \<or> errors_is e t)"
| "errors_is (TerminalErr (Some e)) t = (TerminalErr (Some e) = t \<or> errors_is e t)"
| "errors_is e t = (e = t)"

text \<open>\<^verbatim>\<open>errors.As\<close> for \<^verbatim>\<open>*TerminalError\<close>: the first one in the chain.\<close>

fun errors_as_terminal :: "goerr \<Rightarrow> goerr option" where
  "errors_as_terminal (TerminalErr c) = Some (TerminalErr c)"
| "errors_as_terminal (Wrap pre e post) = errors_as_terminal e"
| "errors_as_terminal e = None"

lemma errors_is_refl [simp]: "errors_is e e"
  by (cases "(e, e)" rule: errors_is.cases) auto

text \<open>The two errors of package \<^verbatim>\<open>context\<close>.\<close>

definition Canceled :: goerr where "Canceled = Sentinel ''context canceled''"
definition DeadlineExceeded :: goerr where
  "DeadlineExceeded = Sentinel ''context deadline exceeded''"

text \<open>The UTF-8 bytes of the em dash that some of the SDK's messages contain.\<close>

definition em_dash :: string where "em_dash = [CHR 0xE2, CHR 0x80, CHR 0x94]"


section \<open>Package strings\<close>

definition byte :: "char \<Rightarrow> nat" where "byte c = of_char c"

text \<open>
  The UTF-8 encodings of the code points \<^verbatim>\<open>unicode.IsSpace\<close> accepts.
  \<^verbatim>\<open>strings.TrimSpace\<close> removes exactly these sequences from both ends.
\<close>

definition space_seqs :: "string list" where
  "space_seqs =
     [[CHR 0x09], [CHR 0x0A], [CHR 0x0B], [CHR 0x0C], [CHR 0x0D], [CHR 0x20],
      [CHR 0xC2, CHR 0x85], [CHR 0xC2, CHR 0xA0], [CHR 0xE1, CHR 0x9A, CHR 0x80],
      [CHR 0xE2, CHR 0x80, CHR 0x80], [CHR 0xE2, CHR 0x80, CHR 0x81],
      [CHR 0xE2, CHR 0x80, CHR 0x82], [CHR 0xE2, CHR 0x80, CHR 0x83],
      [CHR 0xE2, CHR 0x80, CHR 0x84], [CHR 0xE2, CHR 0x80, CHR 0x85],
      [CHR 0xE2, CHR 0x80, CHR 0x86], [CHR 0xE2, CHR 0x80, CHR 0x87],
      [CHR 0xE2, CHR 0x80, CHR 0x88], [CHR 0xE2, CHR 0x80, CHR 0x89],
      [CHR 0xE2, CHR 0x80, CHR 0x8A], [CHR 0xE2, CHR 0x80, CHR 0xA8],
      [CHR 0xE2, CHR 0x80, CHR 0xA9], [CHR 0xE2, CHR 0x80, CHR 0xAF],
      [CHR 0xE2, CHR 0x81, CHR 0x9F], [CHR 0xE3, CHR 0x80, CHR 0x80]]"

fun strip_one :: "string list \<Rightarrow> string \<Rightarrow> string option" where
  "strip_one [] s = None"
| "strip_one (p # ps) s =
     (if p \<noteq> [] \<and> prefix p s then Some (drop (length p) s) else strip_one ps s)"

lemma strip_one_shorter: "strip_one ps s = Some t \<Longrightarrow> length t < length s"
  by (induction ps) (auto split: if_splits dest: prefix_length_le simp: prefix_def)

lemma strip_one_None: "strip_one ps s = None \<longleftrightarrow> (\<forall>p \<in> set ps. p \<noteq> [] \<longrightarrow> \<not> prefix p s)"
  by (induction ps) auto

function strip_all :: "string list \<Rightarrow> string \<Rightarrow> string" where
  "strip_all ps s = (case strip_one ps s of None \<Rightarrow> s | Some t \<Rightarrow> strip_all ps t)"
  by pat_completeness auto
termination
  by (relation "measure (\<lambda>(ps, s). length s)") (auto dest: strip_one_shorter)

declare strip_all.simps [simp del]

lemma strip_all_done: "strip_one ps (strip_all ps s) = None"
  by (induction ps s rule: strip_all.induct)
    (subst strip_all.simps, auto simp: strip_all.simps split: option.split)

lemma strip_all_id: "strip_one ps s = None \<Longrightarrow> strip_all ps s = s"
  by (simp add: strip_all.simps)

lemma strip_one_suffix: "strip_one ps s = Some t \<Longrightarrow> suffix t s"
  by (induction ps) (auto split: if_splits intro: suffix_drop)

lemma strip_all_suffix: "suffix (strip_all ps s) s"
proof (induction ps s rule: strip_all.induct)
  case (1 ps s)
  show ?case
  proof (cases "strip_one ps s")
    case None
    then show ?thesis by (simp add: strip_all_id)
  next
    case (Some t)
    then have "suffix (strip_all ps t) t" "suffix t s"
      by (auto intro: "1.IH" strip_one_suffix)
    then show ?thesis
      using Some by (auto simp: strip_all.simps [of ps s] intro: suffix_order.trans)
  qed
qed

definition TrimSpace :: "string \<Rightarrow> string" where
  "TrimSpace s = rev (strip_all (map rev space_seqs) (rev (strip_all space_seqs s)))"

text \<open>\<^verbatim>\<open>strings.ToLower\<close>, exact on ASCII strings (bytes above 127 are kept).\<close>

definition lower_char :: "char \<Rightarrow> char" where
  "lower_char c = (if 65 \<le> byte c \<and> byte c \<le> 90 then char_of (byte c + 32) else c)"

definition ToLower :: "string \<Rightarrow> string" where
  "ToLower s = map lower_char s"

definition HasPrefix :: "string \<Rightarrow> string \<Rightarrow> bool" where
  "HasPrefix s p = prefix p s"

text \<open>\<^verbatim>\<open>strings.TrimRight(s, "/")\<close>.\<close>

definition TrimRightSlash :: "string \<Rightarrow> string" where
  "TrimRightSlash s = rev (dropWhile (\<lambda>c. c = CHR ''/'') (rev s))"

text \<open>\<^verbatim>\<open>strings.Split\<close> and \<^verbatim>\<open>strings.SplitN(_, _, 2)\<close> for a one-byte separator.\<close>

fun SplitChar :: "char \<Rightarrow> string \<Rightarrow> string list" where
  "SplitChar sep [] = [[]]"
| "SplitChar sep (c # cs) =
     (if c = sep then [] # SplitChar sep cs
      else (case SplitChar sep cs of [] \<Rightarrow> [[c]] | w # ws \<Rightarrow> (c # w) # ws))"

fun SplitN2 :: "char \<Rightarrow> string \<Rightarrow> string list" where
  "SplitN2 sep s =
     (case dropWhile (\<lambda>c. c \<noteq> sep) s of
        [] \<Rightarrow> [s]
      | _ # rest \<Rightarrow> [takeWhile (\<lambda>c. c \<noteq> sep) s, rest])"

text \<open>\<^verbatim>\<open>strings.ReplaceAll\<close> for a one-byte pattern.\<close>

definition ReplaceAllChar :: "char \<Rightarrow> string \<Rightarrow> string \<Rightarrow> string" where
  "ReplaceAllChar c r s = concat (map (\<lambda>x. if x = c then r else [x]) s)"

lemma ReplaceAllChar_simps [simp]:
  "ReplaceAllChar c r [] = []"
  "ReplaceAllChar c r (x # xs) = (if x = c then r else [x]) @ ReplaceAllChar c r xs"
  by (simp_all add: ReplaceAllChar_def)


subsection \<open>Trimming and lower-casing are idempotent\<close>

lemma strip_one_rev_None:
  "strip_one (map rev ps) (rev s) = None \<longleftrightarrow> (\<forall>p \<in> set ps. p \<noteq> [] \<longrightarrow> \<not> suffix p s)"
  by (auto simp: strip_one_None suffix_to_prefix)

lemma TrimSpace_ends:
  assumes "p \<in> set space_seqs"
  shows "\<not> prefix p (TrimSpace s)" and "\<not> suffix p (TrimSpace s)"
proof -
  let ?l = "strip_all space_seqs s"
  have ne: "p \<noteq> []" using assms by (auto simp: space_seqs_def)
  have pre: "prefix (TrimSpace s) ?l"
    using strip_all_suffix [of "map rev space_seqs" "rev ?l"]
    by (simp add: TrimSpace_def suffix_to_prefix)
  have "\<not> prefix p ?l"
    using strip_all_done [of space_seqs s] assms ne by (auto simp: strip_one_None)
  then show "\<not> prefix p (TrimSpace s)"
    using pre by (blast intro: prefix_order.trans)
  show "\<not> suffix p (TrimSpace s)"
    using strip_all_done [of "map rev space_seqs" "rev ?l"] assms ne
    by (auto simp: TrimSpace_def strip_one_None suffix_to_prefix)
qed

lemma TrimSpace_id:
  assumes "\<And>p. p \<in> set space_seqs \<Longrightarrow> \<not> prefix p s \<and> \<not> suffix p s"
  shows "TrimSpace s = s"
proof -
  have "strip_all space_seqs s = s"
    using assms by (auto intro!: strip_all_id simp: strip_one_None)
  moreover have "strip_all (map rev space_seqs) (rev s) = rev s"
    using assms by (intro strip_all_id) (auto simp: strip_one_rev_None)
  ultimately show ?thesis by (simp add: TrimSpace_def)
qed

lemma TrimSpace_idem [simp]: "TrimSpace (TrimSpace s) = TrimSpace s"
  by (rule TrimSpace_id) (auto simp: TrimSpace_ends)

lemma byte_char_of [simp]: "n < 256 \<Longrightarrow> byte (char_of n) = n"
  by (simp add: byte_def)

lemma byte_less [simp]: "byte c < 256"
  by (simp add: byte_def)

lemma byte_inject [simp]: "byte c = byte d \<longleftrightarrow> c = d"
  by (simp add: byte_def)

lemma lower_char_idem [simp]: "lower_char (lower_char c) = lower_char c"
  by (auto simp: lower_char_def)

lemma ToLower_idem [simp]: "ToLower (ToLower s) = ToLower s"
  by (simp add: ToLower_def)

lemma lower_char_fix:
  assumes "byte x < 65 \<or> 122 < byte x"
  shows "lower_char c = x \<longleftrightarrow> c = x"
  using assms by (auto simp: lower_char_def)

lemma space_bytes:
  "p \<in> set space_seqs \<Longrightarrow> x \<in> set p \<Longrightarrow> byte x < 65 \<or> 122 < byte x"
  by (auto simp: space_seqs_def byte_def)

lemma prefix_ToLower:
  assumes "\<forall>x \<in> set p. byte x < 65 \<or> 122 < byte x"
  shows "prefix p (map lower_char s) \<longleftrightarrow> prefix p s"
  using assms
proof (induction p arbitrary: s)
  case (Cons a p)
  then show ?case by (cases s) (auto simp: lower_char_fix eq_commute [of a])
qed simp

lemma suffix_ToLower:
  assumes "\<forall>x \<in> set p. byte x < 65 \<or> 122 < byte x"
  shows "suffix p (map lower_char s) \<longleftrightarrow> suffix p s"
  using prefix_ToLower [of "rev p" "rev s"] assms by (simp add: suffix_to_prefix rev_map)

text \<open>
  Capability and resource names are normalised by
  \<^verbatim>\<open>strings.ToLower(strings.TrimSpace(name))\<close>.
\<close>

definition norm_name :: "string \<Rightarrow> string" where
  "norm_name s = ToLower (TrimSpace s)"

lemma norm_name_trimmed [simp]: "TrimSpace (norm_name s) = norm_name s"
  unfolding norm_name_def ToLower_def
  by (rule TrimSpace_id)
    (metis TrimSpace_ends prefix_ToLower suffix_ToLower space_bytes)

lemma norm_name_idem [simp]: "norm_name (norm_name s) = norm_name s"
proof -
  have "norm_name (norm_name s) = ToLower (norm_name s)"
    by (subst norm_name_def) simp
  then show ?thesis by (simp add: norm_name_def)
qed


section \<open>Package strconv: base 10\<close>

definition digit_char :: "nat \<Rightarrow> char" where "digit_char d = char_of (48 + d)"

definition is_digit :: "char \<Rightarrow> bool" where "is_digit c = (48 \<le> byte c \<and> byte c \<le> 57)"

definition digit_val :: "char \<Rightarrow> nat" where "digit_val c = byte c - 48"

text \<open>\<^verbatim>\<open>fmt.Sprintf("%d", n)\<close>.\<close>

fun show_nat :: "nat \<Rightarrow> string" where
  "show_nat n = (if n < 10 then [digit_char n] else show_nat (n div 10) @ [digit_char (n mod 10)])"

declare show_nat.simps [simp del]

definition show_int :: "int \<Rightarrow> string" where
  "show_int i = (if i < 0 then CHR ''-'' # show_nat (nat (- i)) else show_nat (nat i))"

definition digits_val :: "string \<Rightarrow> nat" where
  "digits_val s = foldl (\<lambda>n c. 10 * n + digit_val c) 0 s"

definition int64_min :: int where "int64_min = - (2 ^ 63)"
definition int64_max :: int where "int64_max = 2 ^ 63 - 1"

text \<open>
  \<^verbatim>\<open>strconv.ParseInt(s, 10, 64)\<close>: an optional sign, at least one digit, nothing else,
  and a value in the int64 range.
\<close>

definition ParseInt64 :: "string \<Rightarrow> int option" where
  "ParseInt64 s =
     (let (neg, ds) = (case s of
            [] \<Rightarrow> (False, [])
          | c # cs \<Rightarrow> if c = CHR ''-'' then (True, cs)
                      else if c = CHR ''+'' then (False, cs) else (False, c # cs))
      in if ds = [] \<or> \<not> list_all is_digit ds then None
         else let v = (if neg then - int (digits_val ds) else int (digits_val ds))
              in if int64_min \<le> v \<and> v \<le> int64_max then Some v else None)"

lemma digit_char_props:
  assumes "d < 10"
  shows "is_digit (digit_char d)" and "digit_val (digit_char d) = d"
    and "digit_char d \<noteq> CHR ''-''" and "digit_char d \<noteq> CHR ''+''"
proof -
  have b: "byte (digit_char d) = 48 + d" using assms by (simp add: digit_char_def)
  show "is_digit (digit_char d)" "digit_val (digit_char d) = d"
    using b assms by (simp_all add: is_digit_def digit_val_def)
  show "digit_char d \<noteq> CHR ''-''" "digit_char d \<noteq> CHR ''+''"
    using b by (auto simp: byte_def)
qed

lemma show_nat_nonempty [simp]: "show_nat n \<noteq> []"
  by (subst show_nat.simps) simp

lemma show_nat_digits: "list_all is_digit (show_nat n)"
proof (induction n rule: show_nat.induct)
  case (1 n)
  show ?case
  proof (cases "n < 10")
    case True
    then show ?thesis by (subst show_nat.simps) (simp add: digit_char_props)
  next
    case False
    then show ?thesis using "1.IH"
      by (subst show_nat.simps) (simp add: digit_char_props)
  qed
qed

lemma digits_val_snoc: "digits_val (s @ [c]) = 10 * digits_val s + digit_val c"
  by (simp add: digits_val_def)

lemma digits_val_show_nat [simp]: "digits_val (show_nat n) = n"
proof (induction n rule: show_nat.induct)
  case (1 n)
  show ?case
  proof (cases "n < 10")
    case True
    then show ?thesis
      by (subst show_nat.simps) (simp add: digits_val_def digit_char_props)
  next
    case False
    then show ?thesis using "1.IH"
      by (subst show_nat.simps) (simp add: digits_val_snoc digit_char_props)
  qed
qed

lemma hd_show_nat: "hd (show_nat n) \<noteq> CHR ''-'' \<and> hd (show_nat n) \<noteq> CHR ''+''"
proof -
  have "is_digit (hd (show_nat n))"
    using show_nat_digits [of n] by (cases "show_nat n") auto
  then show ?thesis by (auto simp: is_digit_def byte_def)
qed

text \<open>Decimal rendering and parsing are inverse on the int64 range.\<close>

lemma ParseInt64_show_int:
  assumes "int64_min \<le> i" and "i \<le> int64_max"
  shows "ParseInt64 (show_int i) = Some i"
proof (cases "i < 0")
  case True
  then show ?thesis
    using assms show_nat_digits [of "nat (- i)"]
    by (simp add: ParseInt64_def show_int_def)
next
  case False
  obtain c cs where s: "show_nat (nat i) = c # cs"
    by (cases "show_nat (nat i)") auto
  then have c: "c \<noteq> CHR ''-''" "c \<noteq> CHR ''+''"
    using hd_show_nat [of "nat i"] by simp_all
  have "list_all is_digit (c # cs)" "digits_val (c # cs) = nat i"
    using show_nat_digits [of "nat i"] digits_val_show_nat [of "nat i"] s by simp_all
  then show ?thesis
    using False assms c s by (simp add: ParseInt64_def show_int_def)
qed

lemma ParseInt64_range: "ParseInt64 s = Some i \<Longrightarrow> int64_min \<le> i \<and> i \<le> int64_max"
  by (auto simp: ParseInt64_def Let_def split: prod.splits if_splits)


section \<open>Encoders and decoders\<close>

text \<open>
  The contract every wire format of the SDK relies on: what was encoded decodes to the
  same value. Its consequences are proved once here.
\<close>

locale codec =
  fixes enc :: "'a \<Rightarrow> 'b"
    and dec :: "'b \<Rightarrow> 'a option"
    and good :: "'a \<Rightarrow> bool"
  assumes round_trip: "good x \<Longrightarrow> dec (enc x) = Some x"
begin

lemma enc_inj_on: "inj_on enc (Collect good)"
  by (rule inj_onI) (metis mem_Collect_eq option.inject round_trip)

lemma enc_eq_iff: "good x \<Longrightarrow> good y \<Longrightarrow> enc x = enc y \<longleftrightarrow> x = y"
  using enc_inj_on by (auto dest: inj_onD)

lemma dec_enc_mismatch: "good x \<Longrightarrow> good y \<Longrightarrow> x \<noteq> y \<Longrightarrow> dec (enc x) \<noteq> Some y"
  by (simp add: round_trip)

end

interpretation decimal: codec show_int ParseInt64 "\<lambda>i. int64_min \<le> i \<and> i \<le> int64_max"
  by unfold_locales (simp add: ParseInt64_show_int)


section \<open>Registries\<close>

text \<open>
  The contract of the SDK's registration tables (capability handlers, webhook routes):
  a name is normalised, the last registration under a name wins, other names are
  untouched.
\<close>

locale registry =
  fixes look :: "'m \<Rightarrow> 'k \<Rightarrow> 'v option"
    and bind :: "'n \<Rightarrow> 'v \<Rightarrow> 'm \<Rightarrow> 'm"
    and norm :: "'n \<Rightarrow> 'k"
  assumes look_bind: "look (bind n v m) k = (if k = norm n then Some v else look m k)"
begin

fun bind_all :: "('n \<times> 'v) list \<Rightarrow> 'm \<Rightarrow> 'm" where
  "bind_all [] m = m"
| "bind_all ((n, v) # nvs) m = bind_all nvs (bind n v m)"

lemma last_write_wins: "look (bind n v (bind n' v' m)) (norm n) = Some v"
  by (simp add: look_bind)

lemma bind_other: "k \<noteq> norm n \<Longrightarrow> look (bind n v m) k = look m k"
  by (simp add: look_bind)

lemma bind_commute:
  "norm n \<noteq> norm n' \<Longrightarrow> look (bind n v (bind n' v' m)) k = look (bind n' v' (bind n v m)) k"
  by (simp add: look_bind)

lemma look_bind_all:
  "look (bind_all nvs m) k =
     (case map_of (rev (map (\<lambda>(n, v). (norm n, v)) nvs)) k of
        Some v \<Rightarrow> Some v | None \<Rightarrow> look m k)"
proof (induction nvs arbitrary: m)
  case (Cons nv nvs)
  obtain n v where "nv = (n, v)" by force
  with Cons show ?case
    by (auto simp: look_bind map_add_def split: option.split)
qed simp

end

end
