(* ===== verification/Rpc.thy ===== *)
theory Rpc
  imports Prelude
begin

text \<open>
  Package \<^verbatim>\<open>rpc\<close> (\<^verbatim>\<open>rpc/transport.go\<close>): the transport-neutral messages, the sentinel errors
  and the \<^verbatim>\<open>Delivery\<close> methods, the interfaces \<^verbatim>\<open>Transport\<close> and \<^verbatim>\<open>Subscription\<close> as a record of
  methods, and the contracts that the transports and the adapter share: what a sequence of
  \<^verbatim>\<open>Ack\<close>, \<^verbatim>\<open>Nack\<close> and \<^verbatim>\<open>Reply\<close> calls may do to a delivery, how subscriptions come and go, what
  closing does, what a semaphore bounds, and the capped doubling of retry delays.

  The function fields of a Go \<^verbatim>\<open>Delivery\<close> close over the transport's per-message state; here
  they are functions on an explicit state \<open>'s\<close>, which also stands for the context argument.
  Durations are integers in nanoseconds.
\<close>

section \<open>Messages\<close>

definition ErrClosed :: goerr where "ErrClosed = Sentinel ''rpc: transport closed''"
definition ErrTimeout :: goerr where "ErrTimeout = Sentinel ''rpc: request timed out''"
definition ErrEndpointUnknown :: goerr where
  "ErrEndpointUnknown = Sentinel ''rpc: endpoint unknown''"

definition second :: int where "second = 1000000000"

text \<open>A \<^verbatim>\<open>map[string]string\<close> is an association list with distinct keys.\<close>

type_synonym headers = "(string \<times> string) list"

record request =
  rq_Endpoint :: string
  rq_Body :: gobytes
  rq_ContentType :: string
  rq_Headers :: headers
  rq_CorrelationID :: string
  rq_Timeout :: int

record reply =
  rp_Body :: gobytes
  rp_ContentType :: string
  rp_Headers :: headers
  rp_CorrelationID :: string

record 's delivery =
  d_Endpoint :: string
  d_Body :: gobytes
  d_ContentType :: string
  d_Headers :: headers
  d_CorrelationID :: string
  d_ReplyTo :: string
  d_AckFn :: "('s \<Rightarrow> goerr option \<times> 's) option"
  d_NackFn :: "(bool \<Rightarrow> 's \<Rightarrow> goerr option \<times> 's) option"
  d_ReplyFn :: "(gobytes \<Rightarrow> string \<Rightarrow> 's \<Rightarrow> goerr option \<times> 's) option"

text \<open>\<^verbatim>\<open>rpc.Handler\<close>: processes one delivery; the result is the returned error.\<close>

type_synonym 's rpc_handler = "'s delivery \<Rightarrow> 's \<Rightarrow> goerr option \<times> 's"

record 's consumer_config =
  cc_Endpoint :: string
  cc_Handler :: "'s rpc_handler option"
  cc_Timeout :: int
  cc_Concurrency :: int

record envelope =
  env_CorrelationID :: string
  env_ReplyTo :: string
  env_Headers :: headers
  env_ContentType :: string
  env_Body :: gobytes

definition empty_envelope :: envelope where
  "empty_envelope = \<lparr>env_CorrelationID = [], env_ReplyTo = [], env_Headers = [],
                     env_ContentType = [], env_Body = None\<rparr>"

definition empty_reply :: reply where
  "empty_reply = \<lparr>rp_Body = None, rp_ContentType = [], rp_Headers = [], rp_CorrelationID = []\<rparr>"

definition application_json :: string where "application_json = ''application/json''"


section \<open>Delivery methods\<close>

definition Ack :: "'s delivery \<Rightarrow> 's \<Rightarrow> goerr option \<times> 's" where
  "Ack d s = (case d_AckFn d of None \<Rightarrow> (None, s) | Some f \<Rightarrow> f s)"

definition Nack :: "'s delivery \<Rightarrow> bool \<Rightarrow> 's \<Rightarrow> goerr option \<times> 's" where
  "Nack d requeue s = (case d_NackFn d of None \<Rightarrow> (None, s) | Some f \<Rightarrow> f requeue s)"

definition Reply :: "'s delivery \<Rightarrow> gobytes \<Rightarrow> string \<Rightarrow> 's \<Rightarrow> goerr option \<times> 's" where
  "Reply d body contentType s = (case d_ReplyFn d of
       None \<Rightarrow>
         (Some (ErrorText ''rpc: delivery has no reply function (transport did not populate it)''), s)
     | Some f \<Rightarrow> f body (if contentType = [] then application_json else contentType) s)"


section \<open>The transport interface\<close>

text \<open>
  How a call of a Go method ends: it returns, its goroutine blocks for ever on a mutex that
  it holds itself, or it panics.
\<close>

datatype 'a outcome = Returns 'a | Deadlock | Panics string

definition nil_deref :: string where
  "nil_deref = ''runtime error: invalid memory address or nil pointer dereference''"

definition and_then :: "'a outcome \<times> 's \<Rightarrow> ('a \<Rightarrow> 's \<Rightarrow> 'b outcome \<times> 's) \<Rightarrow> 'b outcome \<times> 's" where
  "and_then r f = (case r of
       (Returns x, s) \<Rightarrow> f x s
     | (Deadlock, s) \<Rightarrow> (Deadlock, s)
     | (Panics m, s) \<Rightarrow> (Panics m, s))"

lemma and_then_simps [simp]:
  "and_then (Returns x, s) f = f x s" "and_then (Deadlock, s) f = (Deadlock, s)"
  "and_then (Panics m, s) f = (Panics m, s)"
  by (simp_all add: and_then_def)

text \<open>
  A value of the interface \<^verbatim>\<open>Transport\<close> is its table of methods on the implementation's state \<open>'t\<close>;
  a \<^verbatim>\<open>Subscription\<close> is a number, with its two methods in the same table. \<open>None\<close> as the result of
  \<^verbatim>\<open>Request\<close> is that it still waits.
\<close>

record ('t, 's) transport_iface =
  i_Consume :: "'s consumer_config \<Rightarrow> 't \<Rightarrow> (goerr + nat) outcome \<times> 't"
  i_Request :: "request \<Rightarrow> 't \<Rightarrow> (goerr + reply) option outcome \<times> 't"
  i_Publish :: "request \<Rightarrow> 't \<Rightarrow> goerr option outcome \<times> 't"
  i_Close :: "'t \<Rightarrow> goerr option outcome \<times> 't"
  i_SubEndpoint :: "nat \<Rightarrow> 't \<Rightarrow> string"
  i_SubClose :: "nat \<Rightarrow> 't \<Rightarrow> goerr option \<times> 't"

text \<open>
  What the interface promises of subscriptions: \<^verbatim>\<open>Consume\<close> makes one new live subscription or
  none, closing a subscription ends it, and neither touches the others. \<open>subs\<close> is the set of the
  subscriptions made so far and \<open>live\<close> tells the ones that still serve.
\<close>

locale transport_contract =
  fixes ops :: "('t, 's) transport_iface" and subs :: "'t \<Rightarrow> nat set" and live :: "'t \<Rightarrow> nat \<Rightarrow> bool"
  assumes consume_new: "i_Consume ops cfg t = (Returns (Inr i), t') \<Longrightarrow>
      i \<notin> subs t \<and> subs t' = insert i (subs t) \<and> live t' i \<and> (\<forall>j \<in> subs t. live t' j = live t j)"
    and consume_none: "i_Consume ops cfg t = (r, t') \<Longrightarrow> (\<And>i. r \<noteq> Returns (Inr i)) \<Longrightarrow>
      subs t' = subs t \<and> (\<forall>j \<in> subs t. live t' j = live t j)"
    and close_one: "subs (snd (i_SubClose ops i t)) = subs t \<and> \<not> live (snd (i_SubClose ops i t)) i
      \<and> (\<forall>j. j \<noteq> i \<longrightarrow> live (snd (i_SubClose ops i t)) j = live t j)"
begin

lemma close_each:
  "subs (fold (\<lambda>i t. snd (i_SubClose ops i t)) ids t) = subs t
   \<and> (\<forall>j. live (fold (\<lambda>i t. snd (i_SubClose ops i t)) ids t) j = (j \<notin> set ids \<and> live t j))"
proof (induction ids arbitrary: t)
  case (Cons i ids)
  show ?case using Cons [of "snd (i_SubClose ops i t)"] close_one [of i t] by auto
qed simp

end


section \<open>The delivery contract\<close>

text \<open>One call of a handler on its delivery, and a script of such calls.\<close>

datatype action = DoAck | DoNack bool | DoReply gobytes string

fun act :: "'s delivery \<Rightarrow> action \<Rightarrow> 's \<Rightarrow> 's" where
  "act d DoAck s = snd (Ack d s)"
| "act d (DoNack rq) s = snd (Nack d rq s)"
| "act d (DoReply b ct) s = snd (Reply d b ct s)"

fun acts :: "'s delivery \<Rightarrow> action list \<Rightarrow> 's \<Rightarrow> 's" where
  "acts d [] s = s"
| "acts d (a # as) s = acts d as (act d a s)"

lemma acts_append: "acts d (as @ bs) s = acts d bs (acts d as s)"
  by (induction as arbitrary: s) auto

text \<open>
  What a transport promises for the deliveries it builds: whatever a handler calls, in any
  order and any number of times, the originator receives at most one answer and the
  broker at most one settlement. \<open>replies\<close> and \<open>settles\<close> count what left the process.
\<close>

locale delivery_contract =
  fixes d :: "'s delivery"
    and replies :: "'s \<Rightarrow> nat"
    and settles :: "'s \<Rightarrow> nat"
    and fresh :: "'s \<Rightarrow> bool"
    and inv :: "'s \<Rightarrow> bool"
  assumes fresh_inv: "fresh s \<Longrightarrow> inv s"
    and inv_replies: "inv s \<Longrightarrow> replies s \<le> 1"
    and inv_settles: "inv s \<Longrightarrow> settles s \<le> 1"
    and inv_Ack: "inv s \<Longrightarrow> inv (snd (Ack d s))"
    and inv_Nack: "inv s \<Longrightarrow> inv (snd (Nack d rq s))"
    and inv_Reply: "inv s \<Longrightarrow> inv (snd (Reply d b ct s))"
begin

lemma act_inv: "inv s \<Longrightarrow> inv (act d a s)"
  by (cases a) (simp_all add: inv_Ack inv_Nack inv_Reply)

lemma acts_inv: "inv s \<Longrightarrow> inv (acts d as s)"
  by (induction as arbitrary: s) (simp_all add: act_inv)

lemma at_most_one_answer:
  assumes "fresh s"
  shows "replies (acts d as s) \<le> 1 \<and> settles (acts d as s) \<le> 1"
proof -
  have "inv (acts d as s)" using assms by (intro acts_inv fresh_inv)
  then show ?thesis by (blast intro: inv_replies inv_settles)
qed

end


section \<open>The closing contract\<close>

text \<open>
  \<^verbatim>\<open>Close\<close> of the interface \<^verbatim>\<open>rpc.Transport\<close>, documented as safe to call multiple times: it closes the
  transport, and on a closed transport it changes nothing.
\<close>

locale closable =
  fixes close :: "'t \<Rightarrow> 't" and closed :: "'t \<Rightarrow> bool"
  assumes close_closes: "closed (close t)"
    and close_closed: "closed t \<Longrightarrow> close t = t"
begin

lemma close_idempotent: "close (close t) = close t"
  by (rule close_closed [OF close_closes])

lemma close_many: "(close ^^ Suc n) t = close t"
  by (induction n) (simp_all add: close_idempotent)

end


section \<open>Invariants of concurrent goroutines\<close>

text \<open>
  Goroutines that interleave are a step relation; a property that holds at the start and that
  every step keeps holds in every state they reach.
\<close>

locale step_invariant =
  fixes step :: "'p \<Rightarrow> 'p \<Rightarrow> bool" and initial :: "'p \<Rightarrow> bool" and inv :: "'p \<Rightarrow> bool"
  assumes starts: "initial p \<Longrightarrow> inv p"
    and keeps: "step p q \<Longrightarrow> inv p \<Longrightarrow> inv q"
begin

lemma kept: "step\<^sup>*\<^sup>* p q \<Longrightarrow> inv p \<Longrightarrow> inv q"
  by (induction rule: rtranclp_induct) (auto intro: keeps)

lemma reached: "step\<^sup>*\<^sup>* p q \<Longrightarrow> initial p \<Longrightarrow> inv q"
  by (auto intro: kept starts)

end

text \<open>
  What a semaphore of capacity \<open>cap\<close> promises of a system of goroutines: work enters only while
  fewer than \<open>cap\<close> pieces are running, one piece at a time, and leaves freely. Its bound is such
  an invariant.
\<close>

locale throttle =
  fixes step :: "'p \<Rightarrow> 'p \<Rightarrow> bool"
    and initial :: "'p \<Rightarrow> bool"
    and running :: "'p \<Rightarrow> nat"
    and cap :: nat
  assumes starts_idle: "initial p \<Longrightarrow> running p = 0"
    and enters_below_cap: "step p q \<Longrightarrow> running q \<le> running p \<or> running p < cap \<and> running q = Suc (running p)"

sublocale throttle \<subseteq> bound: step_invariant step initial "\<lambda>p. running p \<le> cap"
proof unfold_locales
  fix p q
  show "running p \<le> cap" if "initial p" using starts_idle [OF that] by simp
  show "running q \<le> cap" if "step p q" "running p \<le> cap" using enters_below_cap [OF that(1)] that(2) by linarith
qed


text \<open>
  A system in which every state with work left has some step that does part of it, without
  new work arriving, can be brought to rest from everywhere.
\<close>

locale draining =
  fixes step :: "'p \<Rightarrow> 'p \<Rightarrow> bool" and left :: "'p \<Rightarrow> nat" and arrived :: "'p \<Rightarrow> 'a"
  assumes progress: "0 < left p \<Longrightarrow> \<exists>q. step p q \<and> left q < left p \<and> arrived q = arrived p"
begin

lemma drains: "\<exists>q. step\<^sup>*\<^sup>* p q \<and> left q = 0 \<and> arrived q = arrived p"
proof (induction "left p" arbitrary: p rule: less_induct)
  case less
  show ?case
  proof (cases "left p = 0")
    case False
    then obtain q where q: "step p q" "left q < left p" "arrived q = arrived p" using progress by blast
    from less [OF q(2)] q(1,3) show ?thesis by (metis converse_rtranclp_into_rtranclp)
  qed blast
qed

end


section \<open>Capped exponential backoff\<close>

text \<open>
  The rule that the three retry loops of the SDK share: double the delay while it is below
  the cap, never exceed the cap.
\<close>

locale capped_backoff =
  fixes init :: int and cap :: int and nxt :: "int \<Rightarrow> int"
  assumes init_pos: "0 < init"
    and init_le_cap: "init \<le> cap"
    and nxt_below: "x < cap \<Longrightarrow> nxt x = min (2 * x) cap"
    and nxt_at_cap: "cap \<le> x \<Longrightarrow> nxt x = x"
begin

lemma iterate: "(nxt ^^ n) init = min (2 ^ n * init) cap"
proof (induction n)
  case 0
  then show ?case using init_le_cap by simp
next
  case (Suc n)
  show ?case
  proof (cases "2 ^ n * init < cap")
    case True
    then show ?thesis using Suc by (simp add: nxt_below min_def)
  next
    case False
    then have "(nxt ^^ n) init = cap" using Suc by simp
    moreover have "0 < 2 ^ n * init" using init_pos by simp
    then have "cap \<le> 2 ^ Suc n * init" using False by (simp add: mult.assoc)
    ultimately show ?thesis by (simp add: nxt_at_cap)
  qed
qed

lemma iterate_bounds: "init \<le> (nxt ^^ n) init \<and> (nxt ^^ n) init \<le> cap"
proof -
  have "1 * init \<le> 2 ^ n * init" using init_pos by (intro mult_right_mono) auto
  then show ?thesis using init_le_cap by (simp add: iterate)
qed

lemma iterate_mono: "m \<le> n \<Longrightarrow> (nxt ^^ m) init \<le> (nxt ^^ n) init"
  using init_pos by (simp add: iterate min.coboundedI1 min.mono power_increasing)

end

end
