(* ===== verification/Json.thy ===== *)
theory Json
  imports Prelude Complex_Main
begin

text \<open>
  The part of \<^verbatim>\<open>encoding/json\<close>, \<^verbatim>\<open>unicode/utf8\<close> and \<^verbatim>\<open>strconv\<close> that the SDK relies on:
  the grammar and the decoder (\<open>json_parse\<close>, \<open>json_fields\<close> and the field decoders of
  a struct), the string encoder (\<open>json_string\<close>), and float64 numbers with the
  \<^verbatim>\<open>%d\<close> and \<^verbatim>\<open>%g\<close> renderings. Decoding follows Go: the whole text is checked first,
  object keys match struct fields up to case, the last of several matching keys wins,
  \<^verbatim>\<open>null\<close> leaves a string field alone, and nesting deeper than 10000 is refused.
\<close>

section \<open>UTF-8\<close>

definition cont_byte :: "char \<Rightarrow> bool" where
  "cont_byte c = (128 \<le> byte c \<and> byte c \<le> 191)"

definition byte_in :: "nat \<Rightarrow> nat \<Rightarrow> char \<Rightarrow> bool" where
  "byte_in lo hi c = (lo \<le> byte c \<and> byte c \<le> hi)"

text \<open>
  Length of the valid UTF-8 sequence at the head, 0 when \<^verbatim>\<open>utf8.DecodeRune\<close> reports
  an error. The second byte has a narrower range after E0, ED, F0 and F4.
\<close>

definition utf8_lead :: "char \<Rightarrow> nat" where
  "utf8_lead a =
     (if byte a < 128 then 1 else if byte_in 0xC2 0xDF a then 2
      else if byte_in 0xE0 0xEF a then 3 else if byte_in 0xF0 0xF4 a then 4 else 0)"

definition utf8_tail :: "char \<Rightarrow> string \<Rightarrow> bool" where
  "utf8_tail a bs = (case bs of [] \<Rightarrow> True
     | b # bs' \<Rightarrow>
         byte_in (if byte a = 0xE0 then 0xA0 else if byte a = 0xF0 then 0x90 else 0x80)
                 (if byte a = 0xED then 0x9F else if byte a = 0xF4 then 0x8F else 0xBF) b
         \<and> list_all cont_byte bs')"

definition utf8_size :: "string \<Rightarrow> nat" where
  "utf8_size s = (case s of [] \<Rightarrow> 0 | a # r \<Rightarrow>
     let n = utf8_lead a
     in if n - 1 \<le> length r \<and> utf8_tail a (take (n - 1) r) then n else 0)"

lemma utf8_size_Cons:
  "utf8_size (a # r) =
     (if utf8_lead a - 1 \<le> length r \<and> utf8_tail a (take (utf8_lead a - 1) r)
      then utf8_lead a else 0)"
  by (simp add: utf8_size_def Let_def)

lemma utf8_size_append: "utf8_size s \<noteq> 0 \<Longrightarrow> utf8_size (s @ t) = utf8_size s"
  by (cases s) (auto simp: utf8_size_Cons utf8_size_def [of "[]"] split: if_splits)

lemma utf8_size_le: "utf8_size s \<le> length s"
  by (cases s) (auto simp: utf8_size_Cons utf8_size_def [of "[]"])

lemma utf8_size_ascii: "byte c < 128 \<Longrightarrow> utf8_size (c # cs) = 1"
  by (simp add: utf8_size_Cons utf8_lead_def utf8_tail_def)

text \<open>The replacement character U+FFFD, and \<^verbatim>\<open>utf8.EncodeRune\<close>.\<close>

definition fffd :: string where "fffd = [CHR 0xEF, CHR 0xBF, CHR 0xBD]"

definition utf8_enc :: "nat \<Rightarrow> string" where
  "utf8_enc u =
     (if u < 0x80 then [char_of u]
      else if u < 0x800 then [char_of (0xC0 + u div 64), char_of (0x80 + u mod 64)]
      else if u < 0x10000 then
        [char_of (0xE0 + u div 4096), char_of (0x80 + u div 64 mod 64), char_of (0x80 + u mod 64)]
      else [char_of (0xF0 + u div 262144), char_of (0x80 + u div 4096 mod 64),
            char_of (0x80 + u div 64 mod 64), char_of (0x80 + u mod 64)])"

function valid_utf8 :: "string \<Rightarrow> bool" where
  "valid_utf8 [] = True"
| "valid_utf8 (c # cs) =
     (utf8_size (c # cs) \<noteq> 0 \<and> valid_utf8 (drop (utf8_size (c # cs) - 1) cs))"
  by pat_completeness auto
termination by (relation "measure length") auto

declare valid_utf8.simps(2) [simp del]

lemma valid_utf8_ascii: "\<forall>c \<in> set s. byte c < 128 \<Longrightarrow> valid_utf8 s"
  by (induction s) (auto simp: valid_utf8.simps utf8_size_ascii)


section \<open>Values, and scanning strings and numbers\<close>

text \<open>
  Objects keep their members in source order, duplicates included. A number keeps the
  parts of its literal: sign, integer digits, fraction digits, exponent.
\<close>

datatype json =
    JNull
  | JBool bool
  | JNum bool string string "int option"
  | JStr string
  | JArr "json list"
  | JObj "(string \<times> json) list"

definition hex_val :: "char \<Rightarrow> nat option" where
  "hex_val c =
     (if 48 \<le> byte c \<and> byte c \<le> 57 then Some (byte c - 48)
      else if 97 \<le> byte c \<and> byte c \<le> 102 then Some (byte c - 87)
      else if 65 \<le> byte c \<and> byte c \<le> 70 then Some (byte c - 55) else None)"

definition hex4 :: "string \<Rightarrow> (nat \<times> string) option" where
  "hex4 s = (case s of a # b # c # d # r \<Rightarrow>
       (case (hex_val a, hex_val b, hex_val c, hex_val d) of
          (Some w, Some x, Some y, Some z) \<Rightarrow> Some (((w * 16 + x) * 16 + y) * 16 + z, r)
        | _ \<Rightarrow> None)
     | _ \<Rightarrow> None)"

text \<open>A \<^verbatim>\<open>\uXXXX\<close> escape after its \<^verbatim>\<open>\u\<close>: a surrogate pair is joined, a lone one becomes U+FFFD.\<close>

definition u_escape :: "string \<Rightarrow> (string \<times> string) option" where
  "u_escape s = (case hex4 s of None \<Rightarrow> None | Some (u, r) \<Rightarrow>
     if u < 0xD800 \<or> 0xDFFF < u then Some (utf8_enc u, r)
     else (case r of b # c # r2 \<Rightarrow>
              (case (if b = CHR 0x5C \<and> c = CHR ''u'' then hex4 r2 else None) of
                 Some (v, r3) \<Rightarrow>
                   if u < 0xDC00 \<and> 0xDC00 \<le> v \<and> v \<le> 0xDFFF
                   then Some (utf8_enc (0x10000 + (u - 0xD800) * 1024 + (v - 0xDC00)), r3)
                   else Some (fffd, r)
               | None \<Rightarrow> Some (fffd, r))
            | _ \<Rightarrow> Some (fffd, r)))"

lemma hex4_shorter: "hex4 s = Some (u, r) \<Longrightarrow> length r < length s"
  by (auto simp: hex4_def split: list.splits option.splits)

lemma u_escape_shorter: "u_escape s = Some (b, r) \<Longrightarrow> length r < length s"
  by (fastforce simp: u_escape_def dest: hex4_shorter
      split: option.splits prod.splits if_splits list.splits)

definition esc_char :: "char \<Rightarrow> char option" where
  "esc_char e =
     (if e = CHR 0x22 \<or> e = CHR 0x5C \<or> e = CHR ''/'' then Some e
      else if e = CHR ''b'' then Some (CHR 0x08) else if e = CHR ''f'' then Some (CHR 0x0C)
      else if e = CHR ''n'' then Some (CHR 0x0A) else if e = CHR ''r'' then Some (CHR 0x0D)
      else if e = CHR ''t'' then Some (CHR 0x09) else None)"

text \<open>The contents of a string literal after its opening quote, and the text after the closing one.\<close>

function unq :: "string \<Rightarrow> (string \<times> string) option" where
  "unq [] = None"
| "unq (c # cs) =
     (if c = CHR 0x22 then Some ([], cs)
      else if c = CHR 0x5C then
        (case cs of [] \<Rightarrow> None
         | e # es \<Rightarrow>
             if e = CHR ''u''
             then (case u_escape es of None \<Rightarrow> None
                   | Some (b, r) \<Rightarrow> map_option (apfst (append b)) (unq r))
             else (case esc_char e of None \<Rightarrow> None
                   | Some x \<Rightarrow> map_option (apfst (Cons x)) (unq es)))
      else if byte c < 32 then None
      else if utf8_size (c # cs) = 0 then map_option (apfst (append fffd)) (unq cs)
      else map_option (apfst (append (take (utf8_size (c # cs)) (c # cs))))
             (unq (drop (utf8_size (c # cs) - 1) cs)))"
  by pat_completeness auto
termination
  by (relation "measure length") (auto dest: u_escape_shorter)

declare unq.simps(2) [simp del]

lemma unq_shorter: "unq s = Some (t, r) \<Longrightarrow> length r < length s"
proof (induction s arbitrary: t r rule: length_induct)
  case (1 s)
  then have IH: "length s' < length s \<Longrightarrow> unq s' = Some (t', r') \<Longrightarrow> length r' < length s'"
    for s' t' r' by blast
  show ?case
  proof (cases s)
    case Nil
    with "1.prems" show ?thesis by simp
  next
    case (Cons c cs)
    with "1.prems" show ?thesis
      by (auto simp: unq.simps(2) [of c cs] split: if_splits list.splits option.splits
          dest!: IH [rotated] u_escape_shorter)
  qed
qed

definition skip_ws :: "string \<Rightarrow> string" where
  "skip_ws s = dropWhile (\<lambda>c. c = CHR '' '' \<or> c = CHR 0x09 \<or> c = CHR 0x0A \<or> c = CHR 0x0D) s"

lemma skip_ws_le: "length (skip_ws s) \<le> length s"
  by (simp add: skip_ws_def length_dropWhile_le)

lemma skip_ws_Cons:
  "skip_ws (c # cs) =
     (if c = CHR '' '' \<or> c = CHR 0x09 \<or> c = CHR 0x0A \<or> c = CHR 0x0D then skip_ws cs else c # cs)"
  by (simp add: skip_ws_def)

lemma skip_ws_Nil [simp]: "skip_ws [] = []"
  by (simp add: skip_ws_def)

definition pnum_exp :: "string \<Rightarrow> (int option \<times> string) option" where
  "pnum_exp s = (case s of c # r \<Rightarrow>
       if c = CHR ''e'' \<or> c = CHR ''E'' then
         (let (neg, r') = (case r of d # r2 \<Rightarrow>
                if d = CHR ''-'' then (True, r2) else if d = CHR ''+'' then (False, r2) else (False, r)
              | [] \<Rightarrow> (False, []));
              ds = takeWhile is_digit r'
          in if ds = [] then None
             else Some (Some (if neg then - int (digits_val ds) else int (digits_val ds)),
                        dropWhile is_digit r'))
       else Some (None, s)
     | [] \<Rightarrow> Some (None, []))"

definition pnum_frac :: "string \<Rightarrow> (string \<times> string) option" where
  "pnum_frac s = (case s of c # r \<Rightarrow>
       if c = CHR ''.'' then
         (if takeWhile is_digit r = [] then None
          else Some (takeWhile is_digit r, dropWhile is_digit r))
       else Some ([], s)
     | [] \<Rightarrow> Some ([], []))"

definition pnum_int :: "string \<Rightarrow> (string \<times> string) option" where
  "pnum_int s = (case s of c # r \<Rightarrow>
       if c = CHR ''0'' then Some ([c], r)
       else if is_digit c then Some (takeWhile is_digit s, dropWhile is_digit s) else None
     | [] \<Rightarrow> None)"

definition pnum :: "string \<Rightarrow> (json \<times> string) option" where
  "pnum s =
     (let (neg, s') = (case s of c # r \<Rightarrow> if c = CHR ''-'' then (True, r) else (False, s)
                       | [] \<Rightarrow> (False, []))
      in case pnum_int s' of None \<Rightarrow> None | Some (ip, r1) \<Rightarrow>
           (case pnum_frac r1 of None \<Rightarrow> None | Some (fp, r2) \<Rightarrow>
             (case pnum_exp r2 of None \<Rightarrow> None | Some (ex, r3) \<Rightarrow>
                Some (JNum neg ip fp ex, r3))))"

lemma pnum_parts_shorter:
  "pnum_int s = Some (t, r) \<Longrightarrow> length r < length s"
  "pnum_frac s = Some (t, r) \<Longrightarrow> length r \<le> length s"
  "pnum_exp s = Some (e, r) \<Longrightarrow> length r \<le> length s"
proof -
  have dw: "length (dropWhile is_digit x) \<le> length x" for x
    by (rule length_dropWhile_le)
  show "pnum_int s = Some (t, r) \<Longrightarrow> length r < length s"
    using dw [of "tl s"] by (auto simp: pnum_int_def split: list.splits if_splits)
  show "pnum_frac s = Some (t, r) \<Longrightarrow> length r \<le> length s"
    using dw [of "tl s"] by (auto simp: pnum_frac_def split: list.splits if_splits)
  show "pnum_exp s = Some (e, r) \<Longrightarrow> length r \<le> length s"
    using dw [of "tl s"] dw [of "tl (tl s)"]
    by (auto simp: pnum_exp_def Let_def split: list.splits if_splits)
qed

lemma pnum_shorter: "pnum s = Some (v, r) \<Longrightarrow> length r < length s"
  by (fastforce simp: pnum_def Let_def dest: pnum_parts_shorter
      split: list.splits if_splits option.splits)


section \<open>The grammar\<close>

definition plit :: "string \<Rightarrow> json \<Rightarrow> string \<Rightarrow> (json \<times> string) option" where
  "plit w v s = (if prefix w s then Some (v, drop (length w) s) else None)"

text \<open>
  Recursive descent over fuel. \<open>pmembers\<close> keeps the raw text of every member value
  beside the value, which is what \<^verbatim>\<open>json.RawMessage\<close> receives. A text of length \<open>n\<close>
  never needs more than \<open>2 * n + 2\<close> (\<open>pval_fuel\<close> below).
\<close>

fun pval :: "nat \<Rightarrow> string \<Rightarrow> (json \<times> string) option"
and pelems :: "nat \<Rightarrow> string \<Rightarrow> (json list \<times> string) option"
and pmembers :: "nat \<Rightarrow> string \<Rightarrow> ((string \<times> json \<times> string) list \<times> string) option" where
  "pval 0 s = None"
| "pval (Suc n) s =
     (case skip_ws s of [] \<Rightarrow> None
      | c # cs \<Rightarrow>
          if c = CHR ''{'' then
            (case skip_ws cs of [] \<Rightarrow> None
             | d # ds \<Rightarrow>
                 if d = CHR ''}'' then Some (JObj [], ds)
                 else map_option (apfst (\<lambda>ms. JObj (map (\<lambda>(k, v, raw). (k, v)) ms))) (pmembers n cs))
          else if c = CHR ''['' then
            (case skip_ws cs of [] \<Rightarrow> None
             | d # ds \<Rightarrow> if d = CHR '']'' then Some (JArr [], ds)
                          else map_option (apfst JArr) (pelems n cs))
          else if c = CHR 0x22 then map_option (apfst JStr) (unq cs)
          else if c = CHR ''t'' then plit ''true'' (JBool True) (c # cs)
          else if c = CHR ''f'' then plit ''false'' (JBool False) (c # cs)
          else if c = CHR ''n'' then plit ''null'' JNull (c # cs)
          else pnum (c # cs))"
| "pelems 0 s = None"
| "pelems (Suc n) s =
     (case pval n s of None \<Rightarrow> None
      | Some (v, r) \<Rightarrow>
          (case skip_ws r of [] \<Rightarrow> None
           | c # cs \<Rightarrow>
               if c = CHR '','' then map_option (apfst (Cons v)) (pelems n cs)
               else if c = CHR '']'' then Some ([v], cs) else None))"
| "pmembers 0 s = None"
| "pmembers (Suc n) s =
     (case skip_ws s of [] \<Rightarrow> None
      | q # qs \<Rightarrow>
          if q \<noteq> CHR 0x22 then None
          else (case unq qs of None \<Rightarrow> None
            | Some (k, r1) \<Rightarrow>
               (case skip_ws r1 of [] \<Rightarrow> None
                | c # r2 \<Rightarrow>
                   if c \<noteq> CHR '':'' then None
                   else (case pval n r2 of None \<Rightarrow> None
                     | Some (v, r3) \<Rightarrow>
                        (let raw = take (length (skip_ws r2) - length r3) (skip_ws r2)
                         in case skip_ws r3 of [] \<Rightarrow> None
                            | e # r4 \<Rightarrow>
                               if e = CHR '','' then
                                 map_option (apfst (Cons (k, v, raw))) (pmembers n r4)
                               else if e = CHR ''}'' then Some ([(k, v, raw)], r4) else None)))))"

fun json_depth :: "json \<Rightarrow> nat" where
  "json_depth (JArr vs) = Suc (foldr max (map json_depth vs) 0)"
| "json_depth (JObj ms) = Suc (foldr max (map (\<lambda>(k, v). json_depth v) ms) 0)"
| "json_depth _ = 0"

definition json_fuel :: "string \<Rightarrow> nat" where "json_fuel s = 2 * length s + 2"

definition max_nesting_depth :: nat where "max_nesting_depth = 10000"

definition json_parse :: "string \<Rightarrow> json option" where
  "json_parse s = (case pval (json_fuel s) s of None \<Rightarrow> None
     | Some (v, r) \<Rightarrow> if skip_ws r = [] \<and> json_depth v \<le> max_nesting_depth then Some v else None)"

subsection \<open>The parser consumes input, and its fuel is enough\<close>

lemma skip_ws_eq_Cons: "skip_ws s = c # cs \<Longrightarrow> length cs < length s"
  using skip_ws_le [of s] by simp

lemma plit_shorter: "w \<noteq> [] \<Longrightarrow> plit w v s = Some (x, r) \<Longrightarrow> length r < length s"
  by (auto simp: plit_def prefix_def split: if_splits)

lemma parser_shorter:
  "pval n s = Some (v, r) \<Longrightarrow> length r < length s"
  "pelems n s = Some (vs, r) \<Longrightarrow> length r < length s"
  "pmembers n s = Some (ms, r) \<Longrightarrow> length r < length s"
proof (induction n arbitrary: s v vs ms r)
  case (Suc n)
  {
    case 1
    then show ?case
      by (auto split: list.splits if_splits
          dest!: Suc.IH unq_shorter pnum_shorter plit_shorter [rotated] skip_ws_eq_Cons)
  next
    case 2
    then show ?case
      by (auto split: list.splits if_splits option.splits dest!: Suc.IH skip_ws_eq_Cons)
  next
    case 3
    then show ?case
      by (auto simp: Let_def split: list.splits if_splits option.splits
          dest!: Suc.IH unq_shorter skip_ws_eq_Cons)
  }
qed auto

lemma parser_fuel_Suc:
  "2 * length s + 1 \<le> n \<Longrightarrow> pval (Suc n) s = pval n s"
  "2 * length s + 2 \<le> n \<Longrightarrow> pelems (Suc n) s = pelems n s"
  "2 * length s + 2 \<le> n \<Longrightarrow> pmembers (Suc n) s = pmembers n s"
proof (induction n arbitrary: s)
  case (Suc n)
  {
    case 1
    then have "pelems (Suc n) cs = pelems n cs" "pmembers (Suc n) cs = pmembers n cs"
      if "skip_ws s = c # cs" for c cs
      using Suc.IH(2,3) [of cs] skip_ws_eq_Cons [OF that] by simp_all
    then show ?case by (auto split: list.split)
  next
    case 2
    then have v: "pval (Suc n) s = pval n s" by (intro Suc.IH) simp
    have "pelems (Suc n) cs = pelems n cs"
      if "pval n s = Some (w, r)" "skip_ws r = c # cs" for w r c cs
      using parser_shorter(1) [OF that(1)] skip_ws_eq_Cons [OF that(2)] 2 by (intro Suc.IH) simp
    then show ?case
      unfolding pelems.simps(2) [of "Suc n" s] pelems.simps(2) [of n s] v
      by (auto split: option.split list.split)
  next
    case 3
    have v: "pval (Suc n) r2 = pval n r2"
      if "skip_ws s = q # qs" "unq qs = Some (k, r1)" "skip_ws r1 = c # r2" for q qs k r1 c r2
      using skip_ws_eq_Cons [OF that(1)] unq_shorter [OF that(2)] skip_ws_eq_Cons [OF that(3)] 3
      by (intro Suc.IH) simp
    have m: "pmembers (Suc n) r4 = pmembers n r4"
      if "skip_ws s = q # qs" "unq qs = Some (k, r1)" "skip_ws r1 = c # r2"
        "pval n r2 = Some (w, r3)" "skip_ws r3 = e # r4" for q qs k r1 c r2 w r3 e r4
      using skip_ws_eq_Cons [OF that(1)] unq_shorter [OF that(2)] skip_ws_eq_Cons [OF that(3)]
        parser_shorter(1) [OF that(4)] skip_ws_eq_Cons [OF that(5)] 3
      by (intro Suc.IH) simp
    show ?case
      unfolding pmembers.simps(2) [of "Suc n" s] pmembers.simps(2) [of n s] Let_def
      by (auto simp: v m split: option.split list.split simp del: pval.simps pmembers.simps)
  }
qed auto

lemma pval_fuel:
  assumes "json_fuel s \<le> n"
  shows "pval n s = pval (json_fuel s) s"
  using assms
proof (induction n rule: dec_induct)
  case (step n)
  then show ?case
    using parser_fuel_Suc(1) [of s n] by (simp add: json_fuel_def del: pval.simps)
qed simp


text \<open>Any fuel above the bound gives the same parse, so a few levels can be unfolded symbolically.\<close>

lemma json_parse_fuel:
  "json_fuel s \<le> n \<Longrightarrow>
   json_parse s = (case pval n s of None \<Rightarrow> None
     | Some (v, r) \<Rightarrow> if skip_ws r = [] \<and> json_depth v \<le> max_nesting_depth then Some v else None)"
  unfolding json_parse_def by (drule pval_fuel) (simp only:)

lemmas json_parse_unfold = json_parse_fuel [of s "Suc (Suc (Suc (Suc (json_fuel s))))" for s, simplified]


section \<open>float64\<close>

text \<open>
  A finite float64 is the rational it denotes (the sign of zero is never observed). The
  conversion of a literal rounds to 53 bits, ties to even, and fails on overflow as
  \<^verbatim>\<open>strconv.ParseFloat\<close> does.
\<close>

fun bit_len :: "nat \<Rightarrow> nat" where
  "bit_len n = (if n = 0 then 0 else Suc (bit_len (n div 2)))"

declare bit_len.simps [simp del]

definition pow2 :: "int \<Rightarrow> rat" where
  "pow2 e = (if 0 \<le> e then 2 ^ nat e else 1 / 2 ^ nat (- e))"

definition round_even :: "rat \<Rightarrow> int" where
  "round_even r =
     (let f = \<lfloor>r\<rfloor>; d = r - of_int f
      in if d < 1 / 2 then f else if 1 / 2 < d then f + 1 else if even f then f else f + 1)"

definition round_f64 :: "rat \<Rightarrow> rat option" where
  "round_f64 q =
     (if q = 0 then Some 0
      else let (n, d) = quotient_of \<bar>q\<bar>;
               e0 = int (bit_len (nat n)) - int (bit_len (nat d)) - 53;
               e1 = (if pow2 (e0 + 53) \<le> \<bar>q\<bar> then e0 + 1 else e0);
               e = max e1 (- 1074);
               v = of_int (round_even (\<bar>q\<bar> * pow2 (- e))) * pow2 e
           in if pow2 1024 \<le> v then None else Some (if q < 0 then - v else v))"

definition num_value :: "bool \<Rightarrow> string \<Rightarrow> string \<Rightarrow> int option \<Rightarrow> rat" where
  "num_value neg ip fp ex =
     (let x = of_nat (digits_val (ip @ fp));
          k = (case ex of None \<Rightarrow> 0 | Some e \<Rightarrow> e) - int (length fp);
          y = (if 0 \<le> k then x * 10 ^ nat k else x / 10 ^ nat (- k))
      in if neg then - y else y)"

text \<open>
  \<^verbatim>\<open>fmt.Sprintf("%g", x)\<close>: the shortest decimal that reads back as \<open>x\<close> (the closer one
  of the two neighbours when both do), in exponent form when the decimal exponent is
  below -4 or at least 6.
\<close>

fun dec_exp :: "nat \<Rightarrow> rat \<Rightarrow> int \<Rightarrow> int" where
  "dec_exp 0 x k = k"
| "dec_exp (Suc n) x k =
     (if 10 \<le> x then dec_exp n (x / 10) (k + 1)
      else if x < 1 then dec_exp n (x * 10) (k - 1) else k)"

definition pow10 :: "int \<Rightarrow> rat" where
  "pow10 e = (if 0 \<le> e then 10 ^ nat e else 1 / 10 ^ nat (- e))"

definition try_digits :: "rat \<Rightarrow> int \<Rightarrow> nat \<Rightarrow> nat option" where
  "try_digits x k n =
     (let sc = pow10 (int n - 1 - k);
          lo = \<lfloor>x * sc\<rfloor>; hi = lo + 1;
          ok = (\<lambda>m. round_f64 (of_int m / sc) = Some x)
      in if ok lo \<and> ok hi
         then Some (nat (if x * sc - of_int lo \<le> of_int hi - x * sc then lo else hi))
         else if ok lo then Some (nat lo) else if ok hi then Some (nat hi) else None)"

fun shortest_digits :: "rat \<Rightarrow> int \<Rightarrow> nat \<Rightarrow> nat \<Rightarrow> nat \<times> nat" where
  "shortest_digits x k n 0 = (nat \<lfloor>x * pow10 (int n - 1 - k)\<rfloor>, n)"
| "shortest_digits x k n (Suc f) =
     (case try_digits x k n of Some m \<Rightarrow> (m, n) | None \<Rightarrow> shortest_digits x k (Suc n) f)"

definition show_g :: "rat \<Rightarrow> string" where
  "show_g q =
     (let x = \<bar>q\<bar>; k = dec_exp 400 x 0;
          (m, n) = shortest_digits x k 1 16;
          k' = k + int (length (show_nat m)) - int n;
          ds = rev (dropWhile (\<lambda>c. c = CHR ''0'') (rev (show_nat m)));
          e2 = (\<lambda>j. (if j < 10 then ''0'' else []) @ show_nat j);
          body = (if k' < - 4 \<or> 6 \<le> k' then
                    take 1 ds @ (if length ds > 1 then ''.'' @ drop 1 ds else [])
                    @ ''e'' @ (if k' < 0 then ''-'' else ''+'') @ e2 (nat \<bar>k'\<bar>)
                  else if k' < 0 then ''0.'' @ replicate (nat (- k') - 1) (CHR ''0'') @ ds
                  else if length ds \<le> nat k' + 1 then ds @ replicate (nat k' + 1 - length ds) (CHR ''0'')
                  else take (nat k' + 1) ds @ ''.'' @ drop (nat k' + 1) ds)
      in (if q < 0 then ''-'' else []) @ body)"


section \<open>Decoding into Go values\<close>

text \<open>
  A value of type \<^verbatim>\<open>any\<close> as \<^verbatim>\<open>json.Unmarshal\<close> produces it. A map is an association list in
  which an earlier entry shadows a later one, so members are stored in reverse order.
\<close>

datatype goany =
    ANil
  | ABool bool
  | AF64 rat
  | AStr string
  | AArr "goany list"
  | AMap "(string \<times> goany) list"

fun to_any :: "json \<Rightarrow> goany option" where
  "to_any JNull = Some ANil"
| "to_any (JBool b) = Some (ABool b)"
| "to_any (JNum neg ip fp ex) = map_option AF64 (round_f64 (num_value neg ip fp ex))"
| "to_any (JStr s) = Some (AStr s)"
| "to_any (JArr vs) = map_option AArr (those (map to_any vs))"
| "to_any (JObj ms) =
     map_option (\<lambda>as. AMap (rev as))
       (those (map (\<lambda>(k, v). map_option (Pair k) (to_any v)) ms))"

text \<open>\<^verbatim>\<open>json.Unmarshal\<close> into a \<^verbatim>\<open>map[string]any\<close>.\<close>

definition json_any_map :: "string \<Rightarrow> (string \<rightharpoonup> goany) option" where
  "json_any_map s = (case json_parse s of
       Some JNull \<Rightarrow> Some Map.empty
     | Some (JObj ms) \<Rightarrow>
         (case to_any (JObj ms) of Some (AMap as) \<Rightarrow> Some (map_of as) | _ \<Rightarrow> None)
     | _ \<Rightarrow> None)"

text \<open>
  \<^verbatim>\<open>json.Unmarshal\<close> into a struct: \<open>json_fields\<close> lists the members of the top-level object
  with their raw texts, and each field is then read from that list.
\<close>

type_synonym fields = "(string \<times> json \<times> string) list"

definition obj_members :: "string \<Rightarrow> fields" where
  "obj_members s = (case skip_ws s of [] \<Rightarrow> []
     | c # cs \<Rightarrow> (case pmembers (json_fuel s) cs of Some (ms, r) \<Rightarrow> ms | None \<Rightarrow> []))"

definition json_fields :: "string \<Rightarrow> fields option" where
  "json_fields s = (case json_parse s of
       Some JNull \<Rightarrow> Some []
     | Some (JObj ms) \<Rightarrow> Some (obj_members s)
     | _ \<Rightarrow> None)"

definition upper_char :: "char \<Rightarrow> char" where
  "upper_char c = (if 97 \<le> byte c \<and> byte c \<le> 122 then char_of (byte c - 32) else c)"

text \<open>Case folding of keys; the Kelvin sign and the long s fold to ASCII letters.\<close>

fun fold_name :: "string \<Rightarrow> string" where
  "fold_name [] = []"
| "fold_name (c # cs) =
     (if prefix [CHR 0xE2, CHR 0x84, CHR 0xAA] (c # cs) then CHR ''K'' # fold_name (drop 2 cs)
      else if prefix [CHR 0xC5, CHR 0xBF] (c # cs) then CHR ''S'' # fold_name (drop 1 cs)
      else upper_char c # fold_name cs)"

definition key_matches :: "string \<Rightarrow> string \<Rightarrow> bool" where
  "key_matches k name = (fold_name k = fold_name name)"

text \<open>A string field; \<open>None\<close> is the type error of a value that is no string.\<close>

fun dec_string :: "string \<Rightarrow> fields \<Rightarrow> string \<Rightarrow> string option" where
  "dec_string name [] acc = Some acc"
| "dec_string name ((k, v, raw) # fs) acc =
     (if key_matches k name then
        (case v of JStr t \<Rightarrow> dec_string name fs t | JNull \<Rightarrow> dec_string name fs acc | _ \<Rightarrow> None)
      else dec_string name fs acc)"

text \<open>A \<^verbatim>\<open>json.RawMessage\<close> field: the raw text of the last matching member, \<open>[]\<close> if there is none.\<close>

fun dec_raw :: "string \<Rightarrow> fields \<Rightarrow> string \<Rightarrow> string" where
  "dec_raw name [] acc = acc"
| "dec_raw name ((k, v, raw) # fs) acc =
     (if key_matches k name then dec_raw name fs raw else dec_raw name fs acc)"


section \<open>Encoding strings\<close>

definition hex_digit :: "nat \<Rightarrow> char" where
  "hex_digit n = (if n < 10 then char_of (48 + n) else char_of (87 + n))"

definition u00 :: "char \<Rightarrow> string" where
  "u00 c = [CHR 0x5C, CHR ''u'', CHR ''0'', CHR ''0'', hex_digit (byte c div 16), hex_digit (byte c mod 16)]"

text \<open>
  One ASCII byte inside a string literal; \<open>html\<close> is the encoder's \<^verbatim>\<open>escapeHTML\<close>, which
  \<^verbatim>\<open>json.Marshal\<close> sets.
\<close>

definition enc_char :: "bool \<Rightarrow> char \<Rightarrow> string" where
  "enc_char html c =
     (if c = CHR 0x22 \<or> c = CHR 0x5C then [CHR 0x5C, c]
      else if c = CHR 0x08 then [CHR 0x5C, CHR ''b''] else if c = CHR 0x0C then [CHR 0x5C, CHR ''f'']
      else if c = CHR 0x0A then [CHR 0x5C, CHR ''n''] else if c = CHR 0x0D then [CHR 0x5C, CHR ''r'']
      else if c = CHR 0x09 then [CHR 0x5C, CHR ''t'']
      else if byte c < 32 \<or> (html \<and> (c = CHR ''<'' \<or> c = CHR ''>'' \<or> c = CHR ''&'')) then u00 c
      else [c])"

function enc_chars :: "bool \<Rightarrow> string \<Rightarrow> string" where
  "enc_chars html [] = []"
| "enc_chars html (c # cs) =
     (let n = utf8_size (c # cs)
      in if byte c < 128 then enc_char html c @ enc_chars html cs
         else if n = 0 then [CHR 0x5C] @ ''ufffd'' @ enc_chars html cs
         else if take n (c # cs) = [CHR 0xE2, CHR 0x80, CHR 0xA8]
           then [CHR 0x5C] @ ''u2028'' @ enc_chars html (drop (n - 1) cs)
         else if take n (c # cs) = [CHR 0xE2, CHR 0x80, CHR 0xA9]
           then [CHR 0x5C] @ ''u2029'' @ enc_chars html (drop (n - 1) cs)
         else take n (c # cs) @ enc_chars html (drop (n - 1) cs))"
  by pat_completeness auto
termination by (relation "measure (\<lambda>(h, s). length s)") auto

declare enc_chars.simps(2) [simp del]

definition json_string :: "bool \<Rightarrow> string \<Rightarrow> string" where
  "json_string html s = [CHR 0x22] @ enc_chars html s @ [CHR 0x22]"

text \<open>
  \<^verbatim>\<open>fmt\<close>'s \<^verbatim>\<open>%q\<close>, that is \<^verbatim>\<open>strconv.Quote\<close>, which follows Go's syntax and not JSON's.
  Exact for ASCII; a valid sequence above ASCII is taken to be printable.
\<close>

definition quote_char :: "char \<Rightarrow> string" where
  "quote_char c =
     (if c = CHR 0x22 \<or> c = CHR 0x5C then [CHR 0x5C, c]
      else if c = CHR 0x07 then [CHR 0x5C, CHR ''a''] else if c = CHR 0x08 then [CHR 0x5C, CHR ''b'']
      else if c = CHR 0x0C then [CHR 0x5C, CHR ''f''] else if c = CHR 0x0A then [CHR 0x5C, CHR ''n'']
      else if c = CHR 0x0D then [CHR 0x5C, CHR ''r''] else if c = CHR 0x09 then [CHR 0x5C, CHR ''t'']
      else if c = CHR 0x0B then [CHR 0x5C, CHR ''v'']
      else if byte c < 32 \<or> 127 \<le> byte c
        then [CHR 0x5C, CHR ''x'', hex_digit (byte c div 16), hex_digit (byte c mod 16)]
      else [c])"

function quote_chars :: "string \<Rightarrow> string" where
  "quote_chars [] = []"
| "quote_chars (c # cs) =
     (let n = utf8_size (c # cs)
      in if n \<le> 1 then quote_char c @ quote_chars cs
         else take n (c # cs) @ quote_chars (drop (n - 1) cs))"
  by pat_completeness auto
termination by (relation "measure length") auto

declare quote_chars.simps(2) [simp del]

definition go_quote :: "string \<Rightarrow> string" where
  "go_quote s = [CHR 0x22] @ quote_chars s @ [CHR 0x22]"


subsection \<open>String literals read back\<close>

lemma hex_val_digit [simp]: "n < 16 \<Longrightarrow> hex_val (hex_digit n) = Some n"
  by (auto simp: hex_val_def hex_digit_def)

lemma char_of_byte [simp]: "char_of (byte c) = c"
  by (simp add: byte_def)

lemma append_single: "(@) [c] = (#) c"
  by (rule ext) simp

lemma char_of_literals:
  "char_of (226::nat) = CHR 0xE2" "char_of (128::nat) = CHR 0x80"
  "char_of (168::nat) = CHR 0xA8" "char_of (169::nat) = CHR 0xA9"
  by code_simp+

lemma unq_u00:
  assumes "byte c < 128"
  shows "unq (u00 c @ t) = map_option (apfst (Cons c)) (unq t)"
proof -
  have "hex_val (CHR ''0'') = Some 0" by (simp add: hex_val_def byte_def)
  moreover have "byte c div 16 < 16" using assms by simp
  ultimately have "u_escape (CHR ''0'' # CHR ''0'' # hex_digit (byte c div 16)
      # hex_digit (byte c mod 16) # t) = Some ([c], t)"
    using assms by (simp add: u_escape_def hex4_def utf8_enc_def)
  then show ?thesis by (simp add: u00_def unq.simps append_single)
qed

lemma unq_plain:
  assumes "32 \<le> byte c" "byte c < 128" "c \<noteq> CHR 0x22" "c \<noteq> CHR 0x5C"
  shows "unq (c # t) = map_option (apfst (Cons c)) (unq t)"
  using assms by (simp add: unq.simps utf8_size_ascii append_single)

lemma unq_enc_char:
  assumes "byte c < 128"
  shows "unq (enc_char html c @ t) = map_option (apfst (Cons c)) (unq t)"
proof -
  have "unq (CHR 0x5C # e # t) = map_option (apfst (Cons c)) (unq t)"
    if "esc_char e = Some c" "e \<noteq> CHR ''u''" for e
    using that by (simp add: unq.simps)
  moreover have "byte c < 32 \<or> 32 \<le> byte c" by linarith
  ultimately show ?thesis
    using assms by (auto simp: enc_char_def unq_u00 unq_plain esc_char_def)
qed

lemma utf8_size_take:
  assumes "utf8_size s = n" "n \<noteq> 0"
  shows "utf8_size (take n s @ t) = n"
proof -
  have "utf8_size (take n s) = n"
  proof (cases s)
    case Nil
    then show ?thesis using assms by (simp add: utf8_size_def)
  next
    case (Cons a r)
    then have n: "n = utf8_lead a" "utf8_lead a - 1 \<le> length r"
        "utf8_tail a (take (utf8_lead a - 1) r)"
      using assms by (auto simp: utf8_size_Cons split: if_splits)
    then have "take n s = a # take (n - 1) r" using Cons assms by (simp add: take_Cons')
    then show ?thesis using n by (simp add: utf8_size_Cons)
  qed
  then show ?thesis using assms utf8_size_append [of "take n s" t] by simp
qed

lemma unq_multibyte:
  assumes n: "utf8_size (c # cs) = n" "n \<noteq> 0" and c: "128 \<le> byte c"
  shows "unq (take n (c # cs) @ t) = map_option (apfst (append (take n (c # cs)))) (unq t)"
proof -
  obtain m where m: "n = Suc m" using n by (cases n) auto
  have sz: "utf8_size (c # take m cs @ t) = Suc m"
    using utf8_size_take [OF n, of t] m by simp
  have len: "length (take m cs) = m"
    using utf8_size_le [of "c # cs"] n m by simp
  have "c \<noteq> CHR 0x22" "c \<noteq> CHR 0x5C" "\<not> byte c < 32"
    using c by (auto simp: byte_def)
  then have "unq (c # take m cs @ t) = map_option (apfst (append (c # take m cs))) (unq t)"
    using sz len by (simp add: unq.simps)
  then show ?thesis by (simp add: m)
qed

lemma unq_u2028:
  "unq ([CHR 0x5C] @ ''u2028'' @ t) = map_option (apfst (append [CHR 0xE2, CHR 0x80, CHR 0xA8])) (unq t)"
  "unq ([CHR 0x5C] @ ''u2029'' @ t) = map_option (apfst (append [CHR 0xE2, CHR 0x80, CHR 0xA9])) (unq t)"
  by (simp_all add: unq.simps u_escape_def hex4_def hex_val_def byte_def utf8_enc_def char_of_literals)

text \<open>What \<^verbatim>\<open>json.Marshal\<close> writes for a valid UTF-8 string, the decoder reads back.\<close>

lemma unq_enc_chars:
  "valid_utf8 s \<Longrightarrow> unq (enc_chars html s @ CHR 0x22 # r) = Some (s, r)"
proof (induction html s rule: enc_chars.induct)
  case (1 html)
  then show ?case by (simp add: unq.simps)
next
  case (2 html c cs)
  let ?n = "utf8_size (c # cs)" and ?rest = "drop (utf8_size (c # cs) - 1) cs"
  from "2.prems" have n: "?n \<noteq> 0" and v: "valid_utf8 ?rest"
    by (simp_all add: valid_utf8.simps)
  show ?case
  proof (cases "byte c < 128")
    case True
    then have "valid_utf8 cs" using v by (simp add: utf8_size_ascii)
    then show ?thesis
      using True "2.IH"(1) by (simp add: enc_chars.simps unq_enc_char utf8_size_ascii)
  next
    case False
    have split: "take ?n (c # cs) @ ?rest = c # cs"
      using n by (cases ?n) auto
    have "unq (enc_chars html (c # cs) @ CHR 0x22 # r)
        = map_option (apfst (append (take ?n (c # cs)))) (unq (enc_chars html ?rest @ CHR 0x22 # r))"
      using False n unq_u2028 unq_multibyte [OF refl n]
      by (simp add: enc_chars.simps(2) [of html c cs] Let_def del: take_Cons')
    also have "\<dots> = Some (take ?n (c # cs) @ ?rest, r)"
      using "2.IH" False n v by (cases "take ?n (c # cs) = [CHR 0xE2, CHR 0x80, CHR 0xA8]") auto
    finally show ?thesis by (simp only: split)
  qed
qed

interpretation json_str: codec "json_string html"
    "\<lambda>t. case t of [] \<Rightarrow> None | q # r \<Rightarrow> if q = CHR 0x22 then map_option fst (unq r) else None"
    valid_utf8
  by unfold_locales (simp add: json_string_def unq_enc_chars)

end
