(* ===== verification/Amqp.thy ===== *)
theory Amqp
  imports Rpc Json
begin

text \<open>
  Package \<^verbatim>\<open>rpc/amqp\<close> (\<^verbatim>\<open>amqp.go\<close>): the transport over one AMQP connection with its shared
  publish channel, the subscriptions with their reconnect loop, the correlation loop of
  \<^verbatim>\<open>Request\<close>, and the deliveries handed to the handlers.

  The package \<^verbatim>\<open>amqp091\<close> and the author's \<^verbatim>\<open>DialFunc\<close> are the record \<open>lib\<close> of functions on a
  broker state \<open>'n\<close>; connections, channels and subscriptions are numbers. An operation is a
  function on the transport's state whose outcome may also be that the calling goroutine
  blocks for ever on a mutex it already holds, or dereferences a nil connection. Operations
  run one at a time here; the interleavings of the reconnect path are in theory \<open>AmqpRace\<close>.
\<close>

section \<open>The AMQP library\<close>

text \<open>\<^verbatim>\<open>amqp091.Table\<close> values: strings, byte slices, and others with their JSON, if they have one.\<close>

datatype table_value = TStr string | TBytes string | TOther "string option"

type_synonym amqp_table = "(string \<times> table_value) list"

record publishing =
  pb_ContentType :: string
  pb_CorrelationId :: string
  pb_ReplyTo :: string
  pb_Headers :: amqp_table
  pb_Body :: gobytes

record raw_delivery =
  rd_Tag :: nat
  rd_Body :: gobytes
  rd_ContentType :: string
  rd_CorrelationId :: string
  rd_ReplyTo :: string
  rd_Headers :: amqp_table

record 'n lib =
  l_dial :: "'n \<Rightarrow> (goerr + nat) \<times> 'n"
  l_ConnIsClosed :: "nat \<Rightarrow> 'n \<Rightarrow> bool"
  l_ConnClose :: "nat \<Rightarrow> 'n \<Rightarrow> goerr option \<times> 'n"
  l_Channel :: "nat \<Rightarrow> 'n \<Rightarrow> (goerr + nat) \<times> 'n"
  l_ChIsClosed :: "nat \<Rightarrow> 'n \<Rightarrow> bool"
  l_ChClose :: "nat \<Rightarrow> 'n \<Rightarrow> goerr option \<times> 'n"
  l_QueueDeclare :: "nat \<Rightarrow> string \<Rightarrow> bool \<Rightarrow> bool \<Rightarrow> bool \<Rightarrow> 'n \<Rightarrow> (goerr + string) \<times> 'n"
  l_Qos :: "nat \<Rightarrow> int \<Rightarrow> 'n \<Rightarrow> goerr option \<times> 'n"
  l_Consume :: "nat \<Rightarrow> string \<Rightarrow> bool \<Rightarrow> bool \<Rightarrow> 'n \<Rightarrow> goerr option \<times> 'n"
  l_Publish :: "nat \<Rightarrow> string \<Rightarrow> publishing \<Rightarrow> 'n \<Rightarrow> goerr option \<times> 'n"
  l_Ack :: "nat \<Rightarrow> 'n \<Rightarrow> goerr option \<times> 'n"
  l_Nack :: "nat \<Rightarrow> bool \<Rightarrow> 'n \<Rightarrow> goerr option \<times> 'n"

definition stringHeadersToTable :: "headers \<Rightarrow> amqp_table" where
  "stringHeadersToTable m = map (\<lambda>(k, v). (k, TStr v)) m"

fun tableToStringHeaders :: "amqp_table \<Rightarrow> headers" where
  "tableToStringHeaders [] = []"
| "tableToStringHeaders ((k, v) # t) = (case v of
       TStr s \<Rightarrow> (k, s) # tableToStringHeaders t
     | TBytes s \<Rightarrow> (k, s) # tableToStringHeaders t
     | TOther (Some j) \<Rightarrow> (k, j) # tableToStringHeaders t
     | TOther None \<Rightarrow> tableToStringHeaders t)"


section \<open>The transport\<close>

record subscription =
  sub_endpoint :: string
  sub_ch :: "nat option"
  sub_done :: bool

text \<open>
  \<open>t_dialFn\<close> says whether a \<^verbatim>\<open>DialFunc\<close> is set, \<open>t_pubMu\<close> whether the running operation holds
  \<^verbatim>\<open>pubMu\<close>, \<open>t_watchdog\<close> whether the watchdog was started; subscriptions live in \<open>t_store\<close>
  (below \<open>t_nextSub\<close>), the transport's own list of them is \<open>t_subs\<close>.
\<close>

record 'n transport =
  t_conn :: "nat option"
  t_dialFn :: bool
  t_pubMu :: bool
  t_pubCh :: "nat option"
  t_closed :: bool
  t_closeErr :: "goerr option"
  t_subs :: "nat list"
  t_store :: "nat \<Rightarrow> subscription"
  t_nextSub :: nat
  t_watchdog :: bool
  t_endpointPrefix :: string
  t_net :: 'n

definition no_subs :: "nat \<Rightarrow> subscription" where
  "no_subs = (\<lambda>_. \<lparr>sub_endpoint = [], sub_ch = None, sub_done = True\<rparr>)"

definition New_transport :: "nat option \<Rightarrow> 'n \<Rightarrow> 'n transport" where
  "New_transport conn n =
     \<lparr>t_conn = conn, t_dialFn = False, t_pubMu = False, t_pubCh = None, t_closed = False, t_closeErr = None,
      t_subs = [], t_store = no_subs, t_nextSub = 0, t_watchdog = False, t_endpointPrefix = [], t_net = n\<rparr>"

definition startWatchdog :: "'n transport \<Rightarrow> 'n transport" where
  "startWatchdog t = t\<lparr>t_watchdog := True\<rparr>"

text \<open>The flag says whether the given \<^verbatim>\<open>DialFunc\<close> is non-nil.\<close>

definition NewWithDial :: "'n lib \<Rightarrow> bool \<Rightarrow> 'n \<Rightarrow> (goerr + 'n transport) \<times> 'n" where
  "NewWithDial l dialFn n =
     (if \<not> dialFn then (Inl (ErrorText ''amqp: NewWithDial requires a non-nil DialFunc''), n)
      else case l_dial l n of
        (Inl err, n1) \<Rightarrow> (Inl (Wrap ''amqp: initial dial: '' err []), n1)
      | (Inr conn, n1) \<Rightarrow> (Inr (startWatchdog ((New_transport (Some conn) n1)\<lparr>t_dialFn := True\<rparr>)), n1))"

definition SetDialFunc :: "bool \<Rightarrow> 'n transport \<Rightarrow> 'n transport" where
  "SetDialFunc dialFn t = (if dialFn then startWatchdog (t\<lparr>t_dialFn := True\<rparr>) else t)"

definition Connection :: "'n transport \<Rightarrow> nat option" where
  "Connection t = t_conn t"

definition SetEndpointPrefix :: "string \<Rightarrow> 'n transport \<Rightarrow> 'n transport" where
  "SetEndpointPrefix p t = t\<lparr>t_endpointPrefix := p\<rparr>"

text \<open>Running a library call on the broker state of the transport.\<close>

definition call :: "('n \<Rightarrow> 'a \<times> 'n) \<Rightarrow> 'n transport \<Rightarrow> 'a \<times> 'n transport" where
  "call f t = (let (x, n) = f (t_net t) in (x, t\<lparr>t_net := n\<rparr>))"

definition call_opt :: "('a \<Rightarrow> 'n \<Rightarrow> goerr option \<times> 'n) \<Rightarrow> 'a option \<Rightarrow> 'n transport \<Rightarrow> 'n transport" where
  "call_opt f x t = (case x of None \<Rightarrow> t | Some a \<Rightarrow> snd (call (f a) t))"

definition conn_live :: "'n lib \<Rightarrow> 'n transport \<Rightarrow> bool" where
  "conn_live l t = (case t_conn t of None \<Rightarrow> False | Some c \<Rightarrow> \<not> l_ConnIsClosed l c (t_net t))"

text \<open>\<^verbatim>\<open>reconnect\<close>: locking \<^verbatim>\<open>pubMu\<close> blocks for ever when the caller already holds it.\<close>

definition reconnect :: "'n lib \<Rightarrow> 'n transport \<Rightarrow> (goerr + nat option) outcome \<times> 'n transport" where
  "reconnect l t =
     (if conn_live l t then (Returns (Inr (t_conn t)), t)
      else if t_closed t then (Returns (Inl ErrClosed), t)
      else case call (l_dial l) t of
        (Inl err, t1) \<Rightarrow> (Returns (Inl err), t1)
      | (Inr newConn, t1) \<Rightarrow>
         (let t2 = (call_opt (l_ConnClose l) (t_conn t1) t1)\<lparr>t_conn := Some newConn\<rparr>
          in if t_pubMu t2 then (Deadlock, t2)
             else let t3 = (call_opt (l_ChClose l) (t_pubCh t2) t2)\<lparr>t_pubCh := None\<rparr>
                  in (Returns (Inr (Some newConn)), t3)))"

definition connectionForUse :: "'n lib \<Rightarrow> 'n transport \<Rightarrow> (goerr + nat option) outcome \<times> 'n transport" where
  "connectionForUse l t =
     (if conn_live l t then (Returns (Inr (t_conn t)), t)
      else if t_closed t then (Returns (Inl ErrClosed), t)
      else if \<not> t_dialFn t then (Returns (Inr (t_conn t)), t)
      else reconnect l t)"

text \<open>\<^verbatim>\<open>conn.Channel()\<close> on the connection just obtained; calling it on nil panics.\<close>

definition open_channel :: "'n lib \<Rightarrow> nat option \<Rightarrow> 'n transport \<Rightarrow> (goerr + nat) outcome \<times> 'n transport" where
  "open_channel l conn t = (case conn of
       None \<Rightarrow> (Panics nil_deref, t)
     | Some c \<Rightarrow> (let (r, t1) = call (l_Channel l c) t in (Returns r, t1)))"

definition setupConsumer :: "'n lib \<Rightarrow> string \<Rightarrow> int \<Rightarrow> 'n transport \<Rightarrow> (goerr + nat) outcome \<times> 'n transport" where
  "setupConsumer l queueName concurrency t =
     and_then (connectionForUse l t) (\<lambda>r t1. case r of
       Inl err \<Rightarrow> (Returns (Inl (Wrap ''amqp consume: get connection: '' err [])), t1)
     | Inr conn \<Rightarrow> and_then (open_channel l conn t1) (\<lambda>r t2. case r of
         Inl err \<Rightarrow> (Returns (Inl (Wrap ''amqp consume: open channel: '' err [])), t2)
       | Inr ch \<Rightarrow> (case call (l_QueueDeclare l ch queueName True False False) t2 of
           (Inl err, t3) \<Rightarrow>
             (Returns (Inl (Wrap (''amqp consume: declare queue '' @ go_quote queueName @ '': '') err [])),
              snd (call (l_ChClose l ch) t3))
         | (Inr _, t3) \<Rightarrow> (case call (l_Qos l ch concurrency) t3 of
             (Some err, t4) \<Rightarrow>
               (Returns (Inl (Wrap ''amqp consume: set qos: '' err [])), snd (call (l_ChClose l ch) t4))
           | (None, t4) \<Rightarrow> (case call (l_Consume l ch queueName False False) t4 of
               (Some err, t5) \<Rightarrow>
                 (Returns (Inl (Wrap (''amqp consume: start consumer '' @ go_quote queueName @ '': '') err [])),
                  snd (call (l_ChClose l ch) t5))
             | (None, t5) \<Rightarrow> (Returns (Inr ch), t5))))))"

text \<open>\<^verbatim>\<open>Consume\<close>: the effective timeout and concurrency, and the new subscription.\<close>

definition consume_defaults :: "'s consumer_config \<Rightarrow> 's consumer_config" where
  "consume_defaults cfg =
     (let cfg1 = (if cc_Timeout cfg \<le> 0 then cfg\<lparr>cc_Timeout := 30 * second\<rparr> else cfg)
      in if cc_Concurrency cfg1 \<le> 0 then cfg1\<lparr>cc_Concurrency := 1\<rparr> else cfg1)"

definition Consume :: "'n lib \<Rightarrow> 's consumer_config \<Rightarrow> 'n transport \<Rightarrow> (goerr + nat) outcome \<times> 'n transport" where
  "Consume l cfg0 t =
     (if cc_Endpoint cfg0 = [] then (Returns (Inl (ErrorText ''amqp consume: endpoint is required'')), t)
      else if Option.is_none (cc_Handler cfg0) then (Returns (Inl (ErrorText ''amqp consume: handler is required'')), t)
      else let cfg = consume_defaults cfg0; queueName = t_endpointPrefix t @ cc_Endpoint cfg
           in and_then (setupConsumer l queueName (cc_Concurrency cfg) t) (\<lambda>r t1. case r of
                Inl err \<Rightarrow> (Returns (Inl err), t1)
              | Inr ch \<Rightarrow>
                 (let i = t_nextSub t1;
                      sub = \<lparr>sub_endpoint = queueName, sub_ch = Some ch, sub_done = False\<rparr>
                  in (Returns (Inr i), t1\<lparr>t_store := (t_store t1)(i := sub), t_nextSub := Suc i,
                                          t_subs := t_subs t1 @ [i]\<rparr>))))"


section \<open>Publishing\<close>

text \<open>
  \<^verbatim>\<open>pubMu.Lock()\<close> with a deferred unlock: blocks for ever when the caller already holds the mutex; the
  unlock runs when the body returns or panics.
\<close>

definition with_pubMu :: "('n transport \<Rightarrow> 'a outcome \<times> 'n transport) \<Rightarrow> 'n transport \<Rightarrow> 'a outcome \<times> 'n transport" where
  "with_pubMu body t =
     (if t_pubMu t then (Deadlock, t)
      else case body (t\<lparr>t_pubMu := True\<rparr>) of
        (Deadlock, t1) \<Rightarrow> (Deadlock, t1)
      | (r, t1) \<Rightarrow> (r, t1\<lparr>t_pubMu := False\<rparr>))"

definition publishChannel :: "'n lib \<Rightarrow> 'n transport \<Rightarrow> (goerr + nat) outcome \<times> 'n transport" where
  "publishChannel l = with_pubMu (\<lambda>t.
     case (case t_pubCh t of None \<Rightarrow> None | Some ch \<Rightarrow> if l_ChIsClosed l ch (t_net t) then None else Some ch) of
       Some ch \<Rightarrow> (Returns (Inr ch), t)
     | None \<Rightarrow> and_then (connectionForUse l t) (\<lambda>r t1. case r of
         Inl err \<Rightarrow> (Returns (Inl (Wrap ''amqp: get connection for publish: '' err [])), t1)
       | Inr conn \<Rightarrow> and_then (open_channel l conn t1) (\<lambda>r t2. case r of
           Inl err \<Rightarrow> (Returns (Inl (Wrap ''amqp: open publish channel: '' err [])), t2)
         | Inr ch \<Rightarrow> (Returns (Inr ch), t2\<lparr>t_pubCh := Some ch\<rparr>))))"

definition content_type :: "string \<Rightarrow> string" where
  "content_type ct = (if ct = [] then application_json else ct)"

definition Publish :: "'n lib \<Rightarrow> request \<Rightarrow> 'n transport \<Rightarrow> goerr option outcome \<times> 'n transport" where
  "Publish l req t =
     (if rq_Endpoint req = [] then (Returns (Some (ErrorText ''amqp publish: endpoint is required'')), t)
      else and_then (publishChannel l t) (\<lambda>r t1. case r of
        Inl err \<Rightarrow> (Returns (Some err), t1)
      | Inr ch \<Rightarrow>
         (let (e, t2) = call (l_Publish l ch (rq_Endpoint req)
                \<lparr>pb_ContentType = content_type (rq_ContentType req), pb_CorrelationId = [], pb_ReplyTo = [],
                 pb_Headers = stringHeadersToTable (rq_Headers req), pb_Body = rq_Body req\<rparr>) t1
          in (Returns e, t2))))"


section \<open>Request\<close>

text \<open>
  What the \<^verbatim>\<open>select\<close> of the waiting loop sees, in order. The list may end while the loop still
  waits; the result is then \<open>None\<close>.
\<close>

datatype wait_event = CtxDone goerr | RepliesClosed | Incoming raw_delivery

definition reply_of :: "raw_delivery \<Rightarrow> reply" where
  "reply_of d = \<lparr>rp_Body = rd_Body d, rp_ContentType = rd_ContentType d,
                 rp_Headers = tableToStringHeaders (rd_Headers d), rp_CorrelationID = rd_CorrelationId d\<rparr>"

fun await_reply :: "string \<Rightarrow> wait_event list \<Rightarrow> (goerr + reply) option" where
  "await_reply correlationID [] = None"
| "await_reply correlationID (e # es) = (case e of
       CtxDone err \<Rightarrow> Some (Inl (if errors_is err DeadlineExceeded then ErrTimeout else err))
     | RepliesClosed \<Rightarrow> Some (Inl (ErrorText ''amqp request: reply channel closed''))
     | Incoming d \<Rightarrow> if rd_CorrelationId d \<noteq> correlationID then await_reply correlationID es
                    else Some (Inr (reply_of d)))"

text \<open>
  \<open>uuid\<close> is the fresh id of \<^verbatim>\<open>uuid.NewString\<close>, \<open>events\<close> what the loop sees. The deferred
  \<^verbatim>\<open>ch.Close\<close> runs on every return after the channel was opened.
\<close>

definition Request :: "'n lib \<Rightarrow> string \<Rightarrow> wait_event list \<Rightarrow> request \<Rightarrow> 'n transport
    \<Rightarrow> (goerr + reply) option outcome \<times> 'n transport" where
  "Request l uuid events req t =
     (if rq_Endpoint req = [] then (Returns (Some (Inl (ErrorText ''amqp request: endpoint is required''))), t)
      else and_then (connectionForUse l t) (\<lambda>r t1. case r of
        Inl err \<Rightarrow> (Returns (Some (Inl (Wrap ''amqp request: get connection: '' err []))), t1)
      | Inr conn \<Rightarrow> and_then (open_channel l conn t1) (\<lambda>r t2. case r of
          Inl err \<Rightarrow> (Returns (Some (Inl (Wrap ''amqp request: open channel: '' err []))), t2)
        | Inr ch \<Rightarrow>
           (let close = (\<lambda>t. snd (call (l_ChClose l ch) t))
            in case call (l_QueueDeclare l ch [] False True True) t2 of
             (Inl err, t3) \<Rightarrow> (Returns (Some (Inl (Wrap ''amqp request: declare reply queue: '' err []))), close t3)
           | (Inr replyQueue, t3) \<Rightarrow> (case call (l_Consume l ch replyQueue True True) t3 of
               (Some err, t4) \<Rightarrow> (Returns (Some (Inl (Wrap ''amqp request: consume reply queue: '' err []))), close t4)
             | (None, t4) \<Rightarrow>
                (let correlationID = (if rq_CorrelationID req = [] then uuid else rq_CorrelationID req)
                 in case call (l_Publish l ch (rq_Endpoint req)
                       \<lparr>pb_ContentType = content_type (rq_ContentType req), pb_CorrelationId = correlationID,
                        pb_ReplyTo = replyQueue, pb_Headers = stringHeadersToTable (rq_Headers req),
                        pb_Body = rq_Body req\<rparr>) t4 of
                     (Some err, t5) \<Rightarrow> (Returns (Some (Inl (Wrap ''amqp request: publish: '' err []))), close t5)
                   | (None, t5) \<Rightarrow>
                      (case await_reply correlationID events of
                         None \<Rightarrow> (Returns None, t5)
                       | Some r \<Rightarrow> (Returns (Some r), close t5))))))))"


section \<open>Closing\<close>

definition sub_Close :: "'n lib \<Rightarrow> nat \<Rightarrow> 'n transport \<Rightarrow> goerr option \<times> 'n transport" where
  "sub_Close l i t =
     (if sub_done (t_store t i) then (None, t)
      else let (err, t1) = (case sub_ch (t_store t i) of None \<Rightarrow> (None, t) | Some ch \<Rightarrow> call (l_ChClose l ch) t)
           in (err, t1\<lparr>t_store := (t_store t1)(i := (t_store t1 i)\<lparr>sub_done := True\<rparr>)\<rparr>))"

definition Close :: "'n lib \<Rightarrow> 'n transport \<Rightarrow> goerr option outcome \<times> 'n transport" where
  "Close l t =
     (if t_closed t then (Returns (t_closeErr t), t)
      else
       let t1 = t\<lparr>t_closed := True, t_subs := []\<rparr>;
           t2 = fold (\<lambda>i t. snd (sub_Close l i t)) (t_subs t) t1
       in if t_pubMu t2 then (Deadlock, t2)
          else
           let t3 = (call_opt (l_ChClose l) (t_pubCh t2) t2)\<lparr>t_pubCh := None\<rparr>;
               conn = t_conn t3;
               t4 = t3\<lparr>t_conn := None\<rparr>;
               (err, t5) = (case conn of None \<Rightarrow> (None, t4) | Some c \<Rightarrow> call (l_ConnClose l c) t4)
           in (Returns err, t5\<lparr>t_closeErr := err\<rparr>))"


section \<open>Reconnect loops\<close>

text \<open>The delay rule that the watchdog and the subscriptions share.\<close>

definition next_backoff :: "int \<Rightarrow> int" where
  "next_backoff backoff =
     (if backoff < 30 * second then (if 2 * backoff > 30 * second then 30 * second else 2 * backoff) else backoff)"

text \<open>
  The inner loop of \<^verbatim>\<open>runWithReconnect\<close>. \<open>stop k\<close> says that the \<open>k\<close>-th wait is ended by \<^verbatim>\<open>sub.done\<close>
  rather than by the timer; \<open>drift k\<close> is what others did to the transport during that wait.
  The result is the delays waited, the new channel (\<open>None\<close>: the subscription was closed) and
  the state. Fuel bounds the number of attempts, which the code does not.
\<close>

fun rebind :: "nat \<Rightarrow> 'n lib \<Rightarrow> (nat \<Rightarrow> bool) \<Rightarrow> (nat \<Rightarrow> 'n transport \<Rightarrow> 'n transport) \<Rightarrow> nat \<Rightarrow> int \<Rightarrow> nat \<Rightarrow> int
    \<Rightarrow> 'n transport \<Rightarrow> (int list \<times> nat option outcome \<times> 'n transport) option" where
  "rebind 0 l stop drift i conc k backoff t = None"
| "rebind (Suc fuel) l stop drift i conc k backoff t =
     (if stop k then Some ([], Returns None, t)
      else case setupConsumer l (sub_endpoint (t_store t i)) conc (drift k t) of
        (Returns (Inr ch), t1) \<Rightarrow>
          Some ([backoff], Returns (Some ch), t1\<lparr>t_store := (t_store t1)(i := (t_store t1 i)\<lparr>sub_ch := Some ch\<rparr>)\<rparr>)
      | (Returns (Inl err), t1) \<Rightarrow>
          map_option (\<lambda>(ws, r). (backoff # ws, r))
            (rebind fuel l stop drift i conc (Suc k) (next_backoff backoff) t1)
      | (Deadlock, t1) \<Rightarrow> Some ([backoff], Deadlock, t1)
      | (Panics m, t1) \<Rightarrow> Some ([backoff], Panics m, t1))"

text \<open>
  One round of the watchdog: what it does with the connection it sees, and the delay to
  wait before the next round, if any.
\<close>

datatype watch_result = WatchExit | WatchAgain int | WatchWait int int

definition watch_round :: "'n lib \<Rightarrow> int \<Rightarrow> 'n transport \<Rightarrow> watch_result outcome \<times> 'n transport" where
  "watch_round l backoff t =
     (if t_closed t then (Returns WatchExit, t)
      else if \<not> t_dialFn t then (Returns WatchExit, t)
      else if conn_live l t then (Returns (WatchAgain second), t)
      else and_then (reconnect l t) (\<lambda>r t1. case r of
          Inl err \<Rightarrow> (Returns (WatchWait backoff (next_backoff backoff)), t1)
        | Inr c \<Rightarrow> (Returns (WatchAgain second), t1)))"


section \<open>Deliveries\<close>

text \<open>What leaves the process for one delivery.\<close>

datatype wire = WireAck | WireNack bool | WirePublish string publishing

text \<open>
  The state a delivery's closures work on: the two \<^verbatim>\<open>sync.Once\<close> flags, the subscription's
  current channel, what was sent, and the broker.
\<close>

record 'n dstate =
  ds_settled :: bool
  ds_replied :: bool
  ds_ch :: "nat option"
  ds_wire :: "wire list"
  ds_net :: 'n

definition send :: "wire \<Rightarrow> ('n \<Rightarrow> goerr option \<times> 'n) \<Rightarrow> 'n dstate \<Rightarrow> goerr option \<times> 'n dstate" where
  "send x f s = (let (e, n) = f (ds_net s) in (e, s\<lparr>ds_wire := ds_wire s @ [x], ds_net := n\<rparr>))"

definition settle :: "wire \<Rightarrow> ('n \<Rightarrow> goerr option \<times> 'n) \<Rightarrow> 'n dstate \<Rightarrow> goerr option \<times> 'n dstate" where
  "settle x f s = (if ds_settled s then (None, s) else send x f (s\<lparr>ds_settled := True\<rparr>))"

definition ack_fn :: "'n lib \<Rightarrow> raw_delivery \<Rightarrow> 'n dstate \<Rightarrow> goerr option \<times> 'n dstate" where
  "ack_fn l raw = settle WireAck (l_Ack l (rd_Tag raw))"

definition nack_fn :: "'n lib \<Rightarrow> raw_delivery \<Rightarrow> bool \<Rightarrow> 'n dstate \<Rightarrow> goerr option \<times> 'n dstate" where
  "nack_fn l raw requeue = settle (WireNack requeue) (l_Nack l (rd_Tag raw) requeue)"

definition reply_publishing :: "raw_delivery \<Rightarrow> gobytes \<Rightarrow> string \<Rightarrow> publishing" where
  "reply_publishing raw body contentType =
     \<lparr>pb_ContentType = contentType, pb_CorrelationId = rd_CorrelationId raw, pb_ReplyTo = [],
      pb_Headers = [], pb_Body = body\<rparr>"

definition reply_fn :: "'n lib \<Rightarrow> raw_delivery \<Rightarrow> gobytes \<Rightarrow> string \<Rightarrow> 'n dstate \<Rightarrow> goerr option \<times> 'n dstate" where
  "reply_fn l raw body contentType0 s =
     (if rd_ReplyTo raw = [] then (Some (ErrorText ''amqp delivery: no reply_to set''), s)
      else if ds_replied s then (None, s)
      else
       let contentType = content_type contentType0; s1 = s\<lparr>ds_replied := True\<rparr>
       in case ds_ch s1 of
            None \<Rightarrow> (Some (ErrorText ''amqp delivery: subscription has no active channel''), s1)
          | Some ch \<Rightarrow>
              send (WirePublish (rd_ReplyTo raw) (reply_publishing raw body contentType))
                (l_Publish l ch (rd_ReplyTo raw) (reply_publishing raw body contentType)) s1)"

definition amqp_delivery :: "'n lib \<Rightarrow> string \<Rightarrow> raw_delivery \<Rightarrow> 'n dstate delivery" where
  "amqp_delivery l endpoint raw =
     \<lparr>d_Endpoint = endpoint, d_Body = rd_Body raw, d_ContentType = rd_ContentType raw,
      d_Headers = tableToStringHeaders (rd_Headers raw), d_CorrelationID = rd_CorrelationId raw,
      d_ReplyTo = rd_ReplyTo raw, d_AckFn = Some (ack_fn l raw), d_NackFn = Some (nack_fn l raw),
      d_ReplyFn = Some (reply_fn l raw)\<rparr>"

text \<open>
  The goroutine that \<^verbatim>\<open>deliverLoop\<close> starts for one delivery. The context with the timeout is handed to the
  handler, which may look at it, and to nobody else: the goroutine waits for the handler however
  long it takes and goes by its result.
\<close>

definition handle_raw :: "'n lib \<Rightarrow> 'n dstate rpc_handler \<Rightarrow> string \<Rightarrow> raw_delivery \<Rightarrow> 'n dstate \<Rightarrow> 'n dstate" where
  "handle_raw l handler endpoint raw s =
     (case handler (amqp_delivery l endpoint raw) s of
        (Some err, s1) \<Rightarrow> snd (nack_fn l raw False s1)
      | (None, s1) \<Rightarrow> snd (ack_fn l raw s1))"

definition fresh_state :: "nat option \<Rightarrow> 'n \<Rightarrow> 'n dstate" where
  "fresh_state ch n = \<lparr>ds_settled = False, ds_replied = False, ds_ch = ch, ds_wire = [], ds_net = n\<rparr>"

text \<open>\<^verbatim>\<open>deliverLoop\<close> with the deliveries handled one after the other: what each sent.\<close>

fun deliverLoop :: "'n lib \<Rightarrow> 'n dstate rpc_handler \<Rightarrow> string \<Rightarrow> nat option \<Rightarrow> raw_delivery list \<Rightarrow> 'n
    \<Rightarrow> (nat \<times> wire list) list \<times> 'n" where
  "deliverLoop l handler endpoint ch [] n = ([], n)"
| "deliverLoop l handler endpoint ch (raw # raws) n =
     (let s = handle_raw l handler endpoint raw (fresh_state ch n);
          (rest, n') = deliverLoop l handler endpoint ch raws (ds_net s)
      in ((rd_Tag raw, ds_wire s) # rest, n'))"


section \<open>Deliveries keep the contract\<close>

definition is_settle :: "wire \<Rightarrow> bool" where
  "is_settle x = (case x of WirePublish _ _ \<Rightarrow> False | _ \<Rightarrow> True)"

definition settlements :: "'n dstate \<Rightarrow> nat" where
  "settlements s = length (filter is_settle (ds_wire s))"

definition answers :: "'n dstate \<Rightarrow> nat" where
  "answers s = length (filter (\<lambda>x. \<not> is_settle x) (ds_wire s))"

definition once_inv :: "'n dstate \<Rightarrow> bool" where
  "once_inv s = (settlements s = (if ds_settled s then 1 else 0) \<and> answers s \<le> (if ds_replied s then 1 else 0))"

lemmas once_simps = settle_def send_def settlements_def answers_def is_settle_def Let_def

lemma settle_inv: "once_inv s \<Longrightarrow> is_settle x \<Longrightarrow> once_inv (snd (settle x f s))"
  by (auto simp: once_inv_def once_simps split: prod.split)

lemma settle_settles: "ds_settled (snd (settle x f s))"
  by (simp add: once_simps split: prod.split)

lemma is_settle_simps [simp]: "is_settle WireAck" "is_settle (WireNack r)" "\<not> is_settle (WirePublish q p)"
  by (simp_all add: is_settle_def)

lemma settle_fn_inv:
  "once_inv s \<Longrightarrow> once_inv (snd (ack_fn l raw s))" "once_inv s \<Longrightarrow> once_inv (snd (nack_fn l raw rq s))"
  by (simp_all add: ack_fn_def nack_fn_def settle_inv)

lemma reply_fn_inv: "once_inv s \<Longrightarrow> once_inv (snd (reply_fn l raw b ct s))"
  by (auto simp: once_inv_def reply_fn_def once_simps split: prod.split option.split)

lemma fresh_inv: "once_inv (fresh_state ch n)"
  by (simp add: once_inv_def fresh_state_def settlements_def answers_def)

interpretation amqp: delivery_contract "amqp_delivery l endpoint raw" answers settlements
    "\<lambda>s. \<exists>ch n. s = fresh_state ch n" once_inv for l endpoint raw
proof unfold_locales
  fix s :: "'a dstate" and rq b ct
  show "\<exists>ch n. s = fresh_state ch n \<Longrightarrow> once_inv s" by (auto simp: fresh_inv)
  show "once_inv s \<Longrightarrow> answers s \<le> 1" "once_inv s \<Longrightarrow> settlements s \<le> 1"
    by (auto simp: once_inv_def split: if_splits)
  show "once_inv s \<Longrightarrow> once_inv (snd (Ack (amqp_delivery l endpoint raw) s))"
    "once_inv s \<Longrightarrow> once_inv (snd (Nack (amqp_delivery l endpoint raw) rq s))"
    "once_inv s \<Longrightarrow> once_inv (snd (Reply (amqp_delivery l endpoint raw) b ct s))"
    by (simp_all add: Ack_def Nack_def Reply_def amqp_delivery_def settle_fn_inv reply_fn_inv)
qed


section \<open>Backoff\<close>

interpretation rebind_backoff: capped_backoff second "30 * second" next_backoff
  by unfold_locales (auto simp: next_backoff_def second_def)

lemma next_backoff_wait: "(next_backoff ^^ n) second = min (2 ^ n) 30 * second"
  using rebind_backoff.iterate [of n] by (simp add: min_mult_distrib_right second_def)


section \<open>Closing and connections\<close>

lemma call_simps [simp]:
  "t_conn (snd (call f t)) = t_conn t" "t_closed (snd (call f t)) = t_closed t" "t_dialFn (snd (call f t)) = t_dialFn t"
  "t_pubMu (snd (call f t)) = t_pubMu t" "t_pubCh (snd (call f t)) = t_pubCh t" "t_subs (snd (call f t)) = t_subs t"
  "t_store (snd (call f t)) = t_store t"
  by (simp_all add: call_def Let_def split: prod.split)

lemma call_opt_simps [simp]:
  "t_conn (call_opt f x t) = t_conn t" "t_closed (call_opt f x t) = t_closed t" "t_dialFn (call_opt f x t) = t_dialFn t"
  "t_pubMu (call_opt f x t) = t_pubMu t" "t_subs (call_opt f x t) = t_subs t" "t_store (call_opt f x t) = t_store t"
  "t_pubCh (call_opt f x t) = t_pubCh t" "t_nextSub (call_opt f x t) = t_nextSub t"
  "t_endpointPrefix (call_opt f x t) = t_endpointPrefix t"
  by (auto simp: call_opt_def call_def Let_def split: option.split prod.split)

lemma callE:
  obtains n where "call f t = (fst (f (t_net t)), t\<lparr>t_net := n\<rparr>)" "n = snd (f (t_net t))"
  by (cases "f (t_net t)") (auto simp: call_def)

lemma sub_Close_simps [simp]:
  "t_closed (snd (sub_Close l i t)) = t_closed t" "t_pubMu (snd (sub_Close l i t)) = t_pubMu t"
  "t_subs (snd (sub_Close l i t)) = t_subs t" "t_conn (snd (sub_Close l i t)) = t_conn t"
  "sub_done (t_store (snd (sub_Close l i t)) j) = (j = i \<or> sub_done (t_store t j))"
  by (auto simp: sub_Close_def Let_def split: option.split prod.split dest: arg_cong [where f = snd])
    (metis call_simps snd_conv)+


lemma fold_amqp_sub_Close:
  "t_closed (fold (\<lambda>i t. snd (sub_Close l i t)) ids t) = t_closed t \<and> t_pubMu (fold (\<lambda>i t. snd (sub_Close l i t)) ids t) = t_pubMu t
   \<and> t_subs (fold (\<lambda>i t. snd (sub_Close l i t)) ids t) = t_subs t
   \<and> sub_done (t_store (fold (\<lambda>i t. snd (sub_Close l i t)) ids t) j) = (j \<in> set ids \<or> sub_done (t_store t j))"
  by (induction ids arbitrary: t) auto

lemma fold_sub_Close_keeps:
  "t_pubCh (fold (\<lambda>i t. snd (sub_Close l i t)) ids t) = t_pubCh t" "t_conn (fold (\<lambda>i t. snd (sub_Close l i t)) ids t) = t_conn t"
proof -
  have "t_pubCh (snd (sub_Close l i t)) = t_pubCh t" for i and t :: "'a transport"
    by (auto simp: sub_Close_def Let_def case_prod_beta split: option.split)
  then show "t_pubCh (fold (\<lambda>i t. snd (sub_Close l i t)) ids t) = t_pubCh t"
    "t_conn (fold (\<lambda>i t. snd (sub_Close l i t)) ids t) = t_conn t"
    by (induction ids arbitrary: t) simp_all
qed

text \<open>
  What the documentation of \<^verbatim>\<open>amqp091\<close> promises of closing: a channel or connection is closed once its
  \<^verbatim>\<open>Close\<close> has returned, with an error or not, and closing another one does not open it again.
\<close>

definition closing_works :: "'n lib \<Rightarrow> bool" where
  "closing_works l \<longleftrightarrow> (\<forall>ch n. l_ChIsClosed l ch (snd (l_ChClose l ch n))) \<and> (\<forall>c n. l_ConnIsClosed l c (snd (l_ConnClose l c n)))
     \<and> (\<forall>ch x n. l_ChIsClosed l ch n \<longrightarrow> l_ChIsClosed l ch (snd (l_ChClose l x n)) \<and> l_ChIsClosed l ch (snd (l_ConnClose l x n)))"

lemma net_call: "t_net (snd (call f t)) = snd (f (t_net t))"
  by (simp add: call_def case_prod_beta Let_def)

lemma sub_Close_net:
  "t_net (snd (sub_Close l i t)) = (if sub_done (t_store t i) then t_net t
     else case sub_ch (t_store t i) of None \<Rightarrow> t_net t | Some ch \<Rightarrow> snd (l_ChClose l ch (t_net t)))"
  "j \<noteq> i \<Longrightarrow> t_store (snd (sub_Close l i t)) j = t_store t j"
  by (auto simp: sub_Close_def Let_def case_prod_beta net_call split: option.split)

lemma fold_sub_Close_closes:
  assumes "closing_works l"
    and "l_ChIsClosed l ch (t_net t) \<or> i \<in> set ids \<and> \<not> sub_done (t_store t i) \<and> sub_ch (t_store t i) = Some ch"
  shows "l_ChIsClosed l ch (t_net (fold (\<lambda>i t. snd (sub_Close l i t)) ids t))"
  using assms(2)
proof (induction ids arbitrary: t)
  case (Cons k ids)
  let ?t = "snd (sub_Close l k t)"
  have "l_ChIsClosed l ch (t_net ?t) \<or> i \<in> set ids \<and> \<not> sub_done (t_store ?t i) \<and> sub_ch (t_store ?t i) = Some ch"
    using Cons.prems assms(1) sub_Close_net(2) [of i k l t]
    by (cases "i = k") (auto simp: sub_Close_net(1) closing_works_def split: option.split)
  then show ?case using Cons.IH by simp
qed simp

text \<open>The channels and the connection that a completed \<^verbatim>\<open>Close\<close> has closed.\<close>

lemma Close_closes:
  assumes "closing_works l" "\<not> t_closed t" "\<not> t_pubMu t"
  shows "\<lbrakk>i \<in> set (t_subs t); \<not> sub_done (t_store t i); sub_ch (t_store t i) = Some ch\<rbrakk> \<Longrightarrow> l_ChIsClosed l ch (t_net (snd (Close l t)))"
    "t_pubCh t = Some ch \<Longrightarrow> l_ChIsClosed l ch (t_net (snd (Close l t)))"
    "t_conn t = Some c \<Longrightarrow> l_ConnIsClosed l c (t_net (snd (Close l t)))"
proof -
  let ?t1 = "t\<lparr>t_closed := True, t_subs := []\<rparr>"
  let ?t2 = "fold (\<lambda>i t. snd (sub_Close l i t)) (t_subs t) ?t1"
  let ?t3 = "(call_opt (l_ChClose l) (t_pubCh t) ?t2)\<lparr>t_pubCh := None\<rparr>"
  have keep: "t_pubMu ?t2 = t_pubMu t" "t_pubCh ?t2 = t_pubCh t" "t_conn ?t2 = t_conn t"
    using fold_amqp_sub_Close [where t = ?t1 and l = l and ids = "t_subs t"] fold_sub_Close_keeps [where t = ?t1 and l = l and ids = "t_subs t"]
    by simp_all
  have net: "t_net (snd (Close l t)) = (case t_conn t of None \<Rightarrow> t_net ?t3 | Some c \<Rightarrow> snd (l_ConnClose l c (t_net ?t3)))"
    using assms(2,3) keep by (simp add: Close_def Let_def case_prod_beta net_call split: option.split)
  have ch2: "l_ChIsClosed l ch (t_net (snd (Close l t)))" if "l_ChIsClosed l ch (t_net ?t3)" for ch
    using that assms(1) unfolding net by (simp add: closing_works_def split: option.split)
  have net3: "t_net ?t3 = (case t_pubCh t of None \<Rightarrow> t_net ?t2 | Some x \<Rightarrow> snd (l_ChClose l x (t_net ?t2)))"
    by (simp add: call_opt_def net_call split: option.split)
  show "l_ChIsClosed l ch (t_net (snd (Close l t)))"
    if "i \<in> set (t_subs t)" "\<not> sub_done (t_store t i)" "sub_ch (t_store t i) = Some ch"
    using fold_sub_Close_closes [OF assms(1), of ch ?t1 i "t_subs t"] that assms(1)
    by (intro ch2) (auto simp: net3 closing_works_def split: option.split)
  show "l_ChIsClosed l ch (t_net (snd (Close l t)))" if "t_pubCh t = Some ch"
    using that assms(1) by (intro ch2) (simp add: call_opt_def net_call closing_works_def)
  show "l_ConnIsClosed l c (t_net (snd (Close l t)))" if "t_conn t = Some c"
    using that assms(1) unfolding net by (simp add: closing_works_def)
qed

lemma Close_returns:
  assumes "\<not> t_closed t"
  shows "fst (Close l t) = Deadlock \<longleftrightarrow> t_pubMu t" "\<not> t_pubMu t \<Longrightarrow> t_conn (snd (Close l t)) = None"
  using assms fold_amqp_sub_Close [where t = "t\<lparr>t_closed := True, t_subs := []\<rparr>" and l = l and ids = "t_subs t"]
  by (simp_all add: Close_def Let_def case_prod_beta split: option.split)

text \<open>What setting up a consumer leaves alone.\<close>

definition frame :: "'n transport \<Rightarrow> nat list \<times> (nat \<Rightarrow> subscription) \<times> bool \<times> bool \<times> nat \<times> string" where
  "frame t = (t_subs t, t_store t, t_closed t, t_dialFn t, t_nextSub t, t_endpointPrefix t)"

lemma call_frame: "call f t = (x, t') \<Longrightarrow> frame t' = frame t"
  by (auto simp: frame_def call_def Let_def split: prod.splits)

lemma frame_snd_call [simp]: "frame (snd (call f t)) = frame t"
  by (rule call_frame [of f t "fst (call f t)"]) simp

lemma connection_frame: "connectionForUse l t = (x, t') \<Longrightarrow> frame t' = frame t"
  by (auto simp: connectionForUse_def reconnect_def frame_def Let_def
      split: sum.splits prod.splits if_splits dest!: call_frame [unfolded frame_def])

lemma channel_frame: "open_channel l c t = (x, t') \<Longrightarrow> frame t' = frame t"
  by (auto simp: open_channel_def Let_def split: option.splits prod.splits dest!: call_frame)

lemma setupConsumer_frame:
  assumes "setupConsumer l q c t = (r, t')"
  shows "t_subs t' = t_subs t \<and> t_store t' = t_store t \<and> t_closed t' = t_closed t \<and> t_dialFn t' = t_dialFn t
    \<and> t_nextSub t' = t_nextSub t \<and> t_endpointPrefix t' = t_endpointPrefix t"
proof -
  have "frame t' = frame t"
    using assms unfolding setupConsumer_def and_then_def
    by (auto split: prod.splits outcome.splits sum.splits option.splits dest!: call_frame connection_frame channel_frame)
  then show ?thesis by (simp add: frame_def)
qed


lemma rebind_outage:
  assumes "\<And>k. k \<le> n \<Longrightarrow> \<not> stop k"
    and "\<And>k q t. k < n \<Longrightarrow> \<exists>e t1. setupConsumer l q conc (drift k t) = (Returns (Inl e), t1)"
    and "\<And>q t. \<exists>ch t1. setupConsumer l q conc (drift n t) = (Returns (Inr ch), t1)"
    and "k \<le> n"
  shows "\<exists>ch t'. rebind (Suc (n - k)) l stop drift i conc k ((next_backoff ^^ k) second) t
      = Some (map (\<lambda>j. (next_backoff ^^ j) second) [k..<Suc n], Returns (Some ch), t')
    \<and> sub_ch (t_store t' i) = Some ch"
  using assms(4)
proof (induction "n - k" arbitrary: k t)
  case 0
  then have k: "k = n" by simp
  obtain ch t1 where "setupConsumer l (sub_endpoint (t_store t i)) conc (drift n t) = (Returns (Inr ch), t1)"
    using assms(3) by blast
  then show ?case using assms(1) k by simp
next
  case (Suc d)
  then have k: "k < n" by simp
  obtain e t1 where su: "setupConsumer l (sub_endpoint (t_store t i)) conc (drift k t) = (Returns (Inl e), t1)"
    using assms(2) [OF k] by blast
  obtain m where m: "n - k = Suc m" "n - Suc k = m" using k by (metis Suc_diff_Suc)
  obtain ch t' where "rebind (Suc m) l stop drift i conc (Suc k) ((next_backoff ^^ Suc k) second) t1
        = Some (map (\<lambda>j. (next_backoff ^^ j) second) [Suc k..<Suc n], Returns (Some ch), t')"
      "sub_ch (t_store t' i) = Some ch"
    using Suc.hyps(1) [of "Suc k" t1] Suc.hyps(2) k m by auto
  moreover have "[k..<Suc n] = k # [Suc k..<Suc n]" using k by (simp add: upt_conv_Cons del: upt_Suc)
  ultimately show ?case
    using assms(1) [of k] k su unfolding m(1) by (simp del: rebind.simps(2) upt_Suc add: rebind.simps(2) [of "Suc m"])
qed

interpretation amqp_transport: closable "\<lambda>t. snd (Close l t)" t_closed for l
proof unfold_locales
  show "t_closed (snd (Close l t))" for t :: "'a transport"
    by (cases "t_closed t") (auto simp: Close_def fold_amqp_sub_Close Let_def call_def split: prod.split option.split)
qed (simp add: Close_def)

lemma await_reply_iff:
  "await_reply c es = Some (Inr r) \<longleftrightarrow>
     (\<exists>pre d post. es = map Incoming pre @ Incoming d # post \<and> (\<forall>x \<in> set pre. rd_CorrelationId x \<noteq> c)
        \<and> rd_CorrelationId d = c \<and> r = reply_of d)"
proof (induction es)
  case (Cons e es)
  show ?case
  proof (cases "\<exists>x. e = Incoming x \<and> rd_CorrelationId x \<noteq> c")
    case True
    then obtain x where x: "e = Incoming x" "rd_CorrelationId x \<noteq> c" by blast
    have "(\<exists>pre d post. e # es = map Incoming pre @ Incoming d # post \<and> (\<forall>x \<in> set pre. rd_CorrelationId x \<noteq> c)
        \<and> rd_CorrelationId d = c \<and> r = reply_of d) \<longleftrightarrow>
      (\<exists>pre d post. es = map Incoming pre @ Incoming d # post \<and> (\<forall>x \<in> set pre. rd_CorrelationId x \<noteq> c)
        \<and> rd_CorrelationId d = c \<and> r = reply_of d)" (is "?L \<longleftrightarrow> ?R")
    proof
      assume ?L
      then obtain pre d post where p: "e # es = map Incoming pre @ Incoming d # post"
          "\<forall>x \<in> set pre. rd_CorrelationId x \<noteq> c" "rd_CorrelationId d = c" "r = reply_of d" by blast
      then obtain p1 ps where "pre = p1 # ps" using x by (cases pre) auto
      then show ?R using p by (intro exI [of _ ps] exI [of _ d] exI [of _ post]) simp
    next
      assume ?R
      then obtain pre d post where "es = map Incoming pre @ Incoming d # post"
          "\<forall>x \<in> set pre. rd_CorrelationId x \<noteq> c" "rd_CorrelationId d = c" "r = reply_of d" by blast
      then show ?L using x by (intro exI [of _ "x # pre"] exI [of _ d] exI [of _ post]) simp
    qed
    then show ?thesis using Cons.IH x by simp
  next
    case False
    have head: "pre = [] \<and> e = Incoming d"
      if "e # es = map Incoming pre @ Incoming d # post" "\<forall>x \<in> set pre. rd_CorrelationId x \<noteq> c" for pre d post
      using that False by (cases pre) auto
    show ?thesis
    proof (cases e)
      case (Incoming x)
      then have "rd_CorrelationId x = c" using False by auto
      then have "await_reply c (e # es) = Some (Inr (reply_of x))" using Incoming by simp
      moreover have "\<exists>pre d post. e # es = map Incoming pre @ Incoming d # post
          \<and> (\<forall>x \<in> set pre. rd_CorrelationId x \<noteq> c) \<and> rd_CorrelationId d = c \<and> reply_of x = reply_of d"
        using Incoming \<open>rd_CorrelationId x = c\<close>
        by (intro exI [of _ "[]"] exI [of _ x] exI [of _ es]) simp
      ultimately show ?thesis using head Incoming by auto
    qed (use head in auto)
  qed
qed simp


section \<open>Properties\<close>

text \<open>
  whatever calls a handler makes on its delivery (any sequence of acks, nacks and replies,
  or none at all), the broker sees exactly one settlement of the message and at most one
  reply is published. The premise says that the handler acts on the delivery through its
  methods only.
\<close>

theorem amqp_delivery_settled_once:
  assumes "handler (amqp_delivery l endpoint raw) (fresh_state ch n)
             = (err, acts (amqp_delivery l endpoint raw) script (fresh_state ch n))"
  shows "settlements (handle_raw l handler endpoint raw (fresh_state ch n)) = 1
    \<and> answers (handle_raw l handler endpoint raw (fresh_state ch n)) \<le> 1"
proof -
  let ?s = "acts (amqp_delivery l endpoint raw) script (fresh_state ch n)"
  have "once_inv ?s" by (rule amqp.acts_inv [OF fresh_inv])
  then have "once_inv (handle_raw l handler endpoint raw (fresh_state ch n))"
    using assms by (simp add: handle_raw_def settle_fn_inv split: option.split)
  moreover have "ds_settled (handle_raw l handler endpoint raw (fresh_state ch n))"
    using assms by (simp add: handle_raw_def ack_fn_def nack_fn_def settle_settles split: option.split)
  ultimately show ?thesis by (auto simp: once_inv_def split: if_splits)
qed

text \<open>A broker on which the properties are exercised: everything succeeds, nothing is ever closed.\<close>

definition ex_lib :: "nat lib" where
  "ex_lib = \<lparr>l_dial = (\<lambda>n. (Inr n, Suc n)), l_ConnIsClosed = (\<lambda>c n. c = 0), l_ConnClose = (\<lambda>c n. (None, n)),
     l_Channel = (\<lambda>c n. (Inr n, Suc n)), l_ChIsClosed = (\<lambda>c n. False), l_ChClose = (\<lambda>c n. (None, n)),
     l_QueueDeclare = (\<lambda>c q a b d n. (Inr (if q = [] then ''amq.gen'' else q), n)), l_Qos = (\<lambda>c k n. (None, n)),
     l_Consume = (\<lambda>c q a b n. (None, n)), l_Publish = (\<lambda>c q p n. (None, n)), l_Ack = (\<lambda>i n. (None, n)),
     l_Nack = (\<lambda>i r n. (None, n))\<rparr>"

definition ex_raw :: "string \<Rightarrow> raw_delivery" where
  "ex_raw corr = \<lparr>rd_Tag = 1, rd_Body = Some ''{}'', rd_ContentType = [], rd_CorrelationId = corr, rd_ReplyTo = ''amq.gen'',
     rd_Headers = []\<rparr>"

theorem amqp_delivery_settled_once_witness:
  "settlements (handle_raw ex_lib (\<lambda>d s. (None, acts d [DoNack True, DoAck, DoReply None [], DoReply None []] s))
     ''q'' (ex_raw ''c'') (fresh_state (Some 1) 2)) = 1"
  using amqp_delivery_settled_once [where l = ex_lib and endpoint = "''q''" and raw = "ex_raw ''c''" and ch = "Some 1"
      and n = 2 and err = None and script = "[DoNack True, DoAck, DoReply None [], DoReply None []]"
      and handler = "\<lambda>d s. (None, acts d [DoNack True, DoAck, DoReply None [], DoReply None []] s)"]
  by blast

text \<open>
  \<^bold>\<open>C20\<close>: request/reply correlation. Once the broker has accepted the channel, the reply queue, the
  consumer and the message (sent to the endpoint with that reply queue and the request's
  correlation id, or a fresh one), \<^verbatim>\<open>Request\<close> returns a reply exactly when one with its own
  correlation id arrives before the context ends or the reply queue closes: every stale
  reply before it is skipped and the first matching one is returned. A reply is never
  returned in any other way.
\<close>

theorem Request_correlation:
  assumes "rq_Endpoint req \<noteq> []" and "t_conn t = Some conn" and "\<not> l_ConnIsClosed l conn (t_net t)"
    and "l_Channel l conn (t_net t) = (Inr ch, n1)" and "l_QueueDeclare l ch [] False True True n1 = (Inr q, n2)"
    and "l_Consume l ch q True True n2 = (None, n3)"
    and "c = (if rq_CorrelationID req = [] then uuid else rq_CorrelationID req)"
    and "l_Publish l ch (rq_Endpoint req)
      \<lparr>pb_ContentType = content_type (rq_ContentType req), pb_CorrelationId = c, pb_ReplyTo = q,
       pb_Headers = stringHeadersToTable (rq_Headers req), pb_Body = rq_Body req\<rparr> n3 = (None, n4)"
  shows "(fst (Request l uuid events req t) = Returns (Some (Inr rep))) \<longleftrightarrow>
    (\<exists>pre d post. events = map Incoming pre @ Incoming d # post \<and> (\<forall>x \<in> set pre. rd_CorrelationId x \<noteq> c)
        \<and> rd_CorrelationId d = c \<and> rep = reply_of d)"
proof -
  have "fst (Request l uuid events req t) = Returns (await_reply c events)"
    using assms(1-6) assms(8) assms(7) [symmetric]
    by (simp add: Request_def connectionForUse_def conn_live_def open_channel_def call_def split: option.split)
  then show ?thesis by (simp add: await_reply_iff)
qed

theorem Request_correlation_witness:
  "fst (Request ex_lib ''u1'' [Incoming (ex_raw ''stale''), Incoming (ex_raw ''u1'')]
      \<lparr>rq_Endpoint = ''q'', rq_Body = None, rq_ContentType = [], rq_Headers = [], rq_CorrelationID = [], rq_Timeout = 0\<rparr>
      (New_transport (Some 1) 2)) = Returns (Some (Inr (reply_of (ex_raw ''u1''))))"
proof -
  let ?es = "[Incoming (ex_raw ''stale''), Incoming (ex_raw ''u1'')]"
  have "\<exists>pre d post. ?es = map Incoming pre @ Incoming d # post \<and> (\<forall>x \<in> set pre. rd_CorrelationId x \<noteq> ''u1'')
      \<and> rd_CorrelationId d = ''u1'' \<and> reply_of (ex_raw ''u1'') = reply_of d"
    by (rule exI [of _ "[ex_raw ''stale'']"], rule exI [of _ "ex_raw ''u1''"], rule exI [of _ "[]"]) (simp add: ex_raw_def)
  then show ?thesis
    by (subst Request_correlation [where conn = 1 and ch = 2 and q = "''amq.gen''" and c = "''u1''" and ?n1.0 = 3 and ?n2.0 = 3
          and ?n3.0 = 3 and ?n4.0 = 3])
      (simp_all add: New_transport_def ex_lib_def)
qed

text \<open>
  \<^bold>\<open>C21\<close>: \<^verbatim>\<open>Close\<close> on an open transport always returns, and releases what the transport holds: when closing
  works as the library documents, the channel of every subscription that was still open, the
  publish channel and the connection are closed afterwards. It is final: the
  subscriptions are done and forgotten, closing again changes nothing and returns the
  same error, and every later use of the connection fails with \<^verbatim>\<open>ErrClosed\<close> without dialling.
\<close>

theorem Close_is_final:
  assumes "\<not> t_closed t" and "\<not> t_pubMu t"
  shows "\<exists>err t'. Close l t = (Returns err, t') \<and> t_closed t' \<and> t_conn t' = None \<and> t_pubCh t' = None \<and> t_subs t' = []
    \<and> (\<forall>i \<in> set (t_subs t). sub_done (t_store t' i))
    \<and> (closing_works l \<longrightarrow>
         (\<forall>i \<in> set (t_subs t). \<forall>ch. sub_ch (t_store t i) = Some ch \<and> \<not> sub_done (t_store t i) \<longrightarrow> l_ChIsClosed l ch (t_net t'))
         \<and> (\<forall>ch. t_pubCh t = Some ch \<longrightarrow> l_ChIsClosed l ch (t_net t'))
         \<and> (\<forall>c. t_conn t = Some c \<longrightarrow> l_ConnIsClosed l c (t_net t')))
    \<and> Close l t' = (Returns err, t') \<and> connectionForUse l t' = (Returns (Inl ErrClosed), t')"
proof -
  let ?t1 = "t\<lparr>t_closed := True, t_subs := []\<rparr>"
  let ?t2 = "fold (\<lambda>i t. snd (sub_Close l i t)) (t_subs t) ?t1"
  let ?t3 = "(call_opt (l_ChClose l) (t_pubCh ?t2) ?t2)\<lparr>t_pubCh := None\<rparr>"
  let ?c = "case t_conn ?t3 of None \<Rightarrow> (None, ?t3\<lparr>t_conn := None\<rparr>)
      | Some c \<Rightarrow> call (l_ConnClose l c) (?t3\<lparr>t_conn := None\<rparr>)"
  obtain err t5 where c: "?c = (err, t5)" by force
  let ?t' = "t5\<lparr>t_closeErr := err\<rparr>"
  have f: "t_closed ?t2" "\<not> t_pubMu ?t2" "t_subs ?t2 = []" "\<forall>i \<in> set (t_subs t). sub_done (t_store ?t2 i)"
    using fold_amqp_sub_Close [where t = ?t1 and l = l and ids = "t_subs t"] assms(2) by simp_all
  have t5: "t_closed t5 = t_closed ?t2" "t_conn t5 = None" "t_pubCh t5 = None" "t_subs t5 = t_subs ?t2"
      "t_store t5 = t_store ?t2"
    using c by (auto split: option.splits simp: call_def Let_def split: prod.splits)
  have run: "Close l t = (Returns err, ?t')"
    using assms(1) f(2) c by (simp add: Close_def Let_def)
  have "Close l ?t' = (Returns err, ?t')" using f(1) t5(1) by (simp add: Close_def)
  moreover have "connectionForUse l ?t' = (Returns (Inl ErrClosed), ?t')"
    using f(1) t5(1,2) by (simp add: connectionForUse_def conn_live_def)
  moreover have "closing_works l \<longrightarrow>
      (\<forall>i \<in> set (t_subs t). \<forall>ch. sub_ch (t_store t i) = Some ch \<and> \<not> sub_done (t_store t i) \<longrightarrow> l_ChIsClosed l ch (t_net ?t'))
      \<and> (\<forall>ch. t_pubCh t = Some ch \<longrightarrow> l_ChIsClosed l ch (t_net ?t'))
      \<and> (\<forall>c. t_conn t = Some c \<longrightarrow> l_ConnIsClosed l c (t_net ?t'))"
    using Close_closes [OF _ assms, of l] unfolding run by auto
  ultimately show ?thesis
    using run f t5 by (intro exI [of _ err] exI [of _ ?t'] conjI) simp_all
qed

text \<open>A broker that remembers the channels and connections that were closed.\<close>

definition closing_lib :: "(nat set \<times> nat set) lib" where
  "closing_lib = \<lparr>l_dial = (\<lambda>n. (Inl (ErrorText ''refused''), n)), l_ConnIsClosed = (\<lambda>c n. c \<in> snd n),
     l_ConnClose = (\<lambda>c n. (None, (fst n, insert c (snd n)))), l_Channel = (\<lambda>c n. (Inr 7, n)), l_ChIsClosed = (\<lambda>c n. c \<in> fst n),
     l_ChClose = (\<lambda>c n. (None, (insert c (fst n), snd n))),
     l_QueueDeclare = (\<lambda>c q a b d n. (Inr q, n)), l_Qos = (\<lambda>c k n. (None, n)), l_Consume = (\<lambda>c q a b n. (None, n)),
     l_Publish = (\<lambda>c q p n. (None, n)), l_Ack = (\<lambda>i n. (None, n)), l_Nack = (\<lambda>i r n. (None, n))\<rparr>"

lemma closing_lib_works: "closing_works closing_lib"
  by (simp add: closing_works_def closing_lib_def)

theorem Close_is_final_witness:
  "\<exists>err t'. Close closing_lib ((New_transport (Some 1) ({}, {}))\<lparr>t_pubCh := Some 5, t_subs := [0],
        t_store := (\<lambda>_. \<lparr>sub_endpoint = ''q'', sub_ch = Some 7, sub_done = False\<rparr>)\<rparr>) = (Returns err, t')
     \<and> {5, 7} \<subseteq> fst (t_net t') \<and> 1 \<in> snd (t_net t')"
  using Close_is_final [of "(New_transport (Some 1) ({}, {}))\<lparr>t_pubCh := Some 5, t_subs := [0],
        t_store := (\<lambda>_. \<lparr>sub_endpoint = ''q'', sub_ch = Some 7, sub_done = False\<rparr>)\<rparr>" closing_lib] closing_lib_works
  by (auto simp: New_transport_def closing_lib_def)

text \<open>
  \<^bold>\<open>C25\<close>: the deadlock of \<^verbatim>\<open>Publish\<close> over a dropped connection. When the connection is dead, a
  \<^verbatim>\<open>DialFunc\<close> is set and the re-dial succeeds, \<^verbatim>\<open>Publish\<close> never returns: \<^verbatim>\<open>publishChannel\<close> holds
  \<^verbatim>\<open>pubMu\<close> while \<^verbatim>\<open>reconnect\<close> locks it again. \<^verbatim>\<open>pubMu\<close> then stays held for ever.
\<close>

theorem Publish_deadlocks_on_redial:
  assumes "rq_Endpoint req \<noteq> []" and "\<not> t_closed t" and "\<not> t_pubMu t" and "t_dialFn t"
    and "\<not> conn_live l t" and "l_dial l (t_net t) = (Inr c, n)"
    and "t_pubCh t = None \<or> (\<exists>ch. t_pubCh t = Some ch \<and> l_ChIsClosed l ch (t_net t))"
  shows "fst (Publish l req t) = Deadlock \<and> t_pubMu (snd (Publish l req t))"
proof -
  let ?t = "t\<lparr>t_pubMu := True\<rparr>"
  have "conn_live l ?t = conn_live l t" by (simp add: conn_live_def split: option.split)
  then have "\<exists>t2. connectionForUse l ?t = (Deadlock, t2) \<and> t_pubMu t2"
    using assms(2,4-6) by (simp add: connectionForUse_def reconnect_def call_def Let_def)
  then obtain t2 where "connectionForUse l ?t = (Deadlock, t2)" "t_pubMu t2" by blast
  then show ?thesis
    using assms(1,3,7) by (auto simp: Publish_def publishChannel_def with_pubMu_def)
qed

theorem Publish_deadlocks_on_redial_witness:
  "fst (Publish ex_lib \<lparr>rq_Endpoint = ''q'', rq_Body = None, rq_ContentType = [], rq_Headers = [], rq_CorrelationID = [],
      rq_Timeout = 0\<rparr> (SetDialFunc True (New_transport (Some 0) 2))) = Deadlock"
  by (rule Publish_deadlocks_on_redial [where c = 2 and n = 3, THEN conjunct1])
    (simp_all add: SetDialFunc_def startWatchdog_def New_transport_def conn_live_def ex_lib_def)

text \<open>
  \<^bold>\<open>C22\<close>: the subscription's reconnect loop. It ends: when no close arrives and the attempt after \<open>n\<close>
  failed ones is the first on which the broker lets the consumer be set up, the loop rebinds
  on that attempt and stores the new channel in the subscription, having waited exactly
  1, 2, 4, 8, 16, 30, 30 ... seconds, once before each of its \<open>n + 1\<close> attempts.
\<close>

theorem rebind_recovers:
  assumes "\<And>k. k \<le> n \<Longrightarrow> \<not> stop k"
    and "\<And>k q t. k < n \<Longrightarrow> \<exists>e t1. setupConsumer l q conc (drift k t) = (Returns (Inl e), t1)"
    and "\<And>q t. \<exists>ch t1. setupConsumer l q conc (drift n t) = (Returns (Inr ch), t1)"
  shows "\<exists>ch t'. rebind (Suc n) l stop drift i conc 0 second t
      = Some (map (\<lambda>j. min (2 ^ j) 30 * second) [0..<Suc n], Returns (Some ch), t')
    \<and> sub_ch (t_store t' i) = Some ch"
  using rebind_outage [where k = 0 and t = t and i = i and n = n and stop = stop and l = l
      and conc = conc and drift = drift, OF assms]
  by (simp add: next_backoff_wait del: rebind.simps upt_Suc)

text \<open>A broker that refuses channels until its state is 2.\<close>

definition restarting_lib :: "nat lib" where
  "restarting_lib = ex_lib\<lparr>l_Channel := (\<lambda>c n. if n < 2 then (Inl (ErrorText ''not ready''), n) else (Inr n, Suc n))\<rparr>"

theorem rebind_recovers_witness:
  "\<exists>ch t'. rebind 3 restarting_lib (\<lambda>_. False) (\<lambda>k _. New_transport (Some 1) k) 0 1 0 second (New_transport None 0)
     = Some ([second, 2 * second, 4 * second], Returns (Some ch), t')"
proof -
  have "\<exists>ch t'. rebind (Suc 2) restarting_lib (\<lambda>_. False) (\<lambda>k _. New_transport (Some 1) k) 0 1 0 second (New_transport None 0)
     = Some (map (\<lambda>j. min (2 ^ j) 30 * second) [0..<Suc 2], Returns (Some ch), t') \<and> sub_ch (t_store t' 0) = Some ch"
    by (rule rebind_recovers)
      (simp_all add: setupConsumer_def connectionForUse_def conn_live_def New_transport_def restarting_lib_def ex_lib_def
        open_channel_def call_def)
  moreover have "map (\<lambda>j. min (2 ^ j) 30 * second) [0..<Suc 2] = [second, 2 * second, 4 * second]"
    by (simp add: upt_rec second_def)
  ultimately show ?thesis by (auto simp: numeral_3_eq_3 numeral_2_eq_2 simp del: rebind.simps)
qed

text \<open>
  \<^verbatim>\<open>Consume\<close> registers a subscription exactly when it succeeds, on the queue named by the
  prefix and the endpoint, open and with a channel; on every error the transport's list of
  subscriptions is as before.
\<close>

theorem Consume_registers:
  assumes "Consume l cfg t = (Returns r, t')"
  shows "(case r of
      Inl e \<Rightarrow> t_subs t' = t_subs t \<and> t_store t' = t_store t
    | Inr i \<Rightarrow> t_subs t' = t_subs t @ [i] \<and> sub_endpoint (t_store t' i) = t_endpointPrefix t @ cc_Endpoint cfg
        \<and> \<not> sub_done (t_store t' i) \<and> sub_ch (t_store t' i) \<noteq> None \<and> cc_Endpoint cfg \<noteq> [])"
proof (cases "cc_Endpoint cfg = [] \<or> Option.is_none (cc_Handler cfg)")
  case True
  then show ?thesis using assms by (auto simp: Consume_def split: if_splits)
next
  case False
  let ?q = "t_endpointPrefix t @ cc_Endpoint cfg"
  have ep: "cc_Endpoint (consume_defaults cfg) = cc_Endpoint cfg" by (simp add: consume_defaults_def Let_def)
  obtain o1 t1 where su: "setupConsumer l ?q (cc_Concurrency (consume_defaults cfg)) t = (o1, t1)" by force
  note frame = setupConsumer_frame [OF su]
  show ?thesis
    using False assms su frame by (cases o1) (auto simp: Consume_def Let_def ep split: sum.splits)
qed

theorem Consume_registers_witness:
  "\<exists>i t'. Consume ex_lib \<lparr>cc_Endpoint = ''execute'', cc_Handler = Some (\<lambda>d (s :: unit). (None, s)), cc_Timeout = 0,
        cc_Concurrency = 0\<rparr> (SetEndpointPrefix ''yggdrasil.adapter.okta.'' (New_transport (Some 1) 2)) = (Returns (Inr i), t')
     \<and> sub_endpoint (t_store t' i) = ''yggdrasil.adapter.okta.execute''"
proof -
  let ?r = "Consume ex_lib \<lparr>cc_Endpoint = ''execute'', cc_Handler = Some (\<lambda>d (s :: unit). (None, s)), cc_Timeout = 0,
        cc_Concurrency = 0\<rparr> (SetEndpointPrefix ''yggdrasil.adapter.okta.'' (New_transport (Some 1) 2))"
  have run: "?r = (Returns (Inr 0), snd ?r)"
    by (simp add: Consume_def consume_defaults_def setupConsumer_def connectionForUse_def conn_live_def New_transport_def
        ex_lib_def open_channel_def call_def SetEndpointPrefix_def Let_def)
  from Consume_registers [OF this] show ?thesis
    using run by (intro exI [of _ 0] exI [of _ "snd ?r"]) (simp add: SetEndpointPrefix_def)
qed

text \<open>
  string headers survive the trip through AMQP tables unchanged.
\<close>

theorem headers_round_trip: "tableToStringHeaders (stringHeadersToTable m) = m"
  by (induction m) (auto simp: stringHeadersToTable_def)

end
