(* ===== verification/AmqpRace.thy ===== *)
theory AmqpRace
  imports Amqp
begin

text \<open>
  The reconnect path of \<^verbatim>\<open>rpc/amqp\<close> under concurrency: any number of goroutines (the watchdog,
  the subscriptions, callers of \<^verbatim>\<open>Request\<close> and \<^verbatim>\<open>Publish\<close>) run \<^verbatim>\<open>connectionForUse\<close> and
  \<^verbatim>\<open>reconnect\<close> against one transport while the broker may drop connections and the owner may
  call \<^verbatim>\<open>Close\<close>. A step is one critical section or one library call of one goroutine. What \<^verbatim>\<open>Close\<close> does after
  its signal (the section of \<^verbatim>\<open>pubMu\<close>, that of \<^verbatim>\<open>connMu\<close>, closing the connection it took) is one step: nobody
  takes \<^verbatim>\<open>pubMu\<close> anew after the signal, and once \<^verbatim>\<open>t.conn\<close> is nil no other step depends on whether that
  connection is still open.

  The program counters follow \<^verbatim>\<open>reconnect\<close>: waiting for \<^verbatim>\<open>dialMu\<close>; holding it, before the
  re-check; past the re-check, about to dial; holding a fresh connection, about to install
  it; about to lock \<^verbatim>\<open>pubMu\<close> to reset the publish channel; returned.
\<close>

section \<open>Goroutines and steps\<close>

datatype pc = Idle | WantDial | Recheck | Dialing | Install nat | ResetPub nat | Done "goerr + nat"

datatype close_pc = Open | Closing | Closed

text \<open>
  \<open>rs_live\<close> are the open sockets, \<open>rs_opened\<close> counts successful dials (and names the next
  connection), \<open>rs_deaths\<close> counts connections that were open and died.
\<close>

record race =
  rs_pc :: "nat \<Rightarrow> pc"
  rs_dialMu :: "nat option"
  rs_pubMu :: "nat option"
  rs_conn :: "nat option"
  rs_live :: "nat set"
  rs_opened :: nat
  rs_deaths :: nat
  rs_close :: close_pc

definition dead :: "race \<Rightarrow> bool" where
  "dead s = (set_option (rs_conn s) \<inter> rs_live s = {})"

definition goto :: "nat \<Rightarrow> pc \<Rightarrow> race \<Rightarrow> race" where
  "goto i p s = s\<lparr>rs_pc := (rs_pc s)(i := p)\<rparr>"

text \<open>Returning from \<^verbatim>\<open>reconnect\<close> releases \<^verbatim>\<open>dialMu\<close>, and \<^verbatim>\<open>pubMu\<close> where the caller is \<^verbatim>\<open>publishChannel\<close>.\<close>

definition finish :: "nat \<Rightarrow> goerr + nat \<Rightarrow> race \<Rightarrow> race" where
  "finish i r s = (goto i (Done r) s)\<lparr>rs_dialMu := None,
     rs_pubMu := (if rs_pubMu s = Some i then None else rs_pubMu s)\<rparr>"

inductive step :: "race \<Rightarrow> race \<Rightarrow> bool" where
  call_reconnect: "rs_pc s i = Idle \<Longrightarrow> dead s \<Longrightarrow> rs_close s = Open \<Longrightarrow> step s (goto i WantDial s)"
| call_publish: "rs_pc s i = Idle \<Longrightarrow> rs_pubMu s = None \<Longrightarrow> dead s \<Longrightarrow> rs_close s = Open \<Longrightarrow>
    step s ((goto i WantDial s)\<lparr>rs_pubMu := Some i\<rparr>)"
| lock_dialMu: "rs_pc s i = WantDial \<Longrightarrow> rs_dialMu s = None \<Longrightarrow> step s ((goto i Recheck s)\<lparr>rs_dialMu := Some i\<rparr>)"
| recheck_live: "rs_pc s i = Recheck \<Longrightarrow> \<not> dead s \<Longrightarrow> step s (finish i (Inr (the (rs_conn s))) s)"
| recheck_closed: "rs_pc s i = Recheck \<Longrightarrow> dead s \<Longrightarrow> rs_close s \<noteq> Open \<Longrightarrow> step s (finish i (Inl ErrClosed) s)"
| recheck_dial: "rs_pc s i = Recheck \<Longrightarrow> dead s \<Longrightarrow> rs_close s = Open \<Longrightarrow> step s (goto i Dialing s)"
| dial_fails: "rs_pc s i = Dialing \<Longrightarrow> step s (finish i (Inl e) s)"
| dial_connects: "rs_pc s i = Dialing \<Longrightarrow>
    step s ((goto i (Install (rs_opened s)) s)\<lparr>rs_live := insert (rs_opened s) (rs_live s), rs_opened := Suc (rs_opened s)\<rparr>)"
| install: "rs_pc s i = Install c \<Longrightarrow>
    step s ((goto i (ResetPub c) s)\<lparr>rs_live := rs_live s - set_option (rs_conn s), rs_conn := Some c,
      rs_deaths := (if dead s then rs_deaths s else Suc (rs_deaths s))\<rparr>)"
| reset_pub: "rs_pc s i = ResetPub c \<Longrightarrow> rs_pubMu s = None \<Longrightarrow> step s (finish i (Inr c) s)"
| again: "rs_pc s i = Done r \<Longrightarrow> step s (goto i Idle s)"
| broker_drops: "c \<in> rs_live s \<Longrightarrow> step s (s\<lparr>rs_live := rs_live s - {c}, rs_deaths := Suc (rs_deaths s)\<rparr>)"
| close_signal: "rs_close s = Open \<Longrightarrow> step s (s\<lparr>rs_close := Closing\<rparr>)"
| close_conn: "rs_close s = Closing \<Longrightarrow> rs_pubMu s = None \<Longrightarrow>
    step s (s\<lparr>rs_close := Closed, rs_conn := None,
              rs_live := rs_live s - set_option (rs_conn s),
              rs_deaths := (if dead s then rs_deaths s else Suc (rs_deaths s))\<rparr>)"

inductive_cases stepE: "step s s'"

text \<open>The transport right after its connection was dropped, with no goroutine inside.\<close>

definition dropped :: race where
  "dropped = \<lparr>rs_pc = (\<lambda>_. Idle), rs_dialMu = None, rs_pubMu = None, rs_conn = Some 0, rs_live = {},
              rs_opened = 1, rs_deaths = 1, rs_close = Open\<rparr>"


section \<open>Invariant\<close>

definition in_section :: "pc \<Rightarrow> bool" where
  "in_section p = (case p of Recheck \<Rightarrow> True | Dialing \<Rightarrow> True | Install _ \<Rightarrow> True | ResetPub _ \<Rightarrow> True | _ \<Rightarrow> False)"

text \<open>
  At most one goroutine is past \<^verbatim>\<open>dialMu\<close>; while it dials or installs, the current connection
  is dead; connections are numbered in the order they were opened.
\<close>

definition mutex_inv :: "race \<Rightarrow> bool" where
  "mutex_inv s \<longleftrightarrow>
     (\<forall>i. in_section (rs_pc s i) \<longrightarrow> rs_dialMu s = Some i)
   \<and> (\<forall>i. rs_pc s i = Dialing \<longrightarrow> dead s)
   \<and> (\<forall>i c. rs_pc s i = Install c \<longrightarrow> dead s \<and> c < rs_opened s)
   \<and> (\<forall>c \<in> rs_live s \<union> set_option (rs_conn s). c < rs_opened s)"

text \<open>Every open socket is the current connection or the one just dialled, and all others died.\<close>

definition socket_inv :: "race \<Rightarrow> bool" where
  "socket_inv s \<longleftrightarrow>
     (\<forall>c \<in> rs_live s. rs_conn s = Some c \<or> (\<exists>i. rs_pc s i = Install c))
   \<and> rs_opened s = rs_deaths s + card (rs_live s) \<and> finite (rs_live s)"

lemma goto_simps [simp]:
  "rs_conn (goto i p s) = rs_conn s" "rs_live (goto i p s) = rs_live s" "rs_opened (goto i p s) = rs_opened s"
  "rs_deaths (goto i p s) = rs_deaths s" "rs_close (goto i p s) = rs_close s" "rs_dialMu (goto i p s) = rs_dialMu s"
  "rs_pubMu (goto i p s) = rs_pubMu s" "rs_pc (goto i p s) = (rs_pc s)(i := p)"
  by (simp_all add: goto_def)

lemma finish_simps [simp]:
  "rs_conn (finish i r s) = rs_conn s" "rs_live (finish i r s) = rs_live s" "rs_opened (finish i r s) = rs_opened s"
  "rs_deaths (finish i r s) = rs_deaths s" "rs_close (finish i r s) = rs_close s" "rs_dialMu (finish i r s) = None"
  "rs_pc (finish i r s) = (rs_pc s)(i := Done r)"
  by (simp_all add: finish_def)

lemma in_section_simps [simp]:
  "in_section Recheck" "in_section Dialing" "in_section (Install c)" "in_section (ResetPub c)"
  "\<not> in_section Idle" "\<not> in_section WantDial" "\<not> in_section (Done r)"
  by (simp_all add: in_section_def)

lemma mutex_owner: "mutex_inv s \<Longrightarrow> in_section (rs_pc s i) \<Longrightarrow> rs_dialMu s = Some i"
  unfolding mutex_inv_def by blast

lemma mutex_dead: "mutex_inv s \<Longrightarrow> rs_pc s i = Dialing \<or> rs_pc s i = Install c \<Longrightarrow> dead s"
  unfolding mutex_inv_def by blast

lemma mutex_fresh: "mutex_inv s \<Longrightarrow> rs_pc s i = Install c \<Longrightarrow> c < rs_opened s"
  unfolding mutex_inv_def by blast

lemma mutex_bound: "mutex_inv s \<Longrightarrow> c \<in> rs_live s \<union> set_option (rs_conn s) \<Longrightarrow> c < rs_opened s"
  unfolding mutex_inv_def by blast

lemma section_unique:
  "mutex_inv s \<Longrightarrow> in_section (rs_pc s i) \<Longrightarrow> in_section (rs_pc s j) \<Longrightarrow> i = j"
  using mutex_owner [of s i] mutex_owner [of s j] by simp

lemma free_mutex: "mutex_inv s \<Longrightarrow> rs_dialMu s = None \<Longrightarrow> \<not> in_section (rs_pc s i)"
  using mutex_owner [of s i] by auto

text \<open>Two ways to establish the invariant: nobody is past \<^verbatim>\<open>dialMu\<close>, or exactly its owner is.\<close>

lemma mutex_inv_nobody:
  assumes "\<And>j. \<not> in_section (rs_pc s j)" "\<And>c. c \<in> rs_live s \<union> set_option (rs_conn s) \<Longrightarrow> c < rs_opened s"
  shows "mutex_inv s"
proof -
  have "rs_pc s j \<noteq> Dialing" "rs_pc s j \<noteq> Install c" for j c
    using assms(1) [of j] in_section_simps(2,3) by metis+
  then show ?thesis unfolding mutex_inv_def using assms by blast
qed

lemma mutex_inv_owner:
  assumes "\<And>j. j \<noteq> i \<Longrightarrow> \<not> in_section (rs_pc s j)" "rs_dialMu s = Some i"
    "\<And>c. c \<in> rs_live s \<union> set_option (rs_conn s) \<Longrightarrow> c < rs_opened s"
    "rs_pc s i = Dialing \<Longrightarrow> dead s" "\<And>c. rs_pc s i = Install c \<Longrightarrow> dead s \<and> c < rs_opened s"
  shows "mutex_inv s"
proof -
  have "j = i" if "in_section (rs_pc s j)" for j using assms(1) [of j] that by blast
  moreover have "j = i" if "rs_pc s j = Dialing \<or> rs_pc s j = Install c" for j c
    using assms(1) [of j] that by (cases "j = i") auto
  ultimately show ?thesis unfolding mutex_inv_def using assms(2-5) by blast
qed

lemma mutex_inv_other:
  assumes "mutex_inv s" "\<not> in_section (rs_pc s i)" "\<not> in_section p"
  shows "mutex_inv (goto i p s)"
  using assms in_section_simps(2,3) unfolding mutex_inv_def dead_def by (auto simp: fun_upd_def)

lemma mutex_inv_finish:
  assumes "mutex_inv s" "in_section (rs_pc s i)"
  shows "mutex_inv (finish i r s)"
proof (rule mutex_inv_nobody)
  show "\<not> in_section (rs_pc (finish i r s) j)" for j
    using section_unique [OF assms, of j] by auto
qed (use mutex_bound [OF assms(1)] in simp)

lemma mutex_inv_step: "step s s' \<Longrightarrow> mutex_inv s \<Longrightarrow> mutex_inv s'"
proof (induction rule: step.induct)
  case (call_publish s i)
  from mutex_inv_other [of s i WantDial] call_publish have "mutex_inv (goto i WantDial s)" by simp
  then show ?case by (simp add: mutex_inv_def dead_def)
next
  case (lock_dialMu s i)
  show ?case
    by (rule mutex_inv_owner [of i])
      (use lock_dialMu free_mutex [of s] mutex_bound [of s] in \<open>auto\<close>)
next
  case (recheck_dial s i)
  show ?case
    by (rule mutex_inv_owner [of i])
      (use recheck_dial section_unique [of s i] mutex_owner [of s i] mutex_bound [of s] in \<open>auto simp: dead_def\<close>)
next
  case (dial_connects s i)
  have "rs_opened s \<notin> set_option (rs_conn s)" using mutex_bound [OF dial_connects.prems, of "rs_opened s"] by auto
  moreover have "dead s" using mutex_dead [OF dial_connects.prems] dial_connects.hyps by blast
  moreover have "c < Suc (rs_opened s)" if "c \<in> rs_live s \<union> set_option (rs_conn s)" for c
    using mutex_bound [OF dial_connects.prems that] by simp
  ultimately show ?case
    using dial_connects section_unique [of s i] mutex_owner [of s i]
    by (intro mutex_inv_owner [of i]) (auto simp: dead_def)
next
  case (install s i c)
  have "c < rs_opened s" using mutex_fresh [OF install.prems install.hyps] .
  then show ?case
    using install section_unique [of s i] mutex_owner [of s i] mutex_bound [of s]
    by (intro mutex_inv_owner [of i]) auto
next
  case (broker_drops c s)
  then show ?case unfolding mutex_inv_def dead_def by simp blast
next
  case (close_signal s)
  then show ?case by (simp add: mutex_inv_def dead_def)
next
  case (close_conn s)
  then show ?case unfolding mutex_inv_def dead_def by simp
qed (auto intro: mutex_inv_other mutex_inv_finish)

lemma socket_inv_step: "step s s' \<Longrightarrow> mutex_inv s \<Longrightarrow> socket_inv s \<Longrightarrow> socket_inv s'"
proof (induction rule: step.induct)
  case (dial_connects s i)
  then have "rs_opened s \<notin> rs_live s" using mutex_bound [of s "rs_opened s"] by auto
  with dial_connects show ?case by (auto simp: socket_inv_def split: if_splits) (metis pc.distinct)+
next
  case (install s i c)
  then have d: "dead s" using mutex_dead by blast
  then have l: "rs_live s - set_option (rs_conn s) = rs_live s" by (auto simp: dead_def)
  have "x = c" if x: "x \<in> rs_live s" for x
  proof -
    have "rs_conn s \<noteq> Some x" using d x by (auto simp: dead_def)
    then obtain j where j: "rs_pc s j = Install x" using install.prems(2) x unfolding socket_inv_def by blast
    then have "j = i" using section_unique [OF install.prems(1), of j i] install.hyps by simp
    then show ?thesis using j install.hyps by simp
  qed
  then show ?case using install.prems(2) d l by (auto simp: socket_inv_def)
next
  case (broker_drops c s)
  then have "Suc (card (rs_live s - {c})) = card (rs_live s)"
    unfolding socket_inv_def by (blast intro: card_Suc_Diff1)
  with broker_drops show ?case by (auto simp: socket_inv_def)
next
  case (close_conn s)
  have "rs_live s - set_option (rs_conn s) = rs_live s" if "dead s" using that by (auto simp: dead_def)
  moreover have "Suc (card (rs_live s - set_option (rs_conn s))) = card (rs_live s)" if nd: "\<not> dead s"
  proof -
    obtain c where "rs_conn s = Some c" "c \<in> rs_live s" using nd by (auto simp: dead_def)
    then show ?thesis using close_conn.prems(2) card_Suc_Diff1 [of "rs_live s" c] by (simp add: socket_inv_def)
  qed
  ultimately show ?case using close_conn by (auto simp: socket_inv_def)
qed (auto simp: socket_inv_def split: if_splits; metis pc.distinct)+

interpretation race: step_invariant step "\<lambda>s. s = dropped" "\<lambda>s. mutex_inv s \<and> socket_inv s"
proof unfold_locales
  show "mutex_inv p \<and> socket_inv p" if "p = dropped" for p
    using that by (simp add: dropped_def mutex_inv_def socket_inv_def dead_def)
qed (blast intro: mutex_inv_step socket_inv_step)

lemmas reachable_inv = race.reached [OF _ refl]


lemma one_socket:
  assumes "mutex_inv s" "socket_inv s" "c \<in> rs_live s" "d \<in> rs_live s"
  shows "c = d"
proof -
  have cases: "rs_conn s = Some x \<or> (\<exists>i. rs_pc s i = Install x)" if "x \<in> rs_live s" for x
    using assms(2) that unfolding socket_inv_def by blast
  have both: "x = y" if "rs_pc s i = Install x" "rs_pc s j = Install y" for x y i j
    using section_unique [OF assms(1), of i j] that by simp
  have no: "rs_conn s \<noteq> Some x" if "x \<in> rs_live s" "rs_pc s i = Install y" for x y i
    using mutex_dead [OF assms(1), of i y] that by (auto simp: dead_def)
  from cases [OF assms(3)] show ?thesis
  proof
    assume c: "rs_conn s = Some c"
    then have "rs_conn s = Some d" using cases [OF assms(4)] no [OF assms(3)] by blast
    then show ?thesis using c by simp
  next
    assume "\<exists>i. rs_pc s i = Install c"
    then obtain i where i: "rs_pc s i = Install c" by blast
    then obtain j where "rs_pc s j = Install d" using cases [OF assms(4)] no [OF assms(4) i] by blast
    then show ?thesis using both [OF i] by blast
  qed
qed


section \<open>Two goroutines that block each other\<close>

text \<open>Goroutine \<open>i\<close> holds \<^verbatim>\<open>dialMu\<close> and waits for \<^verbatim>\<open>pubMu\<close>, \<open>j\<close> holds \<^verbatim>\<open>pubMu\<close> and waits for \<^verbatim>\<open>dialMu\<close>.\<close>

definition embraced :: "nat \<Rightarrow> nat \<Rightarrow> race \<Rightarrow> bool" where
  "embraced i j s \<longleftrightarrow> i \<noteq> j \<and> (\<exists>c. rs_pc s i = ResetPub c) \<and> rs_pc s j = WantDial
     \<and> rs_dialMu s = Some i \<and> rs_pubMu s = Some j"

lemma embraced_step:
  assumes "step s s'" "mutex_inv s" "embraced i j s"
  shows "embraced i j s'"
proof -
  have only: "k = i" if "in_section (rs_pc s k)" for k
    using mutex_owner [OF assms(2) that] assms(3) by (simp add: embraced_def)
  obtain c where e: "i \<noteq> j" "rs_pc s i = ResetPub c" "rs_pc s j = WantDial" "rs_dialMu s = Some i" "rs_pubMu s = Some j"
    using assms(3) unfolding embraced_def by blast
  show ?thesis
    using assms(1)
  proof (cases rule: step.cases)
    case (recheck_live k)
    then show ?thesis using only [of k] e by simp
  next
    case (recheck_closed k)
    then show ?thesis using only [of k] e by simp
  next
    case (recheck_dial k)
    then show ?thesis using only [of k] e by simp
  next
    case (dial_fails k)
    then show ?thesis using only [of k] e by simp
  next
    case (dial_connects k)
    then show ?thesis using only [of k] e by simp
  next
    case (install k)
    then show ?thesis using only [of k] e by simp
  next
    case (again k r)
    then have "k \<noteq> i" "k \<noteq> j" using e by auto
    then show ?thesis using again e unfolding embraced_def by simp
  next
    case (call_reconnect k)
    then have "k \<noteq> i" "k \<noteq> j" using e by auto
    then show ?thesis using call_reconnect e unfolding embraced_def by simp
  qed (use e in \<open>auto simp: embraced_def\<close>)
qed

interpretation embrace: step_invariant step "\<lambda>_. False" "\<lambda>s. embraced i j s \<and> mutex_inv s" for i j
  by unfold_locales (auto intro: embraced_step mutex_inv_step)

lemma embraced_forever:
  assumes "step\<^sup>*\<^sup>* s s'" "mutex_inv s" "embraced i j s"
  shows "embraced i j s' \<and> mutex_inv s'"
  using embrace.kept [OF assms(1)] assms(2,3) by blast


section \<open>Properties\<close>

text \<open>
  \<^bold>\<open>C11\<close>: single flight. However many goroutines run into the dead connection, and however they
  interleave with drops and with \<^verbatim>\<open>Close\<close>: at most one of them is past \<^verbatim>\<open>dialMu\<close>, at most one
  socket is open at any moment, and a new dial succeeds only after an earlier connection
  has died, so one outage costs one connection and not one per goroutine.
\<close>

theorem reconnect_single_flight:
  assumes "step\<^sup>*\<^sup>* dropped s"
  shows "(in_section (rs_pc s i) \<longrightarrow> in_section (rs_pc s j) \<longrightarrow> i = j)
    \<and> card (rs_live s) \<le> 1 \<and> rs_opened s \<le> Suc (rs_deaths s)"
proof -
  have inv: "mutex_inv s" "socket_inv s" using reachable_inv [OF assms] by blast+
  have "card (rs_live s) \<le> 1"
  proof (cases "rs_live s = {}")
    case False
    then obtain c where "c \<in> rs_live s" by blast
    then have "rs_live s = {c}" using one_socket [OF inv] by blast
    then show ?thesis by simp
  qed simp
  moreover have "rs_opened s = rs_deaths s + card (rs_live s)" using inv(2) by (simp add: socket_inv_def)
  ultimately show ?thesis using section_unique [OF inv(1), of i j] by auto
qed

lemma outage_trace:
  "step\<^sup>*\<^sup>* dropped ((goto 0 (Install 1) dropped)\<lparr>rs_dialMu := Some 0, rs_live := {1}, rs_opened := 2\<rparr>)"
proof -
  let ?s1 = "goto 0 WantDial dropped"
  let ?s2 = "(goto 0 Recheck ?s1)\<lparr>rs_dialMu := Some 0\<rparr>"
  let ?s3 = "goto 0 Dialing ?s2"
  have "step dropped ?s1" by (rule call_reconnect) (simp_all add: dropped_def dead_def)
  moreover have "step ?s1 ?s2" by (rule lock_dialMu) (simp_all add: dropped_def)
  moreover have "step ?s2 ?s3" by (rule recheck_dial) (simp_all add: dropped_def dead_def)
  moreover have "step ?s3 ((goto 0 (Install (rs_opened ?s3)) ?s3)\<lparr>rs_live := insert (rs_opened ?s3) (rs_live ?s3),
      rs_opened := Suc (rs_opened ?s3)\<rparr>)" by (rule dial_connects) simp
  moreover have "(goto 0 (Install (rs_opened ?s3)) ?s3)\<lparr>rs_live := insert (rs_opened ?s3) (rs_live ?s3),
      rs_opened := Suc (rs_opened ?s3)\<rparr> = (goto 0 (Install 1) dropped)\<lparr>rs_dialMu := Some 0, rs_live := {1}, rs_opened := 2\<rparr>"
    by (simp add: goto_def dropped_def numeral_2_eq_2)
  ultimately show ?thesis by (metis (no_types, lifting) rtranclp.simps)
qed

theorem reconnect_single_flight_witness:
  "rs_opened ((goto 0 (Install 1) dropped)\<lparr>rs_dialMu := Some 0, rs_live := {1}, rs_opened := 2\<rparr>)
     \<le> Suc (rs_deaths dropped)"
  using reconnect_single_flight [OF outage_trace] by simp

text \<open>
  \<^bold>\<open>C27\<close>: the race between \<^verbatim>\<open>Close\<close> and \<^verbatim>\<open>reconnect\<close>. There is an execution after which \<^verbatim>\<open>Close\<close> has
  run to its end and yet the transport holds an open connection that nothing will close: a
  dial that was under way when \<^verbatim>\<open>Close\<close> ran installs its connection afterwards.
\<close>

theorem Close_can_leak_connection:
  "\<exists>s c. step\<^sup>*\<^sup>* dropped s \<and> rs_close s = Closed \<and> rs_conn s = Some c \<and> c \<in> rs_live s"
proof -
  let ?s4 = "(goto 0 (Install 1) dropped)\<lparr>rs_dialMu := Some 0, rs_live := {1}, rs_opened := 2\<rparr>"
  let ?s5 = "?s4\<lparr>rs_close := Closing\<rparr>"
  let ?s6 = "?s5\<lparr>rs_close := Closed, rs_conn := None, rs_live := rs_live ?s5 - set_option (rs_conn ?s5),
      rs_deaths := (if dead ?s5 then rs_deaths ?s5 else Suc (rs_deaths ?s5))\<rparr>"
  let ?s7 = "(goto 0 (ResetPub 1) ?s6)\<lparr>rs_live := rs_live ?s6 - set_option (rs_conn ?s6), rs_conn := Some 1,
      rs_deaths := (if dead ?s6 then rs_deaths ?s6 else Suc (rs_deaths ?s6))\<rparr>"
  have "step ?s4 ?s5" by (rule close_signal) (simp add: dropped_def)
  moreover have "step ?s5 ?s6" by (rule close_conn) (simp_all add: dropped_def)
  moreover have "step ?s6 ?s7" by (rule install) simp
  ultimately have "step\<^sup>*\<^sup>* ?s4 ?s7" by (meson converse_rtranclp_into_rtranclp rtranclp.rtrancl_refl)
  then have "step\<^sup>*\<^sup>* dropped ?s7" using outage_trace by (rule rtranclp_trans [rotated])
  moreover have "rs_close ?s7 = Closed" "rs_conn ?s7 = Some 1" "1 \<in> rs_live ?s7" by (simp_all add: dropped_def)
  ultimately show ?thesis by blast
qed

text \<open>
  \<^bold>\<open>C26\<close>: lock-order inversion. There is an execution in which the watchdog, holding \<^verbatim>\<open>dialMu\<close>, waits
  for \<^verbatim>\<open>pubMu\<close>, while a publisher, holding \<^verbatim>\<open>pubMu\<close>, waits for \<^verbatim>\<open>dialMu\<close>; from there on, whatever
  happens, neither ever moves again.
\<close>

theorem watchdog_and_publisher_deadlock:
  "\<exists>s. step\<^sup>*\<^sup>* dropped s \<and> embraced 0 1 s \<and> Collect (step\<^sup>*\<^sup>* s) \<subseteq> Collect (embraced 0 1)"
proof -
  let ?s4 = "(goto 0 (Install 1) dropped)\<lparr>rs_dialMu := Some 0, rs_live := {1}, rs_opened := 2\<rparr>"
  let ?s5 = "(goto 1 WantDial ?s4)\<lparr>rs_pubMu := Some 1\<rparr>"
  let ?s6 = "(goto 0 (ResetPub 1) ?s5)\<lparr>rs_live := rs_live ?s5 - set_option (rs_conn ?s5), rs_conn := Some 1,
      rs_deaths := (if dead ?s5 then rs_deaths ?s5 else Suc (rs_deaths ?s5))\<rparr>"
  have "step ?s4 ?s5" by (rule call_publish) (simp_all add: dropped_def dead_def)
  moreover have "step ?s5 ?s6" by (rule install) simp
  ultimately have "step\<^sup>*\<^sup>* ?s4 ?s6" by (meson converse_rtranclp_into_rtranclp rtranclp.rtrancl_refl)
  then have reach: "step\<^sup>*\<^sup>* dropped ?s6" using outage_trace by (rule rtranclp_trans [rotated])
  have emb: "embraced 0 1 ?s6" by (simp add: embraced_def)
  have "embraced 0 1 s'" if "step\<^sup>*\<^sup>* ?s6 s'" for s'
    using embraced_forever [OF that _ emb] reachable_inv [OF reach] by blast
  then show ?thesis using reach emb by blast
qed

end
