(* ===== verification/AmqpPool.thy ===== *)
theory AmqpPool
  imports Amqp "HOL-Library.Multiset"
begin

text \<open>
  \<^verbatim>\<open>deliverLoop\<close> of \<^verbatim>\<open>rpc/amqp\<close> as it runs under \<^verbatim>\<open>runWithReconnect\<close>: the loop takes deliveries off the
  channel, acquires a slot of its semaphore and starts one goroutine per delivery; the
  goroutines' handlers call \<^verbatim>\<open>Ack\<close>, \<^verbatim>\<open>Nack\<close> and \<^verbatim>\<open>Reply\<close> in any order and interleaving, return whenever
  they like, and the goroutine then settles the delivery if its handler forgot. Meanwhile the
  broker sends deliveries or closes the channel, and other goroutines use the connection.
  When the channel is closed and drained, \<^verbatim>\<open>deliverLoop\<close> returns without waiting for its goroutines;
  after a rebind the next call works on a new channel with a semaphore of its own.

  The abstract specification of one delivery is its ledger: the two \<^verbatim>\<open>sync.Once\<close> flags and what
  was sent. The concrete closures refine it, whatever the library answers, and every
  interleaving refines the sequential loop of theory \<open>Amqp\<close> delivery by delivery.
\<close>

section \<open>The ledger of a delivery\<close>

type_synonym ledger = "bool \<times> bool \<times> wire list"

fun ledger_act :: "raw_delivery \<Rightarrow> action \<Rightarrow> ledger \<Rightarrow> ledger" where
  "ledger_act raw DoAck (st, rp, w) = (if st then (st, rp, w) else (True, rp, w @ [WireAck]))"
| "ledger_act raw (DoNack rq) (st, rp, w) = (if st then (st, rp, w) else (True, rp, w @ [WireNack rq]))"
| "ledger_act raw (DoReply b ct) (st, rp, w) =
     (if rd_ReplyTo raw = [] \<or> rp then (st, rp, w)
      else (st, True, w @ [WirePublish (rd_ReplyTo raw) (reply_publishing raw b (content_type ct))]))"

definition new_ledger :: ledger where "new_ledger = (False, False, [])"

definition fallback :: "goerr option \<Rightarrow> action" where
  "fallback err = (if err = None then DoAck else DoNack False)"

definition ledger_of :: "'n dstate \<Rightarrow> ledger" where
  "ledger_of s = (ds_settled s, ds_replied s, ds_wire s)"

lemma settle_ledger:
  "ledger_of (snd (settle x f s)) = (if ds_settled s then ledger_of s else (True, ds_replied s, ds_wire s @ [x]))"
  "ds_ch (snd (settle x f s)) = ds_ch s"
  by (simp_all add: settle_def send_def ledger_of_def case_prod_beta Let_def)

lemma reply_ledger:
  assumes "ds_ch s = Some c"
  shows "ledger_of (snd (reply_fn l raw b ct s)) = ledger_act raw (DoReply b ct) (ledger_of s)"
    "ds_ch (snd (reply_fn l raw b ct s)) = ds_ch s"
  using assms by (simp_all add: reply_fn_def send_def ledger_of_def case_prod_beta Let_def)

lemma Reply_amqp:
  "act (amqp_delivery l endpoint raw) (DoReply b ct) s = snd (reply_fn l raw b (content_type ct) s)"
  by (simp add: Reply_def amqp_delivery_def content_type_def)

lemma ledger_content_type: "ledger_act raw (DoReply b (content_type ct)) L = ledger_act raw (DoReply b ct) L"
  by (cases L) (simp add: content_type_def)

lemma act_refines:
  assumes "ds_ch s \<noteq> None"
  shows "ledger_of (act (amqp_delivery l endpoint raw) a s) = ledger_act raw a (ledger_of s)
    \<and> ds_ch (act (amqp_delivery l endpoint raw) a s) = ds_ch s"
proof -
  obtain c where c: "ds_ch s = Some c" using assms by blast
  show ?thesis
  proof (cases a)
    case DoAck
    then show ?thesis using settle_ledger [of WireAck "l_Ack l (rd_Tag raw)" s]
      by (simp add: Ack_def amqp_delivery_def ack_fn_def ledger_of_def)
  next
    case (DoNack rq)
    then show ?thesis using settle_ledger [of "WireNack rq" "l_Nack l (rd_Tag raw) rq" s]
      by (simp add: Nack_def amqp_delivery_def nack_fn_def ledger_of_def)
  next
    case (DoReply b ct)
    then show ?thesis using reply_ledger [OF c] by (simp only: Reply_amqp ledger_content_type)
  qed
qed

lemma acts_refine:
  "ds_ch s \<noteq> None \<Longrightarrow>
   ledger_of (acts (amqp_delivery l endpoint raw) as s) = fold (ledger_act raw) as (ledger_of s)
   \<and> ds_ch (acts (amqp_delivery l endpoint raw) as s) = ds_ch s"
  by (induction as arbitrary: s) (simp_all add: act_refines)

lemma handle_raw_fallback:
  "handle_raw l (\<lambda>d s. (err, acts d as s)) endpoint raw s
     = act (amqp_delivery l endpoint raw) (fallback err) (acts (amqp_delivery l endpoint raw) as s)"
  by (simp add: handle_raw_def fallback_def Ack_def Nack_def amqp_delivery_def split: option.split)

lemma sequential_ledger:
  "ledger_of (handle_raw l (\<lambda>d s. (err, acts d as s)) endpoint raw (fresh_state (Some c) n))
     = fold (ledger_act raw) (as @ [fallback err]) new_ledger"
proof -
  have ch: "ds_ch (fresh_state (Some c) n) \<noteq> None" by (simp add: fresh_state_def)
  have "ledger_of (fresh_state (Some c) n) = new_ledger" by (simp add: ledger_of_def fresh_state_def new_ledger_def)
  then show ?thesis
    unfolding handle_raw_fallback using acts_refine [OF ch, of l endpoint raw as] ch by (simp add: act_refines)
qed


section \<open>Goroutines and steps\<close>

record 'n job =
  job_raw :: raw_delivery
  job_round :: nat
  job_calls :: "action list"
  job_state :: "'n dstate"

text \<open>
  \<open>pl_held\<close> is the delivery the loop has taken and not yet started, \<open>pl_received\<close> all that the
  broker sent, \<open>pl_finished\<close> the goroutines that ended with what their handlers returned;
  \<open>pl_round\<close> counts the rebinds, and \<open>job_round\<close> says which call of \<^verbatim>\<open>deliverLoop\<close>, so which
  semaphore, a goroutine belongs to.
\<close>

record 'n pool =
  pl_open :: bool
  pl_received :: "raw_delivery list"
  pl_queue :: "raw_delivery list"
  pl_held :: "raw_delivery option"
  pl_running :: "'n job list"
  pl_finished :: "('n job \<times> goerr option) list"
  pl_round :: nat
  pl_ch :: nat
  pl_net :: 'n

definition job_call :: "'n lib \<Rightarrow> string \<Rightarrow> 'n pool \<Rightarrow> action \<Rightarrow> 'n job \<Rightarrow> 'n dstate" where
  "job_call l endpoint p a j =
     act (amqp_delivery l endpoint (job_raw j)) a ((job_state j)\<lparr>ds_ch := Some (pl_ch p), ds_net := pl_net p\<rparr>)"

definition new_job :: "'n pool \<Rightarrow> raw_delivery \<Rightarrow> 'n job" where
  "new_job p raw = \<lparr>job_raw = raw, job_round = pl_round p, job_calls = [], job_state = fresh_state (Some (pl_ch p)) (pl_net p)\<rparr>"

text \<open>The slots of the semaphore of one call of \<^verbatim>\<open>deliverLoop\<close> that are taken.\<close>

definition busy :: "nat \<Rightarrow> 'n pool \<Rightarrow> nat" where
  "busy k p = length (filter (\<lambda>j. job_round j = k) (pl_running p))"

inductive pool_step :: "'n lib \<Rightarrow> string \<Rightarrow> nat \<Rightarrow> 'n pool \<Rightarrow> 'n pool \<Rightarrow> bool"
  for l :: "'n lib" and endpoint :: string and cap :: nat where
  broker_sends: "pl_open p \<Longrightarrow>
    pool_step l endpoint cap p (p\<lparr>pl_received := pl_received p @ [raw], pl_queue := pl_queue p @ [raw]\<rparr>)"
| broker_closes: "pool_step l endpoint cap p (p\<lparr>pl_open := False\<rparr>)"
| loop_takes: "pl_held p = None \<Longrightarrow> pl_queue p = raw # rest \<Longrightarrow>
    pool_step l endpoint cap p (p\<lparr>pl_queue := rest, pl_held := Some raw\<rparr>)"
| loop_starts: "pl_held p = Some raw \<Longrightarrow> busy (pl_round p) p < cap \<Longrightarrow>
    pool_step l endpoint cap p (p\<lparr>pl_held := None, pl_running := pl_running p @ [new_job p raw]\<rparr>)"
| handler_calls: "pl_running p = js1 @ j # js2 \<Longrightarrow> s = job_call l endpoint p a j \<Longrightarrow>
    pool_step l endpoint cap p (p\<lparr>pl_running := js1 @ j\<lparr>job_calls := job_calls j @ [a], job_state := s\<rparr> # js2,
      pl_net := ds_net s\<rparr>)"
| handler_returns: "pl_running p = js1 @ j # js2 \<Longrightarrow> s = job_call l endpoint p (fallback err) j \<Longrightarrow>
    pool_step l endpoint cap p (p\<lparr>pl_running := js1 @ js2, pl_finished := pl_finished p @ [(j\<lparr>job_state := s\<rparr>, err)],
      pl_net := ds_net s\<rparr>)"
| loop_rebinds: "\<not> pl_open p \<Longrightarrow> pl_queue p = [] \<Longrightarrow> pl_held p = None \<Longrightarrow>
    pool_step l endpoint cap p (p\<lparr>pl_open := True, pl_round := Suc (pl_round p), pl_ch := c\<rparr>)"
| others_use_broker: "pool_step l endpoint cap p (p\<lparr>pl_net := n\<rparr>)"

inductive_cases pool_stepE: "pool_step l endpoint cap p q"

definition idle_pool :: "nat \<Rightarrow> 'n \<Rightarrow> 'n pool" where
  "idle_pool c n = \<lparr>pl_open = True, pl_received = [], pl_queue = [], pl_held = None, pl_running = [], pl_finished = [],
     pl_round = 0, pl_ch = c, pl_net = n\<rparr>"

interpretation semaphore: throttle "pool_step l endpoint cap" "\<lambda>p. \<exists>c n. p = idle_pool c n" "busy k" cap for l endpoint cap k
proof unfold_locales
  show "\<exists>c n. p = idle_pool c n \<Longrightarrow> busy k p = 0" for p :: "'a pool" by (auto simp: idle_pool_def busy_def)
  show "pool_step l endpoint cap p q \<Longrightarrow> busy k q \<le> busy k p \<or> busy k p < cap \<and> busy k q = Suc (busy k p)" for p q :: "'a pool"
    by (erule pool_stepE) (auto simp: busy_def new_job_def)
qed


section \<open>The invariant\<close>

definition running_ok :: "'n job \<Rightarrow> bool" where
  "running_ok j \<longleftrightarrow> ledger_of (job_state j) = fold (ledger_act (job_raw j)) (job_calls j) new_ledger"

definition finished_ok :: "'n job \<times> goerr option \<Rightarrow> bool" where
  "finished_ok je \<longleftrightarrow> ledger_of (job_state (fst je))
     = fold (ledger_act (job_raw (fst je))) (job_calls (fst je) @ [fallback (snd je)]) new_ledger"

definition whereabouts :: "'n pool \<Rightarrow> raw_delivery list" where
  "whereabouts p = pl_queue p @ (case pl_held p of None \<Rightarrow> [] | Some raw \<Rightarrow> [raw])
     @ map job_raw (pl_running p) @ map (job_raw \<circ> fst) (pl_finished p)"

definition pool_inv :: "'n pool \<Rightarrow> bool" where
  "pool_inv p \<longleftrightarrow> list_all running_ok (pl_running p) \<and> list_all finished_ok (pl_finished p)
     \<and> (\<forall>j \<in> set (pl_running p). job_round j \<le> pl_round p)
     \<and> mset (pl_received p) = mset (whereabouts p)"

lemma job_call_ledger:
  "ledger_of (job_call l endpoint p a j) = ledger_act (job_raw j) a (ledger_of (job_state j))"
proof -
  have "ledger_of ((job_state j)\<lparr>ds_ch := Some (pl_ch p), ds_net := pl_net p\<rparr>) = ledger_of (job_state j)"
    by (simp add: ledger_of_def)
  then show ?thesis unfolding job_call_def by (simp add: act_refines)
qed

lemma new_job_ok: "running_ok (new_job p raw)"
  by (simp add: running_ok_def new_job_def ledger_of_def fresh_state_def new_ledger_def)

lemma idle_inv: "pool_inv (idle_pool c n)"
  by (simp add: pool_inv_def idle_pool_def whereabouts_def)

lemma pool_inv_step:
  assumes "pool_step l endpoint cap p q" "pool_inv p"
  shows "pool_inv q"
  using assms(1)
proof cases
  case (handler_calls js1 j js2 s a)
  have "running_ok j" using assms(2) handler_calls(2) by (simp add: pool_inv_def)
  then have "running_ok (j\<lparr>job_calls := job_calls j @ [a], job_state := s\<rparr>)"
    by (simp add: running_ok_def handler_calls(3) job_call_ledger)
  then show ?thesis using assms(2) handler_calls by (simp add: pool_inv_def whereabouts_def)
next
  case (handler_returns js1 j js2 s err)
  have "running_ok j" using assms(2) handler_returns(2) by (simp add: pool_inv_def)
  then have "finished_ok (j\<lparr>job_state := s\<rparr>, err)"
    by (simp add: running_ok_def finished_ok_def handler_returns(3) job_call_ledger)
  then show ?thesis using assms(2) handler_returns by (simp add: pool_inv_def whereabouts_def)
qed (use assms(2) new_job_ok in \<open>auto simp: pool_inv_def whereabouts_def new_job_def\<close>)

interpretation pool: step_invariant "pool_step l endpoint cap" "\<lambda>p. \<exists>c n. p = idle_pool c n" pool_inv for l endpoint cap
  by unfold_locales (auto intro: pool_inv_step idle_inv)

lemma pool_reachable_inv: "(pool_step l endpoint cap)\<^sup>*\<^sup>* (idle_pool c n) p \<Longrightarrow> pool_inv p"
  by (erule pool.reached) blast

lemma ledger_act_counts:
  assumes "length (filter is_settle w) = (if st then 1 else 0)" "length (filter (\<lambda>x. \<not> is_settle x) w) \<le> (if rp then 1 else 0)"
    and "ledger_act raw a (st, rp, w) = (st', rp', w')"
  shows "length (filter is_settle w') = (if st' then 1 else 0) \<and> length (filter (\<lambda>x. \<not> is_settle x) w') \<le> (if rp' then 1 else 0)"
  using assms by (cases a) (auto split: if_splits)

lemma ledger_counts:
  "fold (ledger_act raw) as new_ledger = (st, rp, w) \<Longrightarrow>
   length (filter is_settle w) = (if st then 1 else 0) \<and> length (filter (\<lambda>x. \<not> is_settle x) w) \<le> (if rp then 1 else 0)"
proof (induction as arbitrary: st rp w rule: rev_induct)
  case (snoc a as)
  obtain st0 rp0 w0 where L: "fold (ledger_act raw) as new_ledger = (st0, rp0, w0)" by (cases "fold (ledger_act raw) as new_ledger")
  then show ?case using snoc.IH [OF L] snoc.prems ledger_act_counts [of w0 st0 rp0 raw a st rp w] by simp
qed (simp add: new_ledger_def)

lemma fallback_settles: "fst (ledger_act raw (fallback err) L)"
  by (cases L) (simp add: fallback_def)

lemma finished_counts:
  assumes "finished_ok (j, err)"
  shows "settlements (job_state j) = 1 \<and> answers (job_state j) \<le> 1"
proof -
  let ?L = "fold (ledger_act (job_raw j)) (job_calls j @ [fallback err]) new_ledger"
  have L: "?L = (ds_settled (job_state j), ds_replied (job_state j), ds_wire (job_state j))"
    using assms by (simp add: finished_ok_def ledger_of_def)
  have "fst ?L" using fallback_settles by simp
  then show ?thesis using ledger_counts [OF L] L by (simp add: settlements_def answers_def split: if_splits)
qed


section \<open>Draining\<close>

definition backlog :: "'n pool \<Rightarrow> nat" where
  "backlog p = 3 * length (pl_queue p) + (if pl_held p = None then 0 else 2) + length (pl_running p)"

lemma backlog_progress:
  assumes "0 < cap" "0 < backlog p"
  shows "\<exists>q. pool_step l endpoint cap p q \<and> backlog q < backlog p \<and> pl_received q = pl_received p"
proof -
  consider (run) j js where "pl_running p = j # js" | (held) raw where "pl_running p = []" "pl_held p = Some raw"
    | (wait) raw rest where "pl_held p = None" "pl_queue p = raw # rest"
    using assms(2) by (cases "pl_running p"; cases "pl_held p"; cases "pl_queue p") (auto simp: backlog_def)
  then show ?thesis
  proof cases
    case run
    then have "pl_running p = [] @ j # js" by simp
    from handler_returns [OF this refl, of l endpoint cap None] show ?thesis
      by (intro exI conjI, assumption) (simp_all add: backlog_def run)
  next
    case held
    then have "busy (pl_round p) p < cap" using assms(1) by (simp add: busy_def)
    from loop_starts [OF held(2) this, of l endpoint] show ?thesis
      by (intro exI conjI, assumption) (simp_all add: backlog_def held)
  next
    case wait
    from loop_takes [OF this, of l endpoint cap] show ?thesis
      by (intro exI conjI, assumption) (simp_all add: backlog_def wait)
  qed
qed

interpretation pool_work: draining "pool_step l endpoint (Suc c)" backlog pl_received for l endpoint c
  by unfold_locales (rule backlog_progress, simp_all)


section \<open>Handlers of several rounds\<close>

lemma length_by_class: "\<forall>x \<in> set xs. f x \<le> (n :: nat) \<Longrightarrow> length xs = (\<Sum>k \<le> n. length (filter (\<lambda>x. f x = k) xs))"
proof (induction xs)
  case (Cons x xs)
  have "(\<Sum>k \<le> n. length (filter (\<lambda>y. f y = k) (x # xs)))
      = (\<Sum>k \<le> n. (if k = f x then 1 else 0) + length (filter (\<lambda>y. f y = k) xs))"
    by (rule sum.cong) auto
  moreover have "(\<Sum>k \<le> n. if k = f x then 1 else 0) = (1 :: nat)" using Cons.prems by (subst sum.delta) simp_all
  ultimately show ?case using Cons by (simp add: sum.distrib)
qed simp

text \<open>A subscription at rest whose current channel has started \<open>m\<close> handlers, after \<open>r\<close> rebinds.\<close>

definition quiet :: "nat \<Rightarrow> nat \<Rightarrow> nat \<Rightarrow> 'n pool \<Rightarrow> bool" where
  "quiet r m len p \<longleftrightarrow> pl_open p \<and> pl_queue p = [] \<and> pl_held p = None \<and> pl_round p = r \<and> busy r p = m
     \<and> length (pl_running p) = len \<and> (\<forall>j \<in> set (pl_running p). job_round j \<le> r)"

lemma one_more:
  assumes "quiet r m len p" "m < cap"
  shows "\<exists>q. (pool_step l endpoint cap)\<^sup>*\<^sup>* p q \<and> quiet r (Suc m) (Suc len) q"
proof -
  let ?raw = "ex_raw []"
  let ?p1 = "p\<lparr>pl_received := pl_received p @ [?raw], pl_queue := pl_queue p @ [?raw]\<rparr>"
  let ?p2 = "?p1\<lparr>pl_queue := [], pl_held := Some ?raw\<rparr>"
  let ?p3 = "?p2\<lparr>pl_held := None, pl_running := pl_running ?p2 @ [new_job ?p2 ?raw]\<rparr>"
  have "pool_step l endpoint cap p ?p1" by (rule broker_sends) (use assms in \<open>simp add: quiet_def\<close>)
  moreover have "pool_step l endpoint cap ?p1 ?p2" by (rule loop_takes) (use assms in \<open>simp_all add: quiet_def\<close>)
  moreover have "pool_step l endpoint cap ?p2 ?p3" by (rule loop_starts) (use assms in \<open>simp_all add: quiet_def busy_def\<close>)
  moreover have "quiet r (Suc m) (Suc len) ?p3" using assms by (auto simp: quiet_def busy_def new_job_def)
  ultimately show ?thesis by (meson converse_rtranclp_into_rtranclp rtranclp.rtrancl_refl)
qed

lemma fill_channel:
  "quiet r 0 len p \<Longrightarrow> m \<le> cap \<Longrightarrow> \<exists>q. (pool_step l endpoint cap)\<^sup>*\<^sup>* p q \<and> quiet r m (len + m) q"
proof (induction m)
  case (Suc m)
  then obtain q where q: "(pool_step l endpoint cap)\<^sup>*\<^sup>* p q" "quiet r m (len + m) q" by auto
  then obtain q' where "(pool_step l endpoint cap)\<^sup>*\<^sup>* q q'" "quiet r (Suc m) (len + Suc m) q'"
    using one_more [OF q(2), of cap l endpoint] Suc.prems(2) by auto
  then show ?case using q(1) by (meson rtranclp_trans)
qed auto

lemma next_round:
  assumes "quiet r m len p"
  shows "\<exists>q. (pool_step l endpoint cap)\<^sup>*\<^sup>* p q \<and> quiet (Suc r) 0 len q"
proof -
  let ?p1 = "p\<lparr>pl_open := False\<rparr>"
  let ?p2 = "?p1\<lparr>pl_open := True, pl_round := Suc (pl_round ?p1), pl_ch := 0\<rparr>"
  have "pool_step l endpoint cap p ?p1" by (rule broker_closes)
  moreover have "pool_step l endpoint cap ?p1 ?p2" by (rule loop_rebinds) (use assms in \<open>simp_all add: quiet_def\<close>)
  moreover have "quiet (Suc r) 0 len ?p2" using assms by (fastforce simp: quiet_def busy_def filter_empty_conv)
  ultimately show ?thesis by (meson converse_rtranclp_into_rtranclp rtranclp.rtrancl_refl)
qed

text \<open>Handlers that never return pile up: each rebind lets another \<open>cap\<close> of them start.\<close>

lemma rebinds_pile_up:
  "\<exists>q. (pool_step l endpoint cap)\<^sup>*\<^sup>* (idle_pool c n) q \<and> pl_round q = r \<and> length (pl_running q) = Suc r * cap"
proof -
  have "\<exists>q. (pool_step l endpoint cap)\<^sup>*\<^sup>* (idle_pool c n) q \<and> quiet r cap (Suc r * cap) q"
  proof (induction r)
    case 0
    have "quiet 0 0 0 (idle_pool c n)" by (simp add: quiet_def idle_pool_def busy_def)
    from fill_channel [OF this, of cap cap] show ?case by simp
  next
    case (Suc r)
    then obtain q q1 where q: "(pool_step l endpoint cap)\<^sup>*\<^sup>* (idle_pool c n) q" "(pool_step l endpoint cap)\<^sup>*\<^sup>* q q1"
        "quiet (Suc r) 0 (Suc r * cap) q1" using next_round by blast
    from fill_channel [OF q(3), of cap cap] obtain q2 where "(pool_step l endpoint cap)\<^sup>*\<^sup>* q1 q2"
        "quiet (Suc r) cap (Suc r * cap + cap) q2" by blast
    then show ?case using q(1,2) by (metis add.commute mult_Suc rtranclp_trans)
  qed
  then show ?thesis by (auto simp: quiet_def)
qed


section \<open>Properties\<close>

text \<open>
  \<^bold>\<open>C7\<close>: concurrent handlers. In every interleaving of the broker, the loop with its rebinds and
  the handlers (which may call and return what they like): of the deliveries of one channel
  never more are handled at once than the configured concurrency; no delivery is lost or
  handled twice; and every goroutine that ended has settled its delivery exactly once and
  answered at most once. The bound is one per channel, not one per subscription: after \<open>k\<close>
  rebinds up to \<open>(k + 1) * cap\<close> handlers run at once, and some run gets there.
\<close>

theorem pool_safe:
  assumes "(pool_step l endpoint cap)\<^sup>*\<^sup>* (idle_pool c n) p"
  shows "(\<forall>k. busy k p \<le> cap) \<and> length (pl_running p) \<le> Suc (pl_round p) * cap
    \<and> mset (pl_received p) = mset (whereabouts p)
    \<and> (\<forall>(j, err) \<in> set (pl_finished p). settlements (job_state j) = 1 \<and> answers (job_state j) \<le> 1)
    \<and> (\<exists>q. (pool_step l endpoint cap)\<^sup>*\<^sup>* (idle_pool c n) q \<and> pl_round q = pl_round p
         \<and> length (pl_running q) = Suc (pl_round p) * cap)"
proof -
  have inv: "pool_inv p" by (rule pool_reachable_inv [OF assms])
  have bound: "busy k p \<le> cap" for k by (rule semaphore.bound.reached [OF assms]) blast
  have "length (pl_running p) = (\<Sum>k \<le> pl_round p. busy k p)"
    unfolding busy_def using inv by (intro length_by_class) (simp add: pool_inv_def)
  also have "\<dots> \<le> (\<Sum>k \<le> pl_round p. cap)" by (rule sum_mono) (rule bound)
  finally have len: "length (pl_running p) \<le> Suc (pl_round p) * cap" by simp
  have "\<forall>(j, err) \<in> set (pl_finished p). settlements (job_state j) = 1 \<and> answers (job_state j) \<le> 1"
    using inv finished_counts by (fastforce simp: pool_inv_def list_all_iff)
  then show ?thesis using inv bound len rebinds_pile_up by (simp add: pool_inv_def)
qed

text \<open>A run in which one handler nacks, acks and returns an error.\<close>

lemma pool_trace:
  "\<exists>j p. (pool_step ex_lib ''q'' 1)\<^sup>*\<^sup>* (idle_pool 1 2) p \<and> pl_finished p = [(j, None)] \<and> job_calls j = [DoNack True]
     \<and> job_raw j = ex_raw ''c''"
proof -
  let ?st = "pool_step ex_lib ''q'' 1"
  let ?p0 = "idle_pool 1 (2 :: nat)"
  let ?p1 = "?p0\<lparr>pl_received := [ex_raw ''c''], pl_queue := [ex_raw ''c'']\<rparr>"
  let ?p2 = "?p1\<lparr>pl_queue := [], pl_held := Some (ex_raw ''c'')\<rparr>"
  let ?j = "new_job ?p2 (ex_raw ''c'')"
  let ?p3 = "?p2\<lparr>pl_held := None, pl_running := [?j]\<rparr>"
  let ?s4 = "job_call ex_lib ''q'' ?p3 (DoNack True) ?j"
  let ?j4 = "?j\<lparr>job_calls := [DoNack True], job_state := ?s4\<rparr>"
  let ?p4 = "?p3\<lparr>pl_running := [?j4], pl_net := ds_net ?s4\<rparr>"
  let ?s5 = "job_call ex_lib ''q'' ?p4 (fallback None) ?j4"
  let ?p5 = "?p4\<lparr>pl_running := [], pl_finished := [(?j4\<lparr>job_state := ?s5\<rparr>, None)], pl_net := ds_net ?s5\<rparr>"
  have "?st ?p0 ?p1" using broker_sends [of ?p0 ex_lib "''q''" 1 "ex_raw ''c''"] by (simp add: idle_pool_def)
  moreover have "?st ?p1 ?p2" by (rule loop_takes) (simp_all add: idle_pool_def)
  moreover have "?st ?p2 ?p3" using loop_starts [of ?p2 "ex_raw ''c''" 1 ex_lib "''q''"] by (simp add: idle_pool_def busy_def)
  moreover have "?st ?p3 ?p4"
    using handler_calls [of ?p3 "[]" ?j "[]" ?s4 ex_lib "''q''" "DoNack True" 1] by (simp add: new_job_def)
  moreover have "?st ?p4 ?p5"
    using handler_returns [of ?p4 "[]" ?j4 "[]" ?s5 ex_lib "''q''" None 1] by (simp add: idle_pool_def)
  ultimately have "?st\<^sup>*\<^sup>* ?p0 ?p5" by (meson converse_rtranclp_into_rtranclp rtranclp.rtrancl_refl)
  then show ?thesis by (intro exI [of _ "?j4\<lparr>job_state := ?s5\<rparr>"] exI [of _ ?p5]) (simp add: new_job_def)
qed

theorem pool_safe_witness:
  "\<exists>j p. (pool_step ex_lib ''q'' 1)\<^sup>*\<^sup>* (idle_pool 1 2) p \<and> pl_finished p = [(j, None)] \<and> settlements (job_state j) = 1"
proof -
  obtain j p where t: "(pool_step ex_lib ''q'' 1)\<^sup>*\<^sup>* (idle_pool 1 2) p" "pl_finished p = [(j, None)]"
    using pool_trace by blast
  from pool_safe [OF t(1)] t show ?thesis by auto
qed

text \<open>
  \<^bold>\<open>C8\<close>: refinement of the sequential loop. What an ended goroutine sent for its delivery, in any
  interleaving and with any outcomes of the library calls of the others, is exactly what the
  sequential loop sends for a handler that makes the same calls and returns the same error,
  on any channel and any broker state.
\<close>

theorem pool_refines_sequential:
  assumes "(pool_step l endpoint cap)\<^sup>*\<^sup>* (idle_pool c n) p" and "(j, err) \<in> set (pl_finished p)"
  shows "ds_wire (job_state j)
    = ds_wire (handle_raw l' (\<lambda>d s. (err, acts d (job_calls j) s)) endpoint' (job_raw j) (fresh_state (Some c') n'))"
proof -
  have "finished_ok (j, err)"
    using pool_reachable_inv [OF assms(1)] assms(2) by (auto simp: pool_inv_def list_all_iff)
  then have "ledger_of (job_state j)
      = ledger_of (handle_raw l' (\<lambda>d s. (err, acts d (job_calls j) s)) endpoint' (job_raw j) (fresh_state (Some c') n'))"
    by (simp only: finished_ok_def sequential_ledger fst_conv snd_conv)
  then show ?thesis by (simp add: ledger_of_def)
qed

theorem pool_refines_sequential_witness:
  "\<exists>j p. (pool_step ex_lib ''q'' 1)\<^sup>*\<^sup>* (idle_pool 1 2) p \<and> pl_finished p = [(j, None)] \<and> ds_wire (job_state j)
    = ds_wire (handle_raw ex_lib (\<lambda>d s. (None, acts d [DoNack True] s)) ''q'' (ex_raw ''c'') (fresh_state (Some 7) 9))"
proof -
  obtain j p where t: "(pool_step ex_lib ''q'' 1)\<^sup>*\<^sup>* (idle_pool 1 2) p" "pl_finished p = [(j, None)]"
      "job_calls j = [DoNack True]" "job_raw j = ex_raw ''c''"
    using pool_trace by blast
  have "(j, None) \<in> set (pl_finished p)" using t(2) by simp
  from pool_refines_sequential [OF t(1) this, of ex_lib "''q''" 7 9] show ?thesis
    unfolding t(3,4) using t(1,2) by blast
qed

text \<open>
  draining. As long as the concurrency is positive, which \<^verbatim>\<open>Consume\<close> ensures, the loop never
  blocks itself: from every reachable state all deliveries received so far can be handled
  to the end, each by one goroutine.
\<close>

theorem pool_drains:
  assumes "(pool_step l endpoint cap)\<^sup>*\<^sup>* (idle_pool c n) p" and "cap = nat (cc_Concurrency (consume_defaults cfg))"
  shows "\<exists>q. (pool_step l endpoint cap)\<^sup>*\<^sup>* p q \<and> mset (map (job_raw \<circ> fst) (pl_finished q)) = mset (pl_received p)"
proof -
  have "0 < cap" by (simp add: assms(2) consume_defaults_def Let_def)
  then obtain c' where "cap = Suc c'" by (cases cap) auto
  then obtain q where q: "(pool_step l endpoint cap)\<^sup>*\<^sup>* p q" "backlog q = 0" "pl_received q = pl_received p"
    using pool_work.drains by blast
  have "pl_queue q = [] \<and> pl_held q = None \<and> pl_running q = []" using q(2) by (simp add: backlog_def split: if_splits)
  moreover have "mset (pl_received q) = mset (whereabouts q)"
    using pool_reachable_inv [OF rtranclp_trans [OF assms(1) q(1)]] by (simp add: pool_inv_def)
  ultimately show ?thesis using q(1,3) by (intro exI [of _ q]) (simp add: whereabouts_def)
qed

theorem pool_drains_witness:
  "\<exists>p q. (pool_step ex_lib ''q'' 1)\<^sup>*\<^sup>* (idle_pool 1 2) p \<and> (pool_step ex_lib ''q'' 1)\<^sup>*\<^sup>* p q
     \<and> mset (map (job_raw \<circ> fst) (pl_finished q)) = mset (pl_received p)"
proof -
  obtain j p where t: "(pool_step ex_lib ''q'' 1)\<^sup>*\<^sup>* (idle_pool 1 2) p" using pool_trace by blast
  have "1 = nat (cc_Concurrency (consume_defaults \<lparr>cc_Endpoint = ''q'', cc_Handler = None, cc_Timeout = 0, cc_Concurrency = 0\<rparr>))"
    by (simp add: consume_defaults_def Let_def)
  from pool_drains [OF t this] t show ?thesis by blast
qed

end
