(* ===== verification/AmqpLoops.thy ===== *)
theory AmqpLoops
  imports Amqp
begin

text \<open>
  The two background loops of \<^verbatim>\<open>rpc/amqp\<close> as a whole: \<^verbatim>\<open>watchdogLoop\<close>, built from the rounds of
  theory \<open>Amqp\<close>, and the life of one subscription, in which \<^verbatim>\<open>runWithReconnect\<close> interleaves with
  \<^verbatim>\<open>Close\<close> and with the broker.
\<close>

section \<open>The watchdog\<close>

text \<open>
  \<open>drift k\<close> is what others do to the transport between round \<open>k\<close> and the next: while the watchdog
  waits for its timer or for the connection to close. The result is the delays waited, how
  the loop ended (\<open>None\<close>: still running when the fuel is used up) and the state.
\<close>

fun watchdogLoop :: "nat \<Rightarrow> 'n lib \<Rightarrow> (nat \<Rightarrow> 'n transport \<Rightarrow> 'n transport) \<Rightarrow> nat \<Rightarrow> int \<Rightarrow> 'n transport
    \<Rightarrow> int list \<times> unit outcome option \<times> 'n transport" where
  "watchdogLoop 0 l drift k backoff t = ([], None, t)"
| "watchdogLoop (Suc fuel) l drift k backoff t =
     (case watch_round l backoff t of
        (Returns WatchExit, t1) \<Rightarrow> ([], Some (Returns ()), t1)
      | (Returns (WatchAgain b), t1) \<Rightarrow> watchdogLoop fuel l drift (Suc k) b (drift k t1)
      | (Returns (WatchWait w b), t1) \<Rightarrow>
          (let (ws, r) = watchdogLoop fuel l drift (Suc k) b (drift k t1) in (w # ws, r))
      | (Deadlock, t1) \<Rightarrow> ([], Some Deadlock, t1)
      | (Panics m, t1) \<Rightarrow> ([], Some (Panics m), t1))"

lemma watch_round_fails:
  assumes "\<not> t_closed t" "t_dialFn t" "\<not> conn_live l t" "l_dial l (t_net t) = (Inl e, n1)"
  shows "watch_round l b t = (Returns (WatchWait b (next_backoff b)), t\<lparr>t_net := n1\<rparr>)"
  using assms by (simp add: watch_round_def reconnect_def call_def)

lemma watch_round_connects:
  assumes "\<not> t_closed t" "t_dialFn t" "\<not> conn_live l t" "\<not> t_pubMu t" "l_dial l (t_net t) = (Inr c, n1)"
  shows "\<exists>t'. watch_round l b t = (Returns (WatchAgain second), t') \<and> t_conn t' = Some c \<and> t_pubCh t' = None"
proof -
  have "call (l_dial l) t = (Inr c, t\<lparr>t_net := n1\<rparr>)" by (simp add: call_def assms(5))
  then show ?thesis using assms(1-4) by (simp add: watch_round_def reconnect_def Let_def)
qed

lemma watchdog_outage:
  assumes "\<not> t_closed t" "t_dialFn t" "\<not> t_pubMu t" "t_net t = nets k" "k \<le> n"
    and "\<And>j. j \<le> n \<Longrightarrow> \<not> conn_live l (t\<lparr>t_net := nets j\<rparr>)"
    and "\<And>j. j < n \<Longrightarrow> l_dial l (nets j) = (Inl (errs j), nets (Suc j))"
    and "l_dial l (nets n) = (Inr c, nets (Suc n))"
  shows "\<exists>t'. watchdogLoop (Suc (n - k)) l (\<lambda>_ t. t) k ((next_backoff ^^ k) second) t
      = (map (\<lambda>j. (next_backoff ^^ j) second) [k..<n], None, t') \<and> t_conn t' = Some c \<and> t_pubCh t' = None"
  using assms(1-6)
proof (induction "n - k" arbitrary: k t)
  case 0
  then have k: "k = n" by simp
  have "t\<lparr>t_net := nets n\<rparr> = t" using "0.prems"(4) [symmetric] k by simp
  then have "\<not> conn_live l t" using "0.prems"(6) [of n] by simp
  then obtain t' where "watch_round l ((next_backoff ^^ k) second) t = (Returns (WatchAgain second), t')"
      "t_conn t' = Some c" "t_pubCh t' = None"
    using watch_round_connects [of t l c "nets (Suc n)"] "0.prems" assms(8) k by auto
  then show ?case using k by simp
next
  case (Suc d)
  have k: "k < n" using Suc.hyps(2) by simp
  let ?t = "t\<lparr>t_net := nets (Suc k)\<rparr>"
  have "t\<lparr>t_net := nets k\<rparr> = t" using Suc.prems(4) [symmetric] by simp
  then have "\<not> conn_live l t" using Suc.prems(6) [of k] k by simp
  then have wr: "watch_round l ((next_backoff ^^ k) second) t
      = (Returns (WatchWait ((next_backoff ^^ k) second) ((next_backoff ^^ Suc k) second)), ?t)"
    using watch_round_fails [of t l "errs k" "nets (Suc k)"] Suc.prems assms(7) [OF k] by simp
  have "\<exists>t'. watchdogLoop (Suc (n - Suc k)) l (\<lambda>_ t. t) (Suc k) ((next_backoff ^^ Suc k) second) ?t
      = (map (\<lambda>j. (next_backoff ^^ j) second) [Suc k..<n], None, t') \<and> t_conn t' = Some c \<and> t_pubCh t' = None"
    using Suc.prems Suc.hyps(2) k by (intro Suc.hyps(1)) simp_all
  then obtain t' where t': "watchdogLoop (Suc (n - Suc k)) l (\<lambda>_ t. t) (Suc k) ((next_backoff ^^ Suc k) second) ?t
      = (map (\<lambda>j. (next_backoff ^^ j) second) [Suc k..<n], None, t')" "t_conn t' = Some c" "t_pubCh t' = None" by blast
  have m: "Suc (n - k) = Suc (Suc (n - Suc k))" using k by simp
  have "watchdogLoop (Suc (n - k)) l (\<lambda>_ t. t) k ((next_backoff ^^ k) second) t
      = (map (\<lambda>j. (next_backoff ^^ j) second) [k..<n], None, t')"
    unfolding m by (subst watchdogLoop.simps(2)) (simp only: wr prod.case outcome.case watch_result.case t'(1) Let_def,
        simp add: upt_conv_Cons [OF k])
  then show ?case using t'(2,3) by blast
qed


section \<open>The life of a subscription\<close>

text \<open>
  Where \<^verbatim>\<open>runWithReconnect\<close> is: in \<^verbatim>\<open>deliverLoop\<close> on a channel; checking \<^verbatim>\<open>done\<close> after it; waiting for
  the timer; in \<^verbatim>\<open>setupConsumer\<close>; about to store the new channel; returned. \<open>closer\<close> is how far the
  body of \<^verbatim>\<open>Close\<close>, which runs once, has got: it closes the current channel and then \<^verbatim>\<open>done\<close>.
\<close>

datatype sub_pc = Delivering nat | Checking | Waiting | SettingUp | Swapping nat | Stopped

datatype closer = NotClosed | ChannelClosed | CloseReturned

record sub_life =
  sl_pc :: sub_pc
  sl_ch :: nat
  sl_open :: "nat set"
  sl_next :: nat
  sl_done :: bool
  sl_closer :: closer

inductive sub_step :: "sub_life \<Rightarrow> sub_life \<Rightarrow> bool" where
  deliveries_end: "sl_pc s = Delivering c \<Longrightarrow> c \<notin> sl_open s \<Longrightarrow> sub_step s (s\<lparr>sl_pc := Checking\<rparr>)"
| checked_done: "sl_pc s = Checking \<Longrightarrow> sl_done s \<Longrightarrow> sub_step s (s\<lparr>sl_pc := Stopped\<rparr>)"
| checked_drop: "sl_pc s = Checking \<Longrightarrow> \<not> sl_done s \<Longrightarrow> sub_step s (s\<lparr>sl_pc := Waiting\<rparr>)"
| wait_done: "sl_pc s = Waiting \<Longrightarrow> sl_done s \<Longrightarrow> sub_step s (s\<lparr>sl_pc := Stopped\<rparr>)"
| wait_timer: "sl_pc s = Waiting \<Longrightarrow> sub_step s (s\<lparr>sl_pc := SettingUp\<rparr>)"
| setup_fails: "sl_pc s = SettingUp \<Longrightarrow> sub_step s (s\<lparr>sl_pc := Waiting\<rparr>)"
| setup_works: "sl_pc s = SettingUp \<Longrightarrow>
    sub_step s (s\<lparr>sl_pc := Swapping (sl_next s), sl_open := insert (sl_next s) (sl_open s), sl_next := Suc (sl_next s)\<rparr>)"
| swaps: "sl_pc s = Swapping c \<Longrightarrow> sub_step s (s\<lparr>sl_pc := Delivering c, sl_ch := c\<rparr>)"
| broker_drops: "sub_step s (s\<lparr>sl_open := sl_open s - {c}\<rparr>)"
| close_channel: "sl_closer s = NotClosed \<Longrightarrow>
    sub_step s (s\<lparr>sl_closer := ChannelClosed, sl_open := sl_open s - {sl_ch s}\<rparr>)"
| close_done: "sl_closer s = ChannelClosed \<Longrightarrow> sub_step s (s\<lparr>sl_closer := CloseReturned, sl_done := True\<rparr>)"

inductive_cases sub_stepE: "sub_step s s'"

text \<open>Right after \<^verbatim>\<open>Consume\<close>.\<close>

definition consuming :: sub_life where
  "consuming = \<lparr>sl_pc = Delivering 0, sl_ch = 0, sl_open = {0}, sl_next = 1, sl_done = False, sl_closer = NotClosed\<rparr>"

definition own_channel :: "sub_pc \<Rightarrow> nat set" where
  "own_channel pc = (case pc of Delivering c \<Rightarrow> {c} | Swapping c \<Rightarrow> {c} | _ \<Rightarrow> {})"

definition sub_inv :: "sub_life \<Rightarrow> bool" where
  "sub_inv s \<longleftrightarrow> sl_open s \<subseteq> own_channel (sl_pc s) \<and> (sl_done s \<longleftrightarrow> sl_closer s = CloseReturned)
     \<and> (sl_pc s = Stopped \<longrightarrow> sl_done s)"

lemma sub_inv_step: "sub_step s s' \<Longrightarrow> sub_inv s \<Longrightarrow> sub_inv s'"
  by (erule sub_stepE) (auto simp: sub_inv_def own_channel_def)

interpretation sub_loop: step_invariant sub_step "\<lambda>s. s = consuming" sub_inv
  by unfold_locales (auto intro: sub_inv_step, simp add: sub_inv_def consuming_def own_channel_def)

lemmas sub_reachable_inv = sub_loop.reached [OF _ refl]


section \<open>Properties\<close>

text \<open>
  \<^bold>\<open>C23\<close>: the watchdog brings the connection back. When the connection is dead and the first \<open>n\<close> dials
  fail, it dials once per round, waits 1, 2, 4, 8, 16, 30, 30 ... seconds after the failures
  and has installed the new connection, with the stale publish channel dropped, after
  \<open>n + 1\<close> rounds; it goes on watching.
\<close>

theorem watchdog_recovers:
  assumes "\<not> t_closed t" and "t_dialFn t" and "\<not> t_pubMu t" and "t_net t = nets 0"
    and "\<And>j. j \<le> n \<Longrightarrow> \<not> conn_live l (t\<lparr>t_net := nets j\<rparr>)"
    and "\<And>j. j < n \<Longrightarrow> l_dial l (nets j) = (Inl (errs j), nets (Suc j))"
    and "l_dial l (nets n) = (Inr c, nets (Suc n))"
  shows "\<exists>t'. watchdogLoop (Suc n) l (\<lambda>_ t. t) 0 second t = (map (\<lambda>j. min (2 ^ j) 30 * second) [0..<n], None, t')
    \<and> t_conn t' = Some c \<and> t_pubCh t' = None"
  using watchdog_outage [where k = 0 and nets = nets and errs = errs, OF assms(1-4) _ assms(5-7)]
  by (simp add: next_backoff_wait del: watchdogLoop.simps)

text \<open>A broker that is down for two dials; its state counts them.\<close>

definition flaky_lib :: "nat lib" where
  "flaky_lib = ex_lib\<lparr>l_dial := (\<lambda>n. if n < 2 then (Inl (ErrorText ''connection refused''), Suc n) else (Inr 9, Suc n)),
     l_ConnIsClosed := (\<lambda>c n. c \<noteq> 9)\<rparr>"

theorem watchdog_recovers_witness:
  "\<exists>t'. watchdogLoop 3 flaky_lib (\<lambda>_ t. t) 0 second (SetDialFunc True (New_transport (Some 0) 0))
     = ([second, 2 * second], None, t') \<and> t_conn t' = Some 9"
proof -
  have "\<exists>t'. watchdogLoop (Suc 2) flaky_lib (\<lambda>_ t. t) 0 second (SetDialFunc True (New_transport (Some 0) 0))
      = (map (\<lambda>j. min (2 ^ j) 30 * second) [0..<2], None, t') \<and> t_conn t' = Some 9 \<and> t_pubCh t' = None"
    by (rule watchdog_recovers [where nets = id and errs = "\<lambda>_. ErrorText ''connection refused''"])
      (simp_all add: SetDialFunc_def startWatchdog_def New_transport_def conn_live_def flaky_lib_def)
  moreover have "map (\<lambda>j. min (2 ^ j) 30 * second) [0..<2] = [second, 2 * second]"
    by (simp add: upt_rec second_def)
  ultimately show ?thesis by (auto simp: numeral_3_eq_3 numeral_2_eq_2 simp del: watchdogLoop.simps)
qed

text \<open>
  one consumer at a time. However outages, retries and \<^verbatim>\<open>Close\<close> interleave, a subscription
  never has two open channels, so the broker never sees it consume twice; and its loop stops
  only after \<^verbatim>\<open>Close\<close> has returned.
\<close>

theorem subscription_one_channel:
  assumes "sub_step\<^sup>*\<^sup>* consuming s"
  shows "card (sl_open s) \<le> 1 \<and> (sl_pc s = Stopped \<longrightarrow> sl_closer s = CloseReturned \<and> sl_open s = {})"
proof -
  have "sub_inv s" by (rule sub_reachable_inv [OF assms])
  moreover have "card (own_channel pc) \<le> 1" "finite (own_channel pc)" for pc
    by (simp_all add: own_channel_def split: sub_pc.split)
  ultimately show ?thesis by (auto simp: sub_inv_def own_channel_def intro: card_mono [THEN order_trans])
qed

lemma outage_run:
  "sub_step\<^sup>*\<^sup>* consuming (consuming\<lparr>sl_pc := SettingUp, sl_open := {}\<rparr>)"
proof -
  have "sub_step consuming (consuming\<lparr>sl_open := {}\<rparr>)" using broker_drops [of consuming 0] by (simp add: consuming_def)
  moreover have "sub_step (consuming\<lparr>sl_open := {}\<rparr>) (consuming\<lparr>sl_pc := Checking, sl_open := {}\<rparr>)"
    using deliveries_end [of "consuming\<lparr>sl_open := {}\<rparr>" 0] by (simp add: consuming_def)
  moreover have "sub_step (consuming\<lparr>sl_pc := Checking, sl_open := {}\<rparr>) (consuming\<lparr>sl_pc := Waiting, sl_open := {}\<rparr>)"
    using checked_drop [of "consuming\<lparr>sl_pc := Checking, sl_open := {}\<rparr>"] by (simp add: consuming_def)
  moreover have "sub_step (consuming\<lparr>sl_pc := Waiting, sl_open := {}\<rparr>) (consuming\<lparr>sl_pc := SettingUp, sl_open := {}\<rparr>)"
    using wait_timer [of "consuming\<lparr>sl_pc := Waiting, sl_open := {}\<rparr>"] by (simp add: consuming_def)
  ultimately show ?thesis by (meson converse_rtranclp_into_rtranclp rtranclp.rtrancl_refl)
qed

theorem subscription_one_channel_witness:
  "card (sl_open (consuming\<lparr>sl_pc := SettingUp, sl_open := {}\<rparr>)) \<le> 1"
  using subscription_one_channel [OF outage_run] by blast

text \<open>
  \<^bold>\<open>C24\<close>: a closed subscription that keeps consuming. When \<^verbatim>\<open>Close\<close> runs while the loop is in
  \<^verbatim>\<open>setupConsumer\<close>, it closes the old channel; the loop then installs its new channel without
  looking at \<^verbatim>\<open>done\<close> and delivers from it. \<^verbatim>\<open>Close\<close> has returned, and only the broker or the end of the
  connection can stop the consumer: no step of the loop or of \<^verbatim>\<open>Close\<close> is enabled any more.
\<close>

theorem closed_subscription_keeps_consuming:
  "\<exists>s. sub_step\<^sup>*\<^sup>* consuming s \<and> sl_closer s = CloseReturned \<and> sl_pc s = Delivering 1 \<and> 1 \<in> sl_open s
    \<and> Collect (sub_step s) \<subseteq> range (\<lambda>c. s\<lparr>sl_open := sl_open s - {c}\<rparr>)"
proof -
  let ?s0 = "consuming\<lparr>sl_pc := SettingUp, sl_open := {}\<rparr>"
  let ?s1 = "?s0\<lparr>sl_closer := ChannelClosed\<rparr>"
  let ?s2 = "?s1\<lparr>sl_closer := CloseReturned, sl_done := True\<rparr>"
  let ?s3 = "?s2\<lparr>sl_pc := Swapping 1, sl_open := {1}, sl_next := 2\<rparr>"
  let ?s4 = "?s3\<lparr>sl_pc := Delivering 1, sl_ch := 1\<rparr>"
  have "sub_step ?s0 ?s1" using close_channel [of ?s0] by (simp add: consuming_def)
  moreover have "sub_step ?s1 ?s2" by (rule close_done) simp
  moreover have "sub_step ?s2 ?s3" using setup_works [of ?s2] by (simp add: consuming_def numeral_2_eq_2)
  moreover have "sub_step ?s3 ?s4" by (rule swaps) simp
  ultimately have "sub_step\<^sup>*\<^sup>* ?s0 ?s4" by (meson converse_rtranclp_into_rtranclp rtranclp.rtrancl_refl)
  then have reach: "sub_step\<^sup>*\<^sup>* consuming ?s4" using outage_run by (rule rtranclp_trans [rotated])
  have "Collect (sub_step ?s4) \<subseteq> range (\<lambda>c. ?s4\<lparr>sl_open := sl_open ?s4 - {c}\<rparr>)"
    by (rule subsetI, drule CollectD, erule sub_stepE) (auto simp: consuming_def)
  then show ?thesis using reach by (intro exI [of _ ?s4]) simp
qed

end
