(* ===== verification/AmqpLife.thy ===== *)
theory AmqpLife
  imports Amqp
begin

text \<open>
  The life of an AMQP transport (\<^verbatim>\<open>rpc/amqp/amqp.go\<close>): every operation that its users, its
  subscriptions and its watchdog run on it, in any order, with the broker changing in between.
  Every state such a history reaches is well formed: no subscription escapes the transport's
  list, each has a queue and a channel, and a transport whose \<^verbatim>\<open>Close\<close> returned holds nothing and
  never comes back.
\<close>

section \<open>Histories\<close>

datatype 'n life_op =
    OpConsume "unit consumer_config" | OpRequest string "wait_event list" request | OpPublish request
  | OpClose | OpSubClose nat | OpRebind nat int | OpWatch int
  | OpSetDialFunc bool | OpSetEndpointPrefix string | OpBroker 'n

text \<open>One attempt of the inner loop of \<^verbatim>\<open>runWithReconnect\<close>.\<close>

definition rebind_once :: "'n lib \<Rightarrow> nat \<Rightarrow> int \<Rightarrow> 'n transport \<Rightarrow> 'n transport" where
  "rebind_once l i conc t =
     (case setupConsumer l (sub_endpoint (t_store t i)) conc t of
        (Returns (Inr ch), t1) \<Rightarrow> t1\<lparr>t_store := (t_store t1)(i := (t_store t1 i)\<lparr>sub_ch := Some ch\<rparr>)\<rparr>
      | (_, t1) \<Rightarrow> t1)"

text \<open>A subscription exists once \<^verbatim>\<open>Consume\<close> has returned it; \<open>OpBroker\<close> is a change on the broker's side.\<close>

fun run_op :: "'n lib \<Rightarrow> 'n life_op \<Rightarrow> 'n transport \<Rightarrow> 'n transport" where
  "run_op l (OpConsume cfg) t = snd (Consume l cfg t)"
| "run_op l (OpRequest uuid events req) t = snd (Request l uuid events req t)"
| "run_op l (OpPublish req) t = snd (Publish l req t)"
| "run_op l OpClose t = snd (Close l t)"
| "run_op l (OpSubClose i) t = (if i < t_nextSub t then snd (sub_Close l i t) else t)"
| "run_op l (OpRebind i conc) t = (if i < t_nextSub t then rebind_once l i conc t else t)"
| "run_op l (OpWatch backoff) t = snd (watch_round l backoff t)"
| "run_op l (OpSetDialFunc f) t = SetDialFunc f t"
| "run_op l (OpSetEndpointPrefix p) t = SetEndpointPrefix p t"
| "run_op l (OpBroker n) t = t\<lparr>t_net := n\<rparr>"


section \<open>What the internal operations leave alone\<close>

definition outline :: "'n transport \<Rightarrow> (nat list \<times> (nat \<Rightarrow> subscription) \<times> bool \<times> bool \<times> nat \<times> string) \<times> bool \<times> goerr option" where
  "outline t = (frame t, t_watchdog t, t_closeErr t)"

definition skeleton :: "'n transport \<Rightarrow> ((nat list \<times> (nat \<Rightarrow> subscription) \<times> bool \<times> bool \<times> nat \<times> string) \<times> bool \<times> goerr option) \<times> bool" where
  "skeleton t = (outline t, t_pubMu t)"

lemma outline_free [simp]: "outline (t\<lparr>t_pubMu := b\<rparr>) = outline t" "outline (t\<lparr>t_conn := c\<rparr>) = outline t"
  "outline (t\<lparr>t_pubCh := p\<rparr>) = outline t" "outline (t\<lparr>t_net := n\<rparr>) = outline t"
  by (simp_all add: outline_def frame_def)

lemma call_skeleton: "call f t = (x, t') \<Longrightarrow> skeleton t' = skeleton t"
  by (auto simp: skeleton_def call_def Let_def split: prod.splits)

lemma skeleton_snd_call [simp]: "skeleton (snd (call f t)) = skeleton t"
  by (rule call_skeleton [of f t "fst (call f t)"]) simp

lemma skeleton_call_opt [simp]: "skeleton (call_opt f x t) = skeleton t"
  by (simp add: call_opt_def split: option.split)

lemma skeleton_conn [simp]: "skeleton (t\<lparr>t_conn := c\<rparr>) = skeleton t" "skeleton (t\<lparr>t_pubCh := p\<rparr>) = skeleton t"
  "skeleton (t\<lparr>t_net := n\<rparr>) = skeleton t"
  by (simp_all add: skeleton_def)

lemma reconnect_skeleton: "reconnect l t = (x, t') \<Longrightarrow> skeleton t' = skeleton t"
  by (auto simp: reconnect_def Let_def split: sum.splits prod.splits if_splits dest!: call_skeleton)

lemma connection_skeleton: "connectionForUse l t = (x, t') \<Longrightarrow> skeleton t' = skeleton t"
  by (auto simp: connectionForUse_def split: if_splits dest: reconnect_skeleton)

lemma channel_skeleton: "open_channel l c t = (x, t') \<Longrightarrow> skeleton t' = skeleton t"
  by (auto simp: open_channel_def Let_def split: option.splits prod.splits dest!: call_skeleton)

lemmas skeletons = call_skeleton connection_skeleton channel_skeleton

lemma setup_skeleton: "setupConsumer l q c t = (r, t') \<Longrightarrow> skeleton t' = skeleton t"
  unfolding setupConsumer_def and_then_def
  by (auto split: prod.splits outcome.splits sum.splits option.splits dest!: skeletons)

lemma Request_skeleton: "Request l uuid events req t = (r, t') \<Longrightarrow> skeleton t' = skeleton t"
  unfolding Request_def and_then_def Let_def
  by (auto split: if_splits prod.splits outcome.splits sum.splits option.splits dest!: skeletons)

text \<open>
  A publish ends with \<^verbatim>\<open>pubMu\<close> free, unless it blocked.
\<close>

lemma with_pubMu_outline:
  assumes "with_pubMu body t = (r, t')" and "\<And>u x u'. body u = (x, u') \<Longrightarrow> skeleton u' = skeleton u"
  shows "outline t' = outline t \<and> (t_pubMu t \<longrightarrow> t' = t) \<and> (\<not> t_pubMu t \<longrightarrow> t_pubMu t' \<longrightarrow> r = Deadlock)"
proof (cases "t_pubMu t")
  case True
  then show ?thesis using assms(1) by (simp add: with_pubMu_def)
next
  case False
  obtain x u where b: "body (t\<lparr>t_pubMu := True\<rparr>) = (x, u)" by force
  from assms(2) [OF this] have "outline u = outline t" by (simp add: skeleton_def)
  then show ?thesis using assms(1) False b by (cases x) (auto simp: with_pubMu_def)
qed

lemma publishChannel_outline:
  assumes "publishChannel l t = (r, t')"
  shows "outline t' = outline t \<and> (t_pubMu t \<longrightarrow> t' = t) \<and> (\<not> t_pubMu t \<longrightarrow> t_pubMu t' \<longrightarrow> r = Deadlock)"
  using assms unfolding publishChannel_def and_then_def
  by (rule with_pubMu_outline)
    (auto split: prod.splits outcome.splits sum.splits option.splits if_splits dest!: skeletons)

lemma Publish_outline:
  assumes "Publish l req t = (r, t')"
  shows "outline t' = outline t \<and> (t_pubMu t \<longrightarrow> t_pubMu t')"
  using assms publishChannel_outline [of l t] unfolding Publish_def and_then_def
  by (fastforce split: if_splits prod.splits outcome.splits sum.splits simp: Let_def skeleton_def dest!: call_skeleton)


section \<open>Well-formed transports\<close>

text \<open>
  The transport's list has no duplicates and every subscription that is not closed; each
  subscription has a queue name and a channel; the error of closing is set by closing only; the
  watchdog runs where there is a \<^verbatim>\<open>DialFunc\<close>.
\<close>

definition tracked :: "'n transport \<Rightarrow> bool" where
  "tracked t \<longleftrightarrow> distinct (t_subs t) \<and> set (t_subs t) \<subseteq> {..<t_nextSub t}
     \<and> (\<forall>i. \<not> sub_done (t_store t i) \<longrightarrow> i \<in> set (t_subs t))
     \<and> (\<forall>i < t_nextSub t. sub_endpoint (t_store t i) \<noteq> [] \<and> sub_ch (t_store t i) \<noteq> None)
     \<and> (t_closeErr t \<noteq> None \<longrightarrow> t_closed t) \<and> (t_watchdog t \<longleftrightarrow> t_dialFn t)"

text \<open>A closed transport that holds nothing.\<close>

definition sealed :: "'n transport \<Rightarrow> bool" where
  "sealed t \<longleftrightarrow> t_closed t \<and> t_conn t = None \<and> t_pubCh t = None \<and> t_subs t = [] \<and> \<not> t_pubMu t"

definition well_formed :: "'n transport \<Rightarrow> bool" where
  "well_formed t \<longleftrightarrow> tracked t \<and> (t_closed t \<and> \<not> t_pubMu t \<longrightarrow> sealed t)"

lemma tracked_outline: "outline t' = outline t \<Longrightarrow> tracked t' \<longleftrightarrow> tracked t"
  by (simp add: tracked_def outline_def frame_def)

lemma well_formed_frame:
  assumes "well_formed t" "outline t' = outline t" "t_pubMu t \<Longrightarrow> t_pubMu t'" "sealed t \<Longrightarrow> sealed t'"
  shows "well_formed t'"
  using assms tracked_outline [OF assms(2)] by (auto simp: well_formed_def outline_def frame_def)

lemma sealed_refuses:
  assumes "sealed t"
  shows "connectionForUse l t = (Returns (Inl ErrClosed), t)" "snd (Publish l req t) = t"
    "snd (Request l uuid events req t) = t" "snd (Consume l cfg t) = t" "rebind_once l i conc t = t"
    "snd (watch_round l b t) = t" "snd (Close l t) = t"
proof -
  have c: "connectionForUse l u = (Returns (Inl ErrClosed), u)" if "t_closed u" "t_conn u = None" for u :: "'a transport"
    using that by (simp add: connectionForUse_def conn_live_def)
  show "connectionForUse l t = (Returns (Inl ErrClosed), t)" using assms c by (simp add: sealed_def)
  show "snd (Publish l req t) = t" "snd (Request l uuid events req t) = t" "snd (Consume l cfg t) = t" "rebind_once l i conc t = t"
    "snd (watch_round l b t) = t" "snd (Close l t) = t"
    using assms c
    by (simp_all add: sealed_def Publish_def publishChannel_def with_pubMu_def Request_def Consume_def setupConsumer_def
        rebind_once_def watch_round_def Close_def Let_def)
qed

lemma sealed_op:
  assumes "sealed t"
  shows "sealed (run_op l op t)"
proof (cases op)
  case (OpSubClose i)
  have "t_pubCh (snd (sub_Close l i t)) = t_pubCh t"
    by (auto simp: sub_Close_def Let_def call_def split: option.split prod.split)
  then show ?thesis using assms OpSubClose by (simp add: sealed_def)
qed (use assms in \<open>simp_all add: sealed_refuses\<close>, simp_all add: sealed_def SetDialFunc_def startWatchdog_def SetEndpointPrefix_def)

lemma Consume_well_formed:
  assumes "well_formed t"
  shows "well_formed (snd (Consume l cfg t))"
proof (cases "sealed t \<or> cc_Endpoint cfg = [] \<or> Option.is_none (cc_Handler cfg)")
  case True
  then have "snd (Consume l cfg t) = t" by (elim disjE) (simp add: sealed_refuses, simp_all add: Consume_def)
  then show ?thesis using assms by simp
next
  case False
  let ?q = "t_endpointPrefix t @ cc_Endpoint (consume_defaults cfg)"
  obtain x t1 where su: "setupConsumer l ?q (cc_Concurrency (consume_defaults cfg)) t = (x, t1)" by force
  then have sk: "skeleton t1 = skeleton t" by (rule setup_skeleton)
  then have t1: "well_formed t1" using False by (intro well_formed_frame [OF assms(1)]) (auto simp: skeleton_def)
  have q: "?q \<noteq> []" using False by (simp add: consume_defaults_def Let_def)
  show ?thesis
  proof (cases "\<exists>ch. x = Returns (Inr ch)")
    case True
    then obtain ch where x: "x = Returns (Inr ch)" by blast
    have "\<not> (t_closed t1 \<and> \<not> t_pubMu t1)"
      using assms False sk by (auto simp: well_formed_def skeleton_def outline_def frame_def)
    moreover have "t_nextSub t1 \<notin> set (t_subs t1)" using t1 by (auto simp: well_formed_def tracked_def)
    ultimately show ?thesis
      using t1 q False su x by (auto simp: Consume_def Let_def well_formed_def tracked_def less_Suc_eq)
  next
    case no: False
    then have "snd (Consume l cfg t) = t1"
      using False su by (auto simp: Consume_def Let_def and_then_def split: outcome.splits sum.splits)
    then show ?thesis using t1 by simp
  qed
qed

lemma sub_Close_outline:
  "t_nextSub (snd (sub_Close l i t)) = t_nextSub t" "t_closeErr (snd (sub_Close l i t)) = t_closeErr t"
  "t_watchdog (snd (sub_Close l i t)) = t_watchdog t" "t_dialFn (snd (sub_Close l i t)) = t_dialFn t"
  "sub_endpoint (t_store (snd (sub_Close l i t)) j) = sub_endpoint (t_store t j)"
  "sub_ch (t_store (snd (sub_Close l i t)) j) = sub_ch (t_store t j)"
  by (auto simp: sub_Close_def Let_def call_def split: option.split prod.split)

lemma sub_Close_tracked: "tracked t \<Longrightarrow> tracked (snd (sub_Close l i t))"
  by (simp add: tracked_def sub_Close_outline)

lemma Close_well_formed:
  assumes "well_formed t"
  shows "well_formed (snd (Close l t))"
proof (cases "t_closed t")
  case True
  then show ?thesis using assms by (simp add: Close_def)
next
  case False
  let ?t1 = "t\<lparr>t_closed := True, t_subs := []\<rparr>"
  let ?t2 = "fold (\<lambda>i t. snd (sub_Close l i t)) (t_subs t) ?t1"
  let ?same = "\<lambda>u. (t_nextSub u, t_closeErr u, t_watchdog u, t_dialFn u, \<lambda>i. sub_endpoint (t_store u i), \<lambda>i. sub_ch (t_store u i))"
  have "?same (fold (\<lambda>i t. snd (sub_Close l i t)) ids u) = ?same u" for ids u
    by (induction ids arbitrary: u) (auto simp: sub_Close_outline)
  from this [of "t_subs t" ?t1] have t2: "tracked ?t2"
    using assms fold_amqp_sub_Close [of l "t_subs t" ?t1]
    by (simp add: well_formed_def tracked_def fun_eq_iff) blast
  show ?thesis
  proof (cases "t_pubMu ?t2")
    case True
    then show ?thesis using t2 False by (simp add: Close_def well_formed_def)
  next
    case free: False
    let ?t3 = "(call_opt (l_ChClose l) (t_pubCh ?t2) ?t2)\<lparr>t_pubCh := None\<rparr>"
    let ?c = "case t_conn ?t3 of None \<Rightarrow> (None, ?t3\<lparr>t_conn := None\<rparr>) | Some c \<Rightarrow> call (l_ConnClose l c) (?t3\<lparr>t_conn := None\<rparr>)"
    obtain err t5 where c: "?c = (err, t5)" by force
    then have close: "snd (Close l t) = t5\<lparr>t_closeErr := err\<rparr>" using False free by (simp add: Close_def Let_def)
    have "skeleton t5 = skeleton ?t3" "t_conn t5 = None" "t_pubCh t5 = None"
      using c by (auto split: option.splits dest: call_skeleton simp: call_def Let_def split: prod.splits)
    then have "skeleton t5 = skeleton ?t2" by simp
    then have "outline t5 = outline ?t2" "\<not> t_pubMu t5" using free by (simp_all add: skeleton_def)
    moreover from this(1) have "t_closed t5" "t_subs t5 = []"
      using fold_amqp_sub_Close [of l "t_subs t" ?t1] by (auto simp: outline_def frame_def)
    moreover have "tracked t5" using t2 tracked_outline calculation(1) by blast
    ultimately show ?thesis
      unfolding close using \<open>t_conn t5 = None\<close> \<open>t_pubCh t5 = None\<close>
      by (simp add: well_formed_def sealed_def tracked_def)
  qed
qed

lemma rebind_well_formed:
  assumes "well_formed t" "i < t_nextSub t"
  shows "well_formed (rebind_once l i conc t)"
proof (cases "sealed t")
  case True
  then show ?thesis using assms(1) by (simp add: sealed_refuses)
next
  case False
  obtain x t1 where su: "setupConsumer l (sub_endpoint (t_store t i)) conc t = (x, t1)" by force
  then have sk: "skeleton t1 = skeleton t" by (rule setup_skeleton)
  then have t1: "well_formed t1" using False by (intro well_formed_frame [OF assms(1)]) (auto simp: skeleton_def)
  have "\<not> (t_closed t1 \<and> \<not> t_pubMu t1)"
    using assms(1) False sk by (auto simp: well_formed_def skeleton_def outline_def frame_def)
  then show ?thesis
    using t1 su by (auto simp: rebind_once_def well_formed_def tracked_def split: outcome.split sum.split)
qed

lemma run_op_well_formed:
  assumes "well_formed t"
  shows "well_formed (run_op l op t)"
proof (cases op)
  case (OpRequest uuid events req)
  obtain r t' where run: "Request l uuid events req t = (r, t')" by force
  then have "skeleton t' = skeleton t" by (rule Request_skeleton)
  moreover have "sealed t \<Longrightarrow> t' = t" using sealed_refuses(3) [of t l uuid events req] run by simp
  ultimately show ?thesis using OpRequest run by (auto simp: skeleton_def intro: well_formed_frame [OF assms])
next
  case (OpPublish req)
  obtain r t' where run: "Publish l req t = (r, t')" by force
  moreover have "sealed t \<Longrightarrow> t' = t" using sealed_refuses(2) [of t l req] run by simp
  ultimately show ?thesis using OpPublish Publish_outline [OF run] by (auto intro: well_formed_frame [OF assms])
next
  case (OpWatch b)
  obtain r t' where run: "watch_round l b t = (r, t')" by force
  then have "skeleton t' = skeleton t"
    by (auto simp: watch_round_def and_then_def split: if_splits prod.splits outcome.splits sum.splits dest!: reconnect_skeleton)
  moreover have "sealed t \<Longrightarrow> t' = t" using sealed_refuses(6) [of t l b] run by simp
  ultimately show ?thesis using OpWatch run by (auto simp: skeleton_def intro: well_formed_frame [OF assms])
next
  case (OpSubClose i)
  have "t_pubCh (snd (sub_Close l i t)) = t_pubCh t"
    by (auto simp: sub_Close_def Let_def call_def split: option.split prod.split)
  then show ?thesis using assms OpSubClose sub_Close_tracked [of t l i] by (auto simp: well_formed_def sealed_def)
next
  case (OpBroker n)
  then show ?thesis by (auto intro: well_formed_frame [OF assms] simp: sealed_def)
qed (use assms in \<open>auto simp: Consume_well_formed Close_well_formed rebind_well_formed\<close>,
    auto simp: well_formed_def tracked_def sealed_def SetDialFunc_def startWatchdog_def SetEndpointPrefix_def)

text \<open>A subscription keeps its number and its queue.\<close>

lemma run_op_keeps:
  assumes "i < t_nextSub t"
  shows "t_nextSub t \<le> t_nextSub (run_op l op t) \<and> sub_endpoint (t_store (run_op l op t) i) = sub_endpoint (t_store t i)"
proof (cases op)
  case (OpConsume cfg)
  obtain x t1 where su: "setupConsumer l (t_endpointPrefix t @ cc_Endpoint (consume_defaults cfg))
      (cc_Concurrency (consume_defaults cfg)) t = (x, t1)" by force
  from setupConsumer_frame [OF this] show ?thesis
    using assms OpConsume su by (auto simp: Consume_def Let_def and_then_def split: outcome.splits sum.splits)
next
  case (OpRequest uuid events req)
  then show ?thesis
    using Request_skeleton [of l uuid events req t] by (cases "Request l uuid events req t") (auto simp: skeleton_def outline_def frame_def)
next
  case (OpPublish req)
  then show ?thesis using Publish_outline [of l req t] by (cases "Publish l req t") (auto simp: outline_def frame_def)
next
  case (OpRebind j conc)
  obtain x t1 where su: "setupConsumer l (sub_endpoint (t_store t j)) conc t = (x, t1)" by force
  from setupConsumer_frame [OF this] show ?thesis
    using OpRebind su by (auto simp: rebind_once_def split: outcome.split sum.split)
next
  case (OpWatch b)
  have "frame (snd (watch_round l b t)) = frame t"
    by (auto simp: watch_round_def and_then_def skeleton_def outline_def split: prod.split outcome.split sum.split
        dest!: reconnect_skeleton)
  then show ?thesis using OpWatch by (simp add: frame_def)
next
  case OpClose
  let ?same = "\<lambda>u. (t_nextSub u, \<lambda>i. sub_endpoint (t_store u i))"
  have fold: "?same (fold (\<lambda>i t. snd (sub_Close l i t)) ids u) = ?same u" for ids u
    by (induction ids arbitrary: u) (auto simp: sub_Close_outline)
  have "?same (snd (Close l t)) = ?same t"
    using fold [of "t_subs t" "t\<lparr>t_closed := True, t_subs := []\<rparr>"]
    by (auto simp: Close_def Let_def call_def fun_eq_iff split: option.split prod.split)
  then show ?thesis using OpClose by (simp add: fun_eq_iff)
qed (auto simp: sub_Close_outline SetDialFunc_def startWatchdog_def SetEndpointPrefix_def)

lemma history_keeps:
  assumes "i < t_nextSub t"
  shows "t_nextSub t \<le> t_nextSub (fold (run_op l) ops t)
    \<and> sub_endpoint (t_store (fold (run_op l) ops t) i) = sub_endpoint (t_store t i)"
  using assms
proof (induction ops arbitrary: t)
  case (Cons op ops)
  note one = run_op_keeps [OF Cons.prems, of l op]
  then have "i < t_nextSub (run_op l op t)" using Cons.prems by simp
  from Cons.IH [OF this] one show ?case by simp
qed simp

text \<open>The rebind loop is a history: its attempts, and what others do during its waits.\<close>

lemma rebind_history:
  assumes "\<And>k t. \<exists>ops. drift k t = fold (run_op l) ops t"
    and "i < t_nextSub t" and "rebind fuel l stop drift i conc k b t = Some (ws, r, t')"
  shows "\<exists>ops. t' = fold (run_op l) ops t"
  using assms(2,3)
proof (induction fuel arbitrary: k b t ws)
  case (Suc fuel)
  show ?case
  proof (cases "stop k")
    case True
    then show ?thesis using Suc.prems by (intro exI [of _ "[]"]) simp
  next
    case False
    obtain ops where ops: "drift k t = fold (run_op l) ops t" using assms(1) by blast
    note same = history_keeps [OF Suc.prems(1), of l ops, folded ops]
    have i: "i < t_nextSub (drift k t)" using Suc.prems(1) same by simp
    obtain x t1 where su: "setupConsumer l (sub_endpoint (t_store t i)) conc (drift k t) = (x, t1)" by force
    have step: "rebind_once l i conc (drift k t) = run_op l (OpRebind i conc) (drift k t)" using i by simp
    show ?thesis
    proof (cases "\<exists>e. x = Returns (Inl e)")
      case True
      then have t1: "t1 = fold (run_op l) (ops @ [OpRebind i conc]) t"
        using su i same by (auto simp: rebind_once_def ops [symmetric])
      have "i < t_nextSub t1" using setupConsumer_frame [OF su] i by simp
      moreover obtain ws' where "rebind fuel l stop drift i conc (Suc k) (next_backoff b) t1 = Some (ws', r, t')"
        using Suc.prems(2) False True su by (auto split: option.splits)
      ultimately obtain ops' where "t' = fold (run_op l) ops' t1" using Suc.IH by blast
      then show ?thesis unfolding t1 by (metis fold_append comp_apply)
    next
      case no: False
      then have "t' = rebind_once l i conc (drift k t)"
        using Suc.prems(2) False su same by (auto simp: rebind_once_def split: outcome.splits sum.splits)
      then show ?thesis using step i ops by (intro exI [of _ "ops @ [OpRebind i conc]"]) simp
    qed
  qed
qed simp

text \<open>The two constructors of a transport.\<close>

inductive fresh_transport :: "'n lib \<Rightarrow> 'n transport \<Rightarrow> bool" for l where
  "fresh_transport l (New_transport conn n)"
| "NewWithDial l dialFn n = (Inr t, n') \<Longrightarrow> fresh_transport l t"

lemma fresh_well_formed: "fresh_transport l t \<Longrightarrow> well_formed t"
  by (auto simp: fresh_transport.simps New_transport_def no_subs_def NewWithDial_def startWatchdog_def well_formed_def tracked_def
      split: if_splits prod.splits sum.splits)

definition life_step :: "'n lib \<Rightarrow> 'n transport \<Rightarrow> 'n transport \<Rightarrow> bool" where
  "life_step l t t' \<longleftrightarrow> (\<exists>op. t' = run_op l op t)"

lemma history_steps: "(life_step l)\<^sup>*\<^sup>* t (fold (run_op l) ops t)"
proof (induction ops arbitrary: t)
  case (Cons op ops)
  have "life_step l t (run_op l op t)" by (auto simp: life_step_def)
  then show ?case using Cons.IH by (simp add: converse_rtranclp_into_rtranclp)
qed simp

interpretation amqp_life: step_invariant "life_step l" "fresh_transport l" well_formed for l
  by unfold_locales (auto simp: life_step_def run_op_well_formed fresh_well_formed)

interpretation amqp_sealed: step_invariant "life_step l" "\<lambda>_. False" sealed for l
  by unfold_locales (auto simp: life_step_def sealed_op)


section \<open>Properties\<close>

text \<open>
  \<^bold>\<open>C10\<close>: well-formedness of the transport's state. However a transport is made, and whatever sequence of
  operations its users, its subscriptions' loops and its watchdog then run while the broker
  changes as it likes: the transport's list holds every subscription that is not closed,
  without duplicates, and each subscription has its queue name and a channel; a close error
  implies a close; the watchdog runs exactly when a \<^verbatim>\<open>DialFunc\<close> is set. Once it is closed with
  \<^verbatim>\<open>pubMu\<close> free, it has no connection, publish channel or subscription, and no later sequence of
  operations gives it one.
\<close>

theorem transport_well_formed:
  assumes "fresh_transport l t0" and "t = fold (run_op l) ops t0"
  shows "tracked t \<and> (t_closed t \<and> \<not> t_pubMu t \<longrightarrow> (\<forall>more. sealed (fold (run_op l) more t)))"
proof -
  have "well_formed t" unfolding assms(2) by (rule amqp_life.reached [OF history_steps assms(1)])
  then show ?thesis using amqp_sealed.kept [OF history_steps] by (auto simp: well_formed_def)
qed

theorem transport_well_formed_witness:
  "\<forall>more. sealed (fold (run_op ex_lib) more (fold (run_op ex_lib)
      [OpConsume \<lparr>cc_Endpoint = ''execute'', cc_Handler = Some (\<lambda>d s. (None, s)), cc_Timeout = 0, cc_Concurrency = 0\<rparr>,
       OpSubClose 0, OpClose] (New_transport (Some 1) 2)))"
proof -
  let ?ops = "[OpConsume \<lparr>cc_Endpoint = ''execute'', cc_Handler = Some (\<lambda>d s. (None, s)), cc_Timeout = 0, cc_Concurrency = 0\<rparr>,
       OpSubClose 0, OpClose]"
  let ?t = "fold (run_op ex_lib) ?ops (New_transport (Some 1) 2)"
  have "t_closed ?t \<and> \<not> t_pubMu ?t"
    by (simp add: Consume_def consume_defaults_def setupConsumer_def connectionForUse_def conn_live_def New_transport_def
        ex_lib_def open_channel_def call_def call_opt_def sub_Close_def Close_def Let_def)
  then show ?thesis
    using transport_well_formed [OF fresh_transport.intros(1) refl, of ex_lib ?ops "Some 1" 2] by blast
qed

end
