(* ===== verification/JsonText.thy ===== *)
theory JsonText
  imports Json
begin

text \<open>
  Texts that \<^verbatim>\<open>json.Marshal\<close> writes and what they decode to. \<open>denotes t v\<close> says that the
  decoder reads the text \<open>t\<close> as the value \<open>v\<close>, in any context in which a value may stand;
  strings, decimal numbers, literals and objects built from such texts have the property,
  so the wire formats of the SDK are handled by composing these facts.
\<close>

section \<open>Texts and their values\<close>

definition value_end :: "string \<Rightarrow> bool" where
  "value_end r = (case r of [] \<Rightarrow> True | c # _ \<Rightarrow> c = CHR '','' \<or> c = CHR ''}'' \<or> c = CHR '']'')"

definition is_ws :: "char \<Rightarrow> bool" where
  "is_ws c = (c = CHR '' '' \<or> c = CHR 0x09 \<or> c = CHR 0x0A \<or> c = CHR 0x0D)"

definition denotes :: "string \<Rightarrow> json \<Rightarrow> bool" where
  "denotes t v = (t \<noteq> [] \<and> \<not> is_ws (hd t) \<and>
     (\<forall>n r. json_fuel t \<le> n \<longrightarrow> value_end r \<longrightarrow> pval n (t @ r) = Some (v, r)))"

lemma skip_ws_end: "value_end r \<Longrightarrow> skip_ws r = r"
  by (cases r) (auto simp: value_end_def skip_ws_Cons)

lemma skip_ws_text: "t \<noteq> [] \<Longrightarrow> \<not> is_ws (hd t) \<Longrightarrow> skip_ws (t @ r) = t @ r"
  by (cases t) (auto simp: skip_ws_Cons is_ws_def)

lemma denotes_pval: "denotes t v \<Longrightarrow> json_fuel t \<le> n \<Longrightarrow> value_end r \<Longrightarrow> pval n (t @ r) = Some (v, r)"
  by (simp add: denotes_def)

lemma denotes_parse:
  assumes "denotes t v" "json_depth v \<le> max_nesting_depth"
  shows "json_parse t = Some v"
  using denotes_pval [OF assms(1) order.refl, of "[]"] assms(2)
  by (simp add: json_parse_def value_end_def)

lemma json_fuel_Suc: "json_fuel t \<le> n \<Longrightarrow> \<exists>m. n = Suc (Suc m)"
  by (cases n; cases "n - 1") (auto simp: json_fuel_def)

lemma denotes_string:
  assumes "valid_utf8 s"
  shows "denotes (json_string html s) (JStr s)"
  using assms unfolding denotes_def
  by (auto simp: json_string_def is_ws_def skip_ws_Cons unq_enc_chars dest!: json_fuel_Suc)

lemma denotes_literals:
  "denotes ''null'' JNull" "denotes ''true'' (JBool True)" "denotes ''false'' (JBool False)"
  unfolding denotes_def by (auto simp: is_ws_def skip_ws_Cons plit_def dest!: json_fuel_Suc)


section \<open>Decimal numbers\<close>

lemma show_nat_leading: "0 < n \<Longrightarrow> \<exists>c cs. show_nat n = c # cs \<and> is_digit c \<and> c \<noteq> CHR ''0''"
proof (induction n rule: show_nat.induct)
  case (1 n)
  show ?case
  proof (cases "n < 10")
    case True
    have "digit_char n \<noteq> CHR ''0''"
      using digit_char_props(2) [OF True] "1.prems" by (auto simp: digit_val_def byte_def)
    then show ?thesis using True by (subst show_nat.simps) (simp add: digit_char_props)
  next
    case False
    then obtain c cs where "show_nat (n div 10) = c # cs" "is_digit c" "c \<noteq> CHR ''0''"
      using "1.IH" by fastforce
    then show ?thesis using False by (subst show_nat.simps) simp
  qed
qed

lemma value_end_no_digit: "value_end r \<Longrightarrow> takeWhile is_digit r = [] \<and> dropWhile is_digit r = r"
  by (cases r) (auto simp: value_end_def is_digit_def byte_def)

lemma takeWhile_digits:
  assumes "list_all is_digit ds" "value_end r"
  shows "takeWhile is_digit (ds @ r) = ds" "dropWhile is_digit (ds @ r) = r"
  using assms value_end_no_digit [OF assms(2)] by (simp_all add: list_all_iff)

lemma pnum_show_nat:
  assumes "0 < n" "value_end r"
  shows "pnum (show_nat n @ r) = Some (JNum False (show_nat n) [] None, r)"
proof -
  obtain c cs where s: "show_nat n = c # cs" "is_digit c" "c \<noteq> CHR ''0''"
    using show_nat_leading [OF assms(1)] by blast
  have c: "c \<noteq> CHR ''-''" using s(2) by (auto simp: is_digit_def byte_def)
  have "pnum_int (show_nat n @ r) = Some (show_nat n, r)"
    using takeWhile_digits [OF show_nat_digits assms(2), of n] s by (simp add: pnum_int_def)
  moreover have "pnum_frac r = Some ([], r)" "pnum_exp r = Some (None, r)"
    using assms(2) by (cases r; force simp: pnum_frac_def pnum_exp_def value_end_def)+
  ultimately show ?thesis using s(1) c by (simp add: pnum_def)
qed

lemma denotes_nat:
  assumes "0 < n"
  shows "denotes (show_nat n) (JNum False (show_nat n) [] None)"
proof -
  obtain c cs where s: "show_nat n = c # cs" "is_digit c"
    using show_nat_leading [OF assms] by blast
  have c: "c \<notin> {CHR '' '', CHR 0x09, CHR 0x0A, CHR 0x0D, CHR ''{'', CHR ''['', CHR 0x22,
      CHR ''t'', CHR ''f'', CHR ''n''}"
    using s(2) by (auto simp: is_digit_def byte_def)
  have "pval m (show_nat n @ r) = Some (JNum False (show_nat n) [] None, r)"
    if f: "json_fuel (show_nat n) \<le> m" and r: "value_end r" for m r
  proof -
    obtain m' where m: "m = Suc m'" using json_fuel_Suc [OF f] by blast
    have "pval m (show_nat n @ r) = pnum (show_nat n @ r)"
      using c s(1) m by (simp add: skip_ws_Cons)
    then show ?thesis using pnum_show_nat [OF assms r] by simp
  qed
  then show ?thesis using s(1) c by (auto simp: denotes_def is_ws_def)
qed


section \<open>Objects\<close>

text \<open>The flag is the encoder's \<^verbatim>\<open>escapeHTML\<close>, which \<^verbatim>\<open>json.Marshal\<close> sets.\<close>

fun members_text :: "bool \<Rightarrow> (string \<times> string) list \<Rightarrow> string" where
  "members_text html [] = []"
| "members_text html [(k, t)] = json_string html k @ '':'' @ t"
| "members_text html ((k, t) # m # ms) = json_string html k @ '':'' @ t @ '','' @ members_text html (m # ms)"

definition json_object :: "bool \<Rightarrow> (string \<times> string) list \<Rightarrow> string" where
  "json_object html ms = ''{'' @ members_text html ms @ ''}''"

abbreviation object_text :: "(string \<times> string) list \<Rightarrow> string" where
  "object_text \<equiv> json_object True"

type_synonym member = "string \<times> string \<times> json"

definition good_member :: "member \<Rightarrow> bool" where
  "good_member m = (case m of (k, t, v) \<Rightarrow> valid_utf8 k \<and> denotes t v)"

lemma good_member_simp [simp]: "good_member (k, t, v) \<longleftrightarrow> valid_utf8 k \<and> denotes t v"
  by (simp add: good_member_def)

abbreviation text_of :: "member \<Rightarrow> string \<times> string" where
  "text_of m \<equiv> (fst m, fst (snd m))"

definition field_of :: "member \<Rightarrow> string \<times> json \<times> string" where
  "field_of m = (case m of (k, t, v) \<Rightarrow> (k, v, t))"

lemma pmembers_one:
  assumes "valid_utf8 k" "denotes t v" "json_fuel t \<le> n" "value_end (e # r)"
  shows "pmembers (Suc n) (json_string html k @ '':'' @ t @ e # r) =
    (if e = CHR '','' then map_option (apfst (Cons (k, v, t))) (pmembers n r)
     else if e = CHR ''}'' then Some ([(k, v, t)], r) else None)"
proof -
  have t: "t \<noteq> []" "\<not> is_ws (hd t)" using assms(2) by (simp_all add: denotes_def)
  have v: "pval n (t @ e # r) = Some (v, e # r)" using denotes_pval [OF assms(2-4)] .
  have ws: "skip_ws (t @ e # r) = t @ e # r" by (rule skip_ws_text [OF t])
  have e: "skip_ws (e # r) = e # r" by (rule skip_ws_end [OF assms(4)])
  show ?thesis
    unfolding json_string_def
    using assms(4) by (auto simp: skip_ws_Cons unq_enc_chars [OF assms(1)] v ws e value_end_def)
qed

lemma members_nonempty: "members_text html (m # ms) \<noteq> [] \<and> hd (members_text html (m # ms)) = CHR 0x22"
  by (cases m; cases ms) (simp_all add: json_string_def)

lemma pmembers_text:
  assumes "list_all good_member ms" "ms \<noteq> []" "json_fuel (members_text html (map text_of ms)) \<le> n"
  shows "pmembers n (members_text html (map text_of ms) @ CHR ''}'' # r) = Some (map field_of ms, r)"
  using assms
proof (induction ms arbitrary: n)
  case (Cons m ms)
  obtain k t v where m: "m = (k, t, v)" by (cases m) auto
  have g: "valid_utf8 k" "denotes t v" "list_all good_member ms"
    using Cons.prems(1) m by simp_all
  obtain n' where n: "n = Suc n'" using json_fuel_Suc [OF Cons.prems(3)] by blast
  show ?case
  proof (cases ms)
    case Nil
    have "json_fuel t \<le> n'"
      using Cons.prems(3) n m Nil by (simp add: json_fuel_def)
    from pmembers_one [OF g(1,2) this, of "CHR ''}''" r] show ?thesis
      using m n Nil by (simp add: value_end_def field_of_def del: pmembers.simps)
  next
    case (Cons m2 ms2)
    let ?rest = "members_text html (map text_of ms)"
    have f: "json_fuel t \<le> n'" "json_fuel ?rest \<le> n'"
      using Cons.prems(3) n m Cons by (simp_all add: json_fuel_def)
    have "pmembers n' (?rest @ CHR ''}'' # r) = Some (map field_of ms, r)"
      using Cons.IH [OF g(3) _ f(2)] Cons by simp
    with pmembers_one [OF g(1,2) f(1), of "CHR '',''" "?rest @ CHR ''}'' # r"] show ?thesis
      using m n Cons by (simp add: value_end_def field_of_def del: pmembers.simps)
  qed
qed simp

lemma object_skip:
  "skip_ws (json_object html ms @ r) = json_object html ms @ r"
  by (simp add: json_object_def skip_ws_Cons)

theorem denotes_object:
  assumes "list_all good_member ms"
  shows "denotes (json_object html (map text_of ms)) (JObj (map (\<lambda>(k, t, v). (k, v)) ms))"
proof -
  have "pval n (json_object html (map text_of ms) @ r) = Some (JObj (map (\<lambda>(k, t, v). (k, v)) ms), r)"
    if f: "json_fuel (json_object html (map text_of ms)) \<le> n" for n r
  proof -
    obtain n' where n: "n = Suc n'" using json_fuel_Suc [OF f] by blast
    show ?thesis
    proof (cases ms)
      case Nil
      then show ?thesis using n by (simp add: json_object_def skip_ws_Cons)
    next
      case (Cons m ms')
      let ?mt = "members_text html (map text_of ms)"
      have "json_fuel ?mt \<le> n'" using f n by (simp add: json_object_def json_fuel_def)
      then have pm: "pmembers n' (?mt @ CHR ''}'' # r) = Some (map field_of ms, r)"
        using pmembers_text [OF assms] Cons by simp
      obtain q where q: "?mt = CHR 0x22 # q"
        using members_nonempty [of html "text_of m" "map text_of ms'"] Cons by (cases ?mt) auto
      have "map (\<lambda>(k, v, raw). (k, v)) (map field_of ms) = map (\<lambda>(k, t, v). (k, v)) ms"
        by (simp add: field_of_def split_def)
      then show ?thesis
        using pm n unfolding json_object_def q by (simp add: skip_ws_Cons)
    qed
  qed
  then show ?thesis by (simp add: denotes_def is_ws_def json_object_def)
qed

lemma json_fields_object:
  assumes "list_all good_member ms" "json_depth (JObj (map (\<lambda>(k, t, v). (k, v)) ms)) \<le> max_nesting_depth"
  shows "json_fields (json_object html (map text_of ms)) = Some (map field_of ms)"
proof -
  have p: "json_parse (json_object html (map text_of ms)) = Some (JObj (map (\<lambda>(k, t, v). (k, v)) ms))"
    by (rule denotes_parse [OF denotes_object [OF assms(1)] assms(2)])
  have "obj_members (json_object html (map text_of ms)) = map field_of ms"
  proof (cases ms)
    case Nil
    then show ?thesis by (simp add: obj_members_def json_object_def skip_ws_Cons json_fuel_def numeral_eq_Suc)
  next
    case (Cons m ms')
    have "pmembers (json_fuel (json_object html (map text_of ms))) (members_text html (map text_of ms) @ CHR ''}'' # []) =
        Some (map field_of ms, [])"
      using Cons by (intro pmembers_text [OF assms(1)]) (simp_all add: json_object_def json_fuel_def)
    then show ?thesis by (simp add: obj_members_def json_object_def skip_ws_Cons)
  qed
  then show ?thesis by (simp add: json_fields_def p)
qed


section \<open>Arrays\<close>

fun elems_text :: "string list \<Rightarrow> string" where
  "elems_text [] = []"
| "elems_text [t] = t"
| "elems_text (t # u # ts) = t @ '','' @ elems_text (u # ts)"

definition array_text :: "string list \<Rightarrow> string" where
  "array_text ts = ''['' @ elems_text ts @ '']''"

lemma elems_head: "denotes t v \<Longrightarrow> \<exists>c cs. elems_text (t # ts) = c # cs \<and> skip_ws (c # cs @ r) = c # cs @ r \<and> c \<noteq> CHR '']''"
proof -
  assume t: "denotes t v"
  then obtain c cs where c: "t = c # cs" "\<not> is_ws c" by (cases t) (auto simp: denotes_def)
  have "c \<noteq> CHR '']''"
  proof
    assume "c = CHR '']''"
    moreover have "pval (Suc (json_fuel t)) (t @ []) = Some (v, [])" using t by (intro denotes_pval) (simp_all add: value_end_def)
    ultimately show False using c by (simp add: skip_ws_Cons pnum_def pnum_int_def is_digit_def byte_def)
  qed
  then show ?thesis using c by (cases ts) (auto simp: skip_ws_Cons is_ws_def)
qed

lemma pelems_text:
  assumes "list_all2 denotes ts vs" "ts \<noteq> []" "Suc (json_fuel (elems_text ts)) \<le> n"
  shows "pelems n (elems_text ts @ CHR '']'' # r) = Some (vs, r)"
  using assms
proof (induction ts arbitrary: vs n)
  case (Cons t ts)
  obtain v vs' where vs: "vs = v # vs'" "denotes t v" "list_all2 denotes ts vs'"
    using Cons.prems(1) by (auto simp: list_all2_Cons1)
  obtain n' where n: "n = Suc n'" using Cons.prems(3) by (cases n) auto
  show ?case
  proof (cases ts)
    case Nil
    have "pval n' (t @ CHR '']'' # r) = Some (v, CHR '']'' # r)"
      using Cons.prems(3) n Nil by (intro denotes_pval [OF vs(2)]) (simp_all add: value_end_def)
    then show ?thesis using vs n Nil by (simp add: skip_ws_Cons del: pval.simps)
  next
    case (Cons u us)
    let ?rest = "elems_text ts @ CHR '']'' # r"
    have "pval n' (t @ CHR '','' # ?rest) = Some (v, CHR '','' # ?rest)"
      using Cons.prems(3) n Cons by (intro denotes_pval [OF vs(2)]) (simp_all add: value_end_def json_fuel_def)
    moreover have "pelems n' ?rest = Some (vs', r)"
      using Cons.prems(3) n Cons by (intro Cons.IH [OF vs(3)]) (simp_all add: json_fuel_def)
    ultimately show ?thesis using vs n Cons by (simp add: skip_ws_Cons del: pval.simps)
  qed
qed simp

theorem denotes_array:
  assumes "list_all2 denotes ts vs"
  shows "denotes (array_text ts) (JArr vs)"
proof -
  have "pval n (array_text ts @ r) = Some (JArr vs, r)" if f: "json_fuel (array_text ts) \<le> n" for n r
  proof -
    obtain n' where n: "n = Suc n'" using json_fuel_Suc [OF f] by blast
    show ?thesis
    proof (cases ts)
      case Nil
      then show ?thesis using assms n by (simp add: array_text_def skip_ws_Cons)
    next
      case (Cons t ts')
      obtain v where "denotes t v" using assms Cons by (auto simp: list_all2_Cons1)
      from elems_head [OF this, of ts' "CHR '']'' # r"] obtain c cs where c: "elems_text ts = c # cs"
          "skip_ws (c # cs @ CHR '']'' # r) = c # cs @ CHR '']'' # r" "c \<noteq> CHR '']''" using Cons by auto
      have "pelems n' (elems_text ts @ CHR '']'' # r) = Some (vs, r)"
        using f n Cons by (intro pelems_text [OF assms]) (simp_all add: array_text_def json_fuel_def)
      then show ?thesis using n c by (simp add: array_text_def skip_ws_Cons [of "CHR ''[''"])
    qed
  qed
  then show ?thesis by (simp add: denotes_def is_ws_def array_text_def)
qed


section \<open>Printing\<close>

text \<open>An \<^verbatim>\<open>int\<close> as the encoder writes it, and the encoder on values.\<close>

definition JInt :: "int \<Rightarrow> json" where
  "JInt i = JNum (i < 0) (show_nat (nat \<bar>i\<bar>)) [] None"

fun print_json :: "bool \<Rightarrow> json \<Rightarrow> string" where
  "print_json html JNull = ''null''"
| "print_json html (JBool b) = (if b then ''true'' else ''false'')"
| "print_json html (JNum neg ip fp ex) = (if neg then ''-'' else []) @ ip @ (if fp = [] then [] else ''.'' @ fp)
     @ (case ex of None \<Rightarrow> [] | Some e \<Rightarrow> ''e'' @ show_int e)"
| "print_json html (JStr s) = json_string html s"
| "print_json html (JArr vs) = array_text (map (print_json html) vs)"
| "print_json html (JObj ms) = json_object html (map (\<lambda>(k, v). (k, print_json html v)) ms)"

text \<open>Values that survive the trip: their strings are valid UTF-8 and their numbers read back.\<close>

fun good_json :: "json \<Rightarrow> bool" where
  "good_json (JNum neg ip fp ex) = denotes (print_json True (JNum neg ip fp ex)) (JNum neg ip fp ex)"
| "good_json (JStr s) = valid_utf8 s"
| "good_json (JArr vs) = list_all good_json vs"
| "good_json (JObj ms) = list_all (\<lambda>(k, v). valid_utf8 k \<and> good_json v) ms"
| "good_json _ = True"

lemma denotes_print: "good_json v \<Longrightarrow> denotes (print_json html v) v"
proof (induction html v rule: print_json.induct)
  case arr: (5 html vs)
  then have "list_all2 denotes (map (print_json html) vs) vs"
    by (simp add: list_all2_conv_all_nth list_all_length)
  then show ?case by (simp add: denotes_array)
next
  case obj: (6 html ms)
  let ?ms = "map (\<lambda>(k, v). (k, print_json html v, v)) ms"
  have "list_all good_member ?ms" using obj by (fastforce simp: list_all_iff)
  from denotes_object [OF this, of html] show ?case by (simp add: comp_def case_prod_unfold)
qed (simp_all add: denotes_literals denotes_string)

lemma pnum_show_int:
  assumes "value_end r"
  shows "pnum (show_int i @ r) = Some (JInt i, r)"
proof -
  have tail: "pnum_frac r = Some ([], r)" "pnum_exp r = Some (None, r)"
    using assms by (cases r; force simp: pnum_frac_def pnum_exp_def value_end_def)+
  show ?thesis
  proof (cases "i = 0")
    case True
    have z: "show_nat 0 = ''0''" by code_simp
    then show ?thesis using True tail by (simp add: show_int_def JInt_def pnum_def pnum_int_def)
  next
    case False
    then have "0 < nat \<bar>i\<bar>" by simp
    note pos = pnum_show_nat [OF this assms]
    obtain c cs where c: "show_nat (nat \<bar>i\<bar>) = c # cs" "is_digit c" using show_nat_leading [OF \<open>0 < nat \<bar>i\<bar>\<close>] by blast
    show ?thesis
    proof (cases "i < 0")
      case True
      then have "show_int i = CHR ''-'' # show_nat (nat \<bar>i\<bar>)" by (simp add: show_int_def)
      moreover have "c \<noteq> CHR ''-''" using c(2) by (auto simp: is_digit_def byte_def)
      ultimately show ?thesis using pos c(1) True by (auto simp: pnum_def JInt_def split: option.splits prod.splits)
    next
      case False
      then show ?thesis using pos by (simp add: show_int_def JInt_def)
    qed
  qed
qed

lemma good_JInt [simp]: "good_json (JInt i)"
proof -
  have shown: "print_json True (JInt i) = show_int i" by (simp add: JInt_def show_int_def)
  obtain c cs where c: "show_int i = c # cs" "is_digit c \<or> c = CHR ''-''"
  proof (cases "show_int i")
    case Nil
    then show thesis using pnum_show_int [of "[]" i] by (simp add: value_end_def pnum_def pnum_int_def)
  next
    case (Cons c cs)
    moreover have "is_digit c \<or> c = CHR ''-''"
      using pnum_show_int [of "[]" i] Cons by (auto simp: value_end_def pnum_def pnum_int_def is_digit_def byte_def split: if_splits)
    ultimately show thesis using that by blast
  qed
  then have ne: "c \<notin> {CHR '' '', CHR 0x09, CHR 0x0A, CHR 0x0D, CHR ''{'', CHR ''['', CHR 0x22, CHR ''t'', CHR ''f'', CHR ''n''}"
    by (auto simp: is_digit_def byte_def)
  have "pval m (show_int i @ r) = Some (JInt i, r)" if f: "json_fuel (show_int i) \<le> m" and r: "value_end r" for m r
  proof -
    obtain m' where "m = Suc m'" using json_fuel_Suc [OF f] by blast
    then have "pval m (show_int i @ r) = pnum (show_int i @ r)" using ne c(1) by (simp add: skip_ws_Cons)
    then show ?thesis using pnum_show_int [OF r] by simp
  qed
  then have "denotes (show_int i) (JInt i)" using c(1) ne by (auto simp: denotes_def is_ws_def)
  then show ?thesis using shown by (simp add: JInt_def)
qed

end
