(* ===== verification/Base64.thy ===== *)
theory Base64
  imports Json
begin

text \<open>
  Package \<^verbatim>\<open>encoding/base64\<close>, standard alphabet with padding: the form in which
  \<^verbatim>\<open>encoding/json\<close> writes and reads a \<^verbatim>\<open>[]byte\<close>. The decoder skips line breaks and does not
  look at the unused bits of the last group, as Go's non-strict decoder does.
\<close>

definition b64_alphabet :: string where
  "b64_alphabet = ''ABCDEFGHIJKLMNOPQRSTUVWXYZabcdefghijklmnopqrstuvwxyz0123456789+/''"

definition b64_char :: "nat \<Rightarrow> char" where "b64_char n = b64_alphabet ! n"

definition b64_val :: "char \<Rightarrow> nat option" where
  "b64_val c =
     (if 65 \<le> byte c \<and> byte c \<le> 90 then Some (byte c - 65)
      else if 97 \<le> byte c \<and> byte c \<le> 122 then Some (byte c - 71)
      else if 48 \<le> byte c \<and> byte c \<le> 57 then Some (byte c + 4)
      else if c = CHR ''+'' then Some 62 else if c = CHR ''/'' then Some 63 else None)"

fun b64_encode :: "string \<Rightarrow> string" where
  "b64_encode [] = []"
| "b64_encode [a] = [b64_char (byte a div 4), b64_char (byte a mod 4 * 16), CHR ''='', CHR ''='']"
| "b64_encode [a, b] =
     [b64_char (byte a div 4), b64_char (byte a mod 4 * 16 + byte b div 16), b64_char (byte b mod 16 * 4), CHR ''='']"
| "b64_encode (a # b # c # r) =
     b64_char (byte a div 4) # b64_char (byte a mod 4 * 16 + byte b div 16)
     # b64_char (byte b mod 16 * 4 + byte c div 64) # b64_char (byte c mod 64) # b64_encode r"

fun b64_groups :: "string \<Rightarrow> string option" where
  "b64_groups [] = Some []"
| "b64_groups (p # q # r # s # t) =
     (case (b64_val p, b64_val q) of
        (Some w, Some x) \<Rightarrow>
          (if r = CHR ''='' \<and> s = CHR ''='' \<and> t = [] then Some [char_of (w * 4 + x div 16)]
           else (case b64_val r of None \<Rightarrow> None | Some y \<Rightarrow>
             if s = CHR ''='' \<and> t = [] then Some [char_of (w * 4 + x div 16), char_of (x mod 16 * 16 + y div 4)]
             else (case b64_val s of None \<Rightarrow> None | Some z \<Rightarrow>
               map_option (\<lambda>rest. char_of (w * 4 + x div 16) # char_of (x mod 16 * 16 + y div 4)
                                  # char_of (y mod 4 * 64 + z) # rest) (b64_groups t))))
      | _ \<Rightarrow> None)"
| "b64_groups _ = None"

definition b64_decode :: "string \<Rightarrow> string option" where
  "b64_decode s = b64_groups (filter (\<lambda>c. c \<noteq> CHR 0x0A \<and> c \<noteq> CHR 0x0D) s)"

lemma b64_table:
  "list_all (\<lambda>n. b64_val (b64_char n) = Some n \<and> b64_char n \<noteq> CHR ''='' \<and> 32 \<le> byte (b64_char n)
     \<and> byte (b64_char n) < 127 \<and> b64_char n \<noteq> CHR 0x22 \<and> b64_char n \<noteq> CHR 0x5C) [0..<64]"
  by code_simp

lemma b64_char_props:
  assumes "n < 64"
  shows "b64_val (b64_char n) = Some n" "b64_char n \<noteq> CHR ''=''" "32 \<le> byte (b64_char n)" "byte (b64_char n) < 127"
  using b64_table assms by (auto simp: list_all_iff)

lemma b64_char_printable: "n < 64 \<Longrightarrow> b64_char n \<noteq> CHR 0x0A \<and> b64_char n \<noteq> CHR 0x0D"
  using b64_char_props(3) [of n] by (auto simp: byte_def)

lemma byte_div:
  fixes x :: nat
  assumes "x < 256"
  shows "x div 4 < 64" "x div 16 < 16" "x div 64 < 4"
  using assms by (simp_all add: less_mult_imp_div_less)

lemma digit_split:
  fixes k d m :: nat
  assumes "d < m"
  shows "(k * m + d) div m = k" "(k * m + d) mod m = d"
  using assms by simp_all

lemma sextet_bounds:
  fixes a b c :: nat
  assumes "a < 256" "b < 256" "c < 256"
  shows "a div 4 < 64" "a mod 4 * 16 + b div 16 < 64" "b mod 16 * 4 + c div 64 < 64" "c mod 64 < 64"
    "a mod 4 * 16 < 64" "b mod 16 * 4 < 64"
proof -
  have m: "a mod 4 < 4" "b mod 16 < 16" by simp_all
  then show "a mod 4 * 16 + b div 16 < 64" "b mod 16 * 4 + c div 64 < 64" "a mod 4 * 16 < 64" "b mod 16 * 4 < 64"
    using byte_div(2) [OF assms(2)] byte_div(3) [OF assms(3)] by linarith+
qed (use byte_div(1) [OF assms(1)] in simp_all)

lemma sextet_join:
  fixes a b c :: nat
  assumes "a < 256" "b < 256" "c < 256"
  shows "a div 4 * 4 + (a mod 4 * 16 + b div 16) div 16 = a"
    "(a mod 4 * 16 + b div 16) mod 16 * 16 + (b mod 16 * 4 + c div 64) div 4 = b"
    "(b mod 16 * 4 + c div 64) mod 4 * 64 + c mod 64 = c"
    "a div 4 * 4 + a mod 4 * 16 div 16 = a"
    "(a mod 4 * 16 + b div 16) mod 16 * 16 + b mod 16 * 4 div 4 = b"
  using byte_div(2) [OF assms(2)] byte_div(3) [OF assms(3)]
  by (simp_all only: digit_split div_mult_mod_eq nonzero_mult_div_cancel_right zero_neq_numeral not_False_eq_True)

lemmas b64_bounds = sextet_bounds [of "byte a" "byte b" "byte c" for a b c, OF byte_less byte_less byte_less]
lemmas b64_join = sextet_join [of "byte a" "byte b" "byte c" for a b c, OF byte_less byte_less byte_less]

lemma b64_encode_chars: "c \<in> set (b64_encode s) \<Longrightarrow> c = CHR ''='' \<or> (\<exists>n < 64. c = b64_char n)"
  by (induction s rule: b64_encode.induct) (auto intro: b64_bounds)

lemma b64_encode_printable:
  assumes "c \<in> set (b64_encode s)"
  shows "32 \<le> byte c \<and> byte c < 128"
  using b64_encode_chars [OF assms]
proof
  assume "\<exists>n < 64. c = b64_char n"
  then show ?thesis using b64_char_props(3,4) by fastforce
qed (simp add: byte_def)

lemma b64_groups_encode: "b64_groups (b64_encode s) = Some s"
proof (induction s rule: b64_encode.induct)
  case (2 a)
  show ?case
    using b64_join(4) [of a] by (simp add: b64_char_props b64_bounds)
next
  case (3 a b)
  show ?case
    using b64_join(1) [of a b] b64_join(5) [of a b] by (simp add: b64_char_props b64_bounds)
next
  case (4 a b c r)
  then show ?case
    using b64_join(1) [of a b] b64_join(2) [of a b c] b64_join(3) [of b c] by (simp add: b64_char_props b64_bounds)
qed simp

lemma b64_decode_encode [simp]: "b64_decode (b64_encode s) = Some s"
proof -
  have "c \<noteq> CHR 0x0A \<and> c \<noteq> CHR 0x0D" if "c \<in> set (b64_encode s)" for c
    using b64_encode_printable [OF that] by (auto simp: byte_def)
  then have "filter (\<lambda>c. c \<noteq> CHR 0x0A \<and> c \<noteq> CHR 0x0D) (b64_encode s) = b64_encode s"
    by (simp add: filter_id_conv)
  then show ?thesis by (simp add: b64_decode_def b64_groups_encode)
qed

lemma b64_encode_utf8: "valid_utf8 (b64_encode s)"
  by (rule valid_utf8_ascii) (use b64_encode_printable in blast)

interpretation base64: codec b64_encode b64_decode "\<lambda>_. True"
  by unfold_locales simp

end
