(* ===== verification/HttpTransport.thy ===== *)
theory HttpTransport
  imports Rpc JsonText Base64 "HOL-Library.List_Lexorder" "HOL-Library.Char_ord"
begin

text \<open>
  Package \<^verbatim>\<open>rpc/http\<close> (\<^verbatim>\<open>http.go\<close>): the broker-free transport. The envelope's JSON form, the
  server side (\<^verbatim>\<open>Consume\<close>, \<^verbatim>\<open>serveHTTP\<close> and the deliveries it builds), the client side
  (\<^verbatim>\<open>Request\<close>, \<^verbatim>\<open>Publish\<close>) and \<^verbatim>\<open>Close\<close>.

  \<^verbatim>\<open>net/http\<close> carries a request to a handler and the answer back; here an answer is a status, a
  content type and a body. \<^verbatim>\<open>Client.Do\<close> is an argument of \<^verbatim>\<open>Request\<close>, so that it can be
  instantiated with the server side of the same model. A header map is an association list
  with distinct keys. Endpoints contain no ServeMux wildcards.
\<close>

section \<open>The envelope on the wire\<close>

definition marshal_headers :: "headers \<Rightarrow> string" where
  "marshal_headers h = object_text (map (\<lambda>(k, v). (k, json_string True v)) (sort_key fst h))"

definition marshal_bytes :: "gobytes \<Rightarrow> string" where
  "marshal_bytes b = (case b of None \<Rightarrow> ''null'' | Some s \<Rightarrow> json_string True (b64_encode s))"

text \<open>\<^verbatim>\<open>json.Marshal\<close> of an \<^verbatim>\<open>rpc.Envelope\<close>: members in declaration order, empty optional ones left out.\<close>

definition marshal_envelope :: "envelope \<Rightarrow> string" where
  "marshal_envelope e = object_text
     ((if env_CorrelationID e = [] then [] else [(''correlation_id'', json_string True (env_CorrelationID e))])
      @ (if env_ReplyTo e = [] then [] else [(''reply_to'', json_string True (env_ReplyTo e))])
      @ (if env_Headers e = [] then [] else [(''headers'', marshal_headers (env_Headers e))])
      @ (if env_ContentType e = [] then [] else [(''content_type'', json_string True (env_ContentType e))])
      @ [(''body'', marshal_bytes (env_Body e))])"

text \<open>Decoding a \<^verbatim>\<open>map[string]string\<close> field: \<^verbatim>\<open>null\<close> resets it, objects are merged into it.\<close>

fun put_header :: "string \<Rightarrow> string \<Rightarrow> headers \<Rightarrow> headers" where
  "put_header k v [] = [(k, v)]"
| "put_header k v ((k', v') # h) = (if k = k' then (k, v) # h else (k', v') # put_header k v h)"

fun put_members :: "(string \<times> json) list \<Rightarrow> headers \<Rightarrow> headers option" where
  "put_members [] h = Some h"
| "put_members ((k, v) # ms) h = (case v of
       JStr s \<Rightarrow> put_members ms (put_header k s h)
     | JNull \<Rightarrow> put_members ms (put_header k [] h)
     | _ \<Rightarrow> None)"

fun dec_headers :: "string \<Rightarrow> fields \<Rightarrow> headers \<Rightarrow> headers option" where
  "dec_headers name [] acc = Some acc"
| "dec_headers name ((k, v, raw) # fs) acc =
     (if key_matches k name then
        (case v of
           JNull \<Rightarrow> dec_headers name fs []
         | JObj ms \<Rightarrow> (case put_members ms acc of None \<Rightarrow> None | Some h \<Rightarrow> dec_headers name fs h)
         | _ \<Rightarrow> None)
      else dec_headers name fs acc)"

text \<open>Decoding a \<^verbatim>\<open>[]byte\<close> field: base64 text, an array of small numbers, or \<^verbatim>\<open>null\<close>.\<close>

definition dec_uint8 :: "json \<Rightarrow> char option" where
  "dec_uint8 v = (case v of
       JNull \<Rightarrow> Some (char_of (0 :: nat))
     | JNum neg ip fp ex \<Rightarrow>
         (if \<not> neg \<and> fp = [] \<and> ex = None \<and> digits_val ip < 256 then Some (char_of (digits_val ip)) else None)
     | _ \<Rightarrow> None)"

definition dec_bytes_value :: "json \<Rightarrow> gobytes option" where
  "dec_bytes_value v = (case v of
       JNull \<Rightarrow> Some None
     | JStr s \<Rightarrow> map_option Some (b64_decode s)
     | JArr vs \<Rightarrow> map_option Some (those (map dec_uint8 vs))
     | _ \<Rightarrow> None)"

fun dec_bytes :: "string \<Rightarrow> fields \<Rightarrow> gobytes \<Rightarrow> gobytes option" where
  "dec_bytes name [] acc = Some acc"
| "dec_bytes name ((k, v, raw) # fs) acc =
     (if key_matches k name
      then (case dec_bytes_value v of None \<Rightarrow> None | Some b \<Rightarrow> dec_bytes name fs b)
      else dec_bytes name fs acc)"

definition unmarshal_envelope :: "string \<Rightarrow> envelope option" where
  "unmarshal_envelope s = (case json_fields s of
       None \<Rightarrow> None
     | Some fs \<Rightarrow>
        (case (dec_string ''correlation_id'' fs [], dec_string ''reply_to'' fs [], dec_headers ''headers'' fs [],
               dec_string ''content_type'' fs [], dec_bytes ''body'' fs None) of
           (Some c, Some r, Some h, Some ct, Some b) \<Rightarrow>
             Some \<lparr>env_CorrelationID = c, env_ReplyTo = r, env_Headers = h, env_ContentType = ct, env_Body = b\<rparr>
         | _ \<Rightarrow> None))"


section \<open>Answers\<close>

datatype answer = Answer (ans_status: nat) (ans_type: string) (ans_body: string)

definition text_plain :: string where "text_plain = ''text/plain; charset=utf-8''"

text \<open>
  The type \<^verbatim>\<open>net/http\<close> gives a body written without one when it starts as the text below does (no other
  signature of \<^verbatim>\<open>DetectContentType\<close> begins that way): plain text, unless one of its first 512
  bytes is binary.
\<close>

definition binary_byte :: "char \<Rightarrow> bool" where
  "binary_byte c \<longleftrightarrow> (let b = byte c in b \<le> 8 \<or> b = 11 \<or> 14 \<le> b \<and> b \<le> 26 \<or> 28 \<le> b \<and> b \<le> 31)"

definition sniffed_text :: "string \<Rightarrow> string" where
  "sniffed_text body = (if list_ex binary_byte (take 512 body) then ''application/octet-stream'' else text_plain)"

text \<open>\<^verbatim>\<open>http.Error\<close>.\<close>

definition http_Error :: "string \<Rightarrow> nat \<Rightarrow> answer" where
  "http_Error msg code = Answer code text_plain (msg @ [CHR 0x0A])"

text \<open>
  The state behind one HTTP exchange: the \<^verbatim>\<open>replied\<close> flag, the answers written, the outcome of
  \<^verbatim>\<open>w.Write\<close>, and the handler's own state.
\<close>

record 'u hstate =
  hs_replied :: bool
  hs_answers :: "answer list"
  hs_writeErr :: "goerr option"
  hs_user :: 'u

definition write_answer :: "answer \<Rightarrow> 'u hstate \<Rightarrow> 'u hstate" where
  "write_answer a s = s\<lparr>hs_replied := True, hs_answers := hs_answers s @ [a]\<rparr>"

definition http_reply :: "string \<Rightarrow> gobytes \<Rightarrow> string \<Rightarrow> 'u hstate \<Rightarrow> goerr option \<times> 'u hstate" where
  "http_reply correlationID body contentType s =
     (if hs_replied s then (None, s)
      else let out = marshal_envelope \<lparr>env_CorrelationID = correlationID, env_ReplyTo = [], env_Headers = [],
                        env_ContentType = contentType, env_Body = body\<rparr>
           in (hs_writeErr s, write_answer (Answer 200 application_json out) s))"

definition http_nack :: "bool \<Rightarrow> 'u hstate \<Rightarrow> goerr option \<times> 'u hstate" where
  "http_nack requeue s =
     (if hs_replied s then (None, s) else (None, write_answer (Answer (if requeue then 503 else 500) [] []) s))"

definition http_ack :: "'u hstate \<Rightarrow> goerr option \<times> 'u hstate" where
  "http_ack s = (None, s)"

definition http_delivery :: "string \<Rightarrow> envelope \<Rightarrow> 'u hstate delivery" where
  "http_delivery endpoint e =
     \<lparr>d_Endpoint = endpoint, d_Body = env_Body e, d_ContentType = env_ContentType e, d_Headers = env_Headers e,
      d_CorrelationID = env_CorrelationID e, d_ReplyTo = ''http-response'', d_AckFn = Some http_ack,
      d_NackFn = Some http_nack, d_ReplyFn = Some (http_reply (env_CorrelationID e))\<rparr>"


section \<open>The server\<close>

record 'u http_sub =
  hsub_endpoint :: string
  hsub_concurrency :: int
  hsub_timeout :: int
  hsub_handler :: "'u hstate rpc_handler"
  hsub_closed :: bool

text \<open>
  One inbound exchange: whether the context ended before a slot was free, the outcome of
  reading the body, and the outcome of writing the answer.
\<close>

record http_call =
  hc_cancelled :: bool
  hc_body :: "goerr + string"
  hc_writeErr :: "goerr option"

definition decode_inbound :: "string \<Rightarrow> envelope" where
  "decode_inbound raw =
     (if raw = [] then empty_envelope
      else case unmarshal_envelope raw of
        None \<Rightarrow> empty_envelope\<lparr>env_Body := Some raw\<rparr>
      | Some e \<Rightarrow>
          if bytes_of (env_Body e) = [] \<and> env_CorrelationID e = [] \<and> env_Headers e = [] \<and> env_ReplyTo e = []
          then empty_envelope\<lparr>env_Body := Some raw\<rparr> else e)"

definition run_handler :: "'u http_sub \<Rightarrow> envelope \<Rightarrow> 'u hstate \<Rightarrow> 'u hstate" where
  "run_handler sub e s =
     (case hsub_handler sub (http_delivery (hsub_endpoint sub) e) s of
        (Some err, s1) \<Rightarrow>
          if hs_replied s1 then s1
          else write_answer (let text = ''handler error: '' @ error_text err in Answer 500 (sniffed_text text) text) s1
      | (None, s1) \<Rightarrow>
          if hs_replied s1 then s1
          else write_answer (Answer 200 application_json
                 (marshal_envelope (empty_envelope\<lparr>env_CorrelationID := env_CorrelationID e\<rparr>))) s1)"

definition serveHTTP :: "'u http_sub \<Rightarrow> http_call \<Rightarrow> 'u \<Rightarrow> answer list \<times> 'u" where
  "serveHTTP sub call u =
     (if hsub_closed sub then ([http_Error ''subscription closed'' 503], u)
      else if hc_cancelled call then ([http_Error ''request canceled'' 503], u)
      else case hc_body call of
        Inl err \<Rightarrow> ([http_Error (''read body: '' @ error_text err) 400], u)
      | Inr raw \<Rightarrow>
         (let s = run_handler sub (decode_inbound raw)
                    \<lparr>hs_replied = False, hs_answers = [], hs_writeErr = hc_writeErr call, hs_user = u\<rparr>
          in (hs_answers s, hs_user s)))"

definition DefaultPathPrefix :: string where "DefaultPathPrefix = ''/rpc/''"

text \<open>
  An \<^verbatim>\<open>http.Client\<close> is its timeout and its round tripper: none, or one of which \<^verbatim>\<open>Close\<close> can tell whether
  it has \<^verbatim>\<open>CloseIdleConnections\<close>.
\<close>

record http_client =
  cl_Timeout :: int
  cl_Transport :: "bool option"

text \<open>
  A mux is the list of its patterns' paths with the subscription behind each; \<open>ht_idleClosed\<close> says
  that the client's idle connections were released.
\<close>

record 'u http_transport =
  ht_BaseURL :: string
  ht_Mux :: "(string \<times> nat) list option"
  ht_Client :: "http_client option"
  ht_PathPrefix :: string
  ht_subs :: "nat list"
  ht_store :: "nat \<Rightarrow> 'u http_sub"
  ht_next :: nat
  ht_closed :: bool
  ht_idleClosed :: bool

definition New_http :: "'u http_transport option \<Rightarrow> (nat \<Rightarrow> 'u http_sub) \<Rightarrow> 'u http_transport" where
  "New_http opts store =
     (let t = \<lparr>ht_BaseURL = (case opts of None \<Rightarrow> [] | Some c \<Rightarrow> ht_BaseURL c),
               ht_Mux = (case opts of None \<Rightarrow> None | Some c \<Rightarrow> ht_Mux c),
               ht_Client = (case opts of None \<Rightarrow> None | Some c \<Rightarrow> ht_Client c),
               ht_PathPrefix = (case opts of None \<Rightarrow> [] | Some c \<Rightarrow> ht_PathPrefix c),
               ht_subs = [], ht_store = store, ht_next = 0, ht_closed = False, ht_idleClosed = False\<rparr>;
          t1 = (if ht_PathPrefix t = [] then t\<lparr>ht_PathPrefix := DefaultPathPrefix\<rparr> else t)
      in if ht_Client t1 = None then t1\<lparr>ht_Client := Some \<lparr>cl_Timeout = 30 * second, cl_Transport = None\<rparr>\<rparr> else t1)"

text \<open>\<^verbatim>\<open>ServeMux.HandleFunc\<close> panics on a pattern that is already registered (the panic's text is not the library's).\<close>

definition Consume :: "'u hstate consumer_config \<Rightarrow> 'u http_transport \<Rightarrow> (goerr + nat) outcome \<times> 'u http_transport" where
  "Consume cfg t =
     (if cc_Endpoint cfg = [] then (Returns (Inl (ErrorText ''http consume: endpoint is required'')), t)
      else case cc_Handler cfg of
        None \<Rightarrow> (Returns (Inl (ErrorText ''http consume: handler is required'')), t)
      | Some handler \<Rightarrow>
         (case ht_Mux t of
            None \<Rightarrow> (Returns (Inl (ErrorText ''http consume: Mux is required'')), t)
          | Some mux \<Rightarrow>
             (let i = ht_next t; path = ht_PathPrefix t @ cc_Endpoint cfg;
                  sub = \<lparr>hsub_endpoint = cc_Endpoint cfg,
                         hsub_concurrency = (if cc_Concurrency cfg \<le> 0 then 1 else cc_Concurrency cfg),
                         hsub_timeout = (if cc_Timeout cfg \<le> 0 then 30 * second else cc_Timeout cfg),
                         hsub_handler = handler, hsub_closed = False\<rparr>
              in if path \<in> fst ` set mux then (Panics (''http: pattern already registered: POST '' @ path), t)
                 else (Returns (Inr i), t\<lparr>ht_Mux := Some (mux @ [(path, i)]), ht_store := (ht_store t)(i := sub),
                                          ht_next := Suc i, ht_subs := ht_subs t @ [i]\<rparr>))))"

definition sub_Close :: "nat \<Rightarrow> 'u http_transport \<Rightarrow> 'u http_transport" where
  "sub_Close i t = t\<lparr>ht_store := (ht_store t)(i := (ht_store t i)\<lparr>hsub_closed := True\<rparr>)\<rparr>"

definition Close :: "'u http_transport \<Rightarrow> 'u http_transport" where
  "Close t =
     (if ht_closed t then t
      else let t1 = fold sub_Close (ht_subs t) (t\<lparr>ht_closed := True, ht_subs := []\<rparr>)
           in case ht_Client t1 of
                None \<Rightarrow> t1
              | Some c \<Rightarrow> if cl_Transport c = Some True then t1\<lparr>ht_idleClosed := True\<rparr> else t1)"

text \<open>The mux of the transport receiving a POST.\<close>

definition serve_mux :: "'u http_transport \<Rightarrow> string \<Rightarrow> http_call \<Rightarrow> 'u \<Rightarrow> answer list \<times> 'u" where
  "serve_mux t path call u =
     (case (case ht_Mux t of None \<Rightarrow> None | Some mux \<Rightarrow> map_of mux path) of
        None \<Rightarrow> ([http_Error ''404 page not found'' 404], u)
      | Some i \<Rightarrow> serveHTTP (ht_store t i) call u)"


section \<open>The client\<close>

text \<open>
  \<^verbatim>\<open>http.Header.Set\<close> stores under the canonical form of the key, which keeps keys that are no header
  tokens and otherwise capitalises the parts between hyphens.
\<close>

definition token_char :: "char \<Rightarrow> bool" where
  "token_char c = (is_digit c \<or> 65 \<le> byte c \<and> byte c \<le> 90 \<or> 97 \<le> byte c \<and> byte c \<le> 122
     \<or> byte c \<in> {33, 35, 36, 37, 38, 39, 42, 43, 45, 46, 94, 95, 96, 124, 126})"

fun capitalise :: "bool \<Rightarrow> string \<Rightarrow> string" where
  "capitalise upper [] = []"
| "capitalise upper (c # cs) = (if upper then upper_char c else lower_char c) # capitalise (c = CHR ''-'') cs"

definition CanonicalHeaderKey :: "string \<Rightarrow> string" where
  "CanonicalHeaderKey k = (if list_all token_char k then capitalise True k else k)"

definition set_header :: "string \<times> string \<Rightarrow> headers \<Rightarrow> headers" where
  "set_header kv h = put_header (CanonicalHeaderKey (fst kv)) (snd kv) h"

text \<open>The outgoing request, with the timeout that the context it carries adds.\<close>

record http_post =
  hp_url :: string
  hp_headers :: headers
  hp_body :: string
  hp_timeout :: "int option"

text \<open>What \<^verbatim>\<open>Client.Do\<close> returns: an error, or status, content type and the outcome of reading the body.\<close>

type_synonym http_do = "http_post \<Rightarrow> goerr + nat \<times> string \<times> (goerr + string)"

definition Request :: "'u http_transport \<Rightarrow> (string \<Rightarrow> goerr option) \<Rightarrow> http_do \<Rightarrow> request \<Rightarrow> goerr + reply" where
  "Request t build clientDo req =
     (if rq_Endpoint req = [] then Inl (ErrorText ''http request: endpoint is required'')
      else if ht_BaseURL t = [] then Inl (ErrorText ''http request: BaseURL is required'')
      else
       let body = marshal_envelope \<lparr>env_CorrelationID = rq_CorrelationID req, env_ReplyTo = [],
                    env_Headers = rq_Headers req, env_ContentType = rq_ContentType req, env_Body = rq_Body req\<rparr>;
           url = TrimRightSlash (ht_BaseURL t) @ ht_PathPrefix t @ rq_Endpoint req
       in case build url of
            Some err \<Rightarrow> Inl (Wrap ''http request: build: '' err [])
          | None \<Rightarrow>
             (case clientDo \<lparr>hp_url = url, hp_headers = fold set_header (rq_Headers req) [(''Content-Type'', application_json)],
                      hp_body = body, hp_timeout = (if 0 < rq_Timeout req then Some (rq_Timeout req) else None)\<rparr> of
                Inl err \<Rightarrow> Inl (if errors_is err DeadlineExceeded then ErrTimeout else Wrap ''http request: do: '' err [])
              | Inr (status, ct, rd) \<Rightarrow>
                 (case rd of
                    Inl err \<Rightarrow> Inl (Wrap ''http request: read response: '' err [])
                  | Inr respBody \<Rightarrow>
                      if status = 404 then Inl ErrEndpointUnknown
                      else if 400 \<le> status then
                        Inl (ErrorText (''http request: remote returned HTTP '' @ show_nat status @ '': '' @ respBody))
                      else case unmarshal_envelope respBody of
                        None \<Rightarrow> Inr \<lparr>rp_Body = Some respBody, rp_ContentType = ct, rp_Headers = [],
                                      rp_CorrelationID = rq_CorrelationID req\<rparr>
                      | Some e \<Rightarrow> Inr \<lparr>rp_Body = env_Body e, rp_ContentType = env_ContentType e,
                                        rp_Headers = env_Headers e, rp_CorrelationID = env_CorrelationID e\<rparr>)))"

definition Publish :: "'u http_transport \<Rightarrow> (string \<Rightarrow> goerr option) \<Rightarrow> http_do \<Rightarrow> request \<Rightarrow> goerr option" where
  "Publish t build clientDo req = (case Request t build clientDo req of Inl err \<Rightarrow> Some err | Inr _ \<Rightarrow> None)"



section \<open>The envelope round trip\<close>

lemma fold_envelope_names:
  "fold_name ''correlation_id'' = ''CORRELATION_ID''" "fold_name ''reply_to'' = ''REPLY_TO''"
  "fold_name ''headers'' = ''HEADERS''" "fold_name ''content_type'' = ''CONTENT_TYPE''" "fold_name ''body'' = ''BODY''"
  by code_simp+

lemma key_matches_envelope [simp]:
  "key_matches ''correlation_id'' ''correlation_id'' = True"
  "key_matches ''correlation_id'' ''reply_to'' = False"
  "key_matches ''correlation_id'' ''headers'' = False"
  "key_matches ''correlation_id'' ''content_type'' = False"
  "key_matches ''correlation_id'' ''body'' = False"
  "key_matches ''reply_to'' ''correlation_id'' = False"
  "key_matches ''reply_to'' ''reply_to'' = True"
  "key_matches ''reply_to'' ''headers'' = False"
  "key_matches ''reply_to'' ''content_type'' = False"
  "key_matches ''reply_to'' ''body'' = False"
  "key_matches ''headers'' ''correlation_id'' = False"
  "key_matches ''headers'' ''reply_to'' = False"
  "key_matches ''headers'' ''headers'' = True"
  "key_matches ''headers'' ''content_type'' = False"
  "key_matches ''headers'' ''body'' = False"
  "key_matches ''content_type'' ''correlation_id'' = False"
  "key_matches ''content_type'' ''reply_to'' = False"
  "key_matches ''content_type'' ''headers'' = False"
  "key_matches ''content_type'' ''content_type'' = True"
  "key_matches ''content_type'' ''body'' = False"
  "key_matches ''body'' ''correlation_id'' = False"
  "key_matches ''body'' ''reply_to'' = False"
  "key_matches ''body'' ''headers'' = False"
  "key_matches ''body'' ''content_type'' = False"
  "key_matches ''body'' ''body'' = True"
  by (simp_all add: key_matches_def fold_envelope_names)

lemma key_names_utf8 [simp]:
  "valid_utf8 ''correlation_id''" "valid_utf8 ''reply_to''" "valid_utf8 ''headers''"
  "valid_utf8 ''content_type''" "valid_utf8 ''body''"
  by (rule valid_utf8_ascii, simp add: byte_def)+

definition good_headers :: "headers \<Rightarrow> bool" where
  "good_headers h = (sorted (map fst h) \<and> distinct (map fst h) \<and> (\<forall>(k, v) \<in> set h. valid_utf8 k \<and> valid_utf8 v))"

definition good_envelope :: "envelope \<Rightarrow> bool" where
  "good_envelope e = (valid_utf8 (env_CorrelationID e) \<and> valid_utf8 (env_ReplyTo e) \<and> valid_utf8 (env_ContentType e)
     \<and> good_headers (env_Headers e))"

lemma put_header_new: "k \<notin> fst ` set h \<Longrightarrow> put_header k v h = h @ [(k, v)]"
  by (induction h) auto

lemma put_members_distinct:
  "distinct (map fst h') \<Longrightarrow> fst ` set h' \<inter> fst ` set h = {} \<Longrightarrow>
   put_members (map (\<lambda>(k, v). (k, JStr v)) h') h = Some (h @ h')"
proof (induction h' arbitrary: h)
  case (Cons kv h')
  obtain k v where kv: "kv = (k, v)" by force
  have "put_members (map (\<lambda>(k, v). (k, JStr v)) h') (h @ [(k, v)]) = Some ((h @ [(k, v)]) @ h')"
    using Cons.prems kv by (intro Cons.IH) auto
  then show ?case using Cons.prems kv by (simp add: put_header_new)
qed simp

lemma depth_strings: "foldr max (map (\<lambda>(k, v). json_depth v) (map (\<lambda>(k, v). (k, JStr v)) h)) 0 = 0"
  by (induction h) auto

lemma denotes_headers:
  assumes "good_headers h"
  shows "denotes (marshal_headers h) (JObj (map (\<lambda>(k, v). (k, JStr v)) h))"
proof -
  let ?ms = "map (\<lambda>(k, v). (k, json_string True v, JStr v)) h"
  have "list_all good_member ?ms"
    using assms by (auto simp: good_headers_def list_all_iff denotes_string)
  from denotes_object [OF this] show ?thesis
    using assms by (simp add: marshal_headers_def good_headers_def sort_key_id_if_sorted comp_def split_def)
qed

definition bytes_json :: "gobytes \<Rightarrow> json" where
  "bytes_json b = (case b of None \<Rightarrow> JNull | Some s \<Rightarrow> JStr (b64_encode s))"

lemma denotes_bytes: "denotes (marshal_bytes b) (bytes_json b)"
  by (simp add: marshal_bytes_def bytes_json_def denotes_literals denotes_string b64_encode_utf8 split: option.split)

lemma dec_bytes_json [simp]: "dec_bytes_value (bytes_json b) = Some b"
  by (simp add: dec_bytes_value_def bytes_json_def split: option.split)

definition envelope_members :: "envelope \<Rightarrow> member list" where
  "envelope_members e =
     (if env_CorrelationID e = [] then []
        else [(''correlation_id'', json_string True (env_CorrelationID e), JStr (env_CorrelationID e))])
      @ (if env_ReplyTo e = [] then [] else [(''reply_to'', json_string True (env_ReplyTo e), JStr (env_ReplyTo e))])
      @ (if env_Headers e = [] then []
         else [(''headers'', marshal_headers (env_Headers e), JObj (map (\<lambda>(k, v). (k, JStr v)) (env_Headers e)))])
      @ (if env_ContentType e = [] then []
         else [(''content_type'', json_string True (env_ContentType e), JStr (env_ContentType e))])
      @ [(''body'', marshal_bytes (env_Body e), bytes_json (env_Body e))]"

lemma marshal_envelope_text: "marshal_envelope e = object_text (map text_of (envelope_members e))"
  by (simp add: marshal_envelope_def envelope_members_def)

lemma envelope_fields:
  assumes "good_envelope e"
  shows "json_fields (marshal_envelope e) = Some (map field_of (envelope_members e))"
  unfolding marshal_envelope_text
proof (rule json_fields_object)
  show "list_all good_member (envelope_members e)"
    using assms by (simp add: envelope_members_def good_envelope_def denotes_string denotes_headers denotes_bytes)
  have "json_depth (bytes_json b) = 0" for b by (simp add: bytes_json_def split: option.split)
  then show "json_depth (JObj (map (\<lambda>(k, t, v). (k, v)) (envelope_members e))) \<le> max_nesting_depth"
    by (simp add: envelope_members_def depth_strings [simplified] max_nesting_depth_def)
qed

lemma dec_envelope:
  assumes "good_envelope e"
  shows "dec_string ''correlation_id'' (map field_of (envelope_members e)) [] = Some (env_CorrelationID e)"
    and "dec_string ''reply_to'' (map field_of (envelope_members e)) [] = Some (env_ReplyTo e)"
    and "dec_string ''content_type'' (map field_of (envelope_members e)) [] = Some (env_ContentType e)"
    and "dec_headers ''headers'' (map field_of (envelope_members e)) [] = Some (env_Headers e)"
    and "dec_bytes ''body'' (map field_of (envelope_members e)) None = Some (env_Body e)"
proof -
  have h: "put_members (map (\<lambda>(k, v). (k, JStr v)) (env_Headers e)) [] = Some (env_Headers e)"
    using put_members_distinct [of "env_Headers e" "[]"] assms by (simp add: good_envelope_def good_headers_def)
  show "dec_string ''correlation_id'' (map field_of (envelope_members e)) [] = Some (env_CorrelationID e)"
    "dec_string ''reply_to'' (map field_of (envelope_members e)) [] = Some (env_ReplyTo e)"
    "dec_string ''content_type'' (map field_of (envelope_members e)) [] = Some (env_ContentType e)"
    "dec_headers ''headers'' (map field_of (envelope_members e)) [] = Some (env_Headers e)"
    "dec_bytes ''body'' (map field_of (envelope_members e)) None = Some (env_Body e)"
    by (simp_all add: envelope_members_def field_of_def h)
qed

lemma envelope_round_trip_lemma:
  assumes "good_envelope e"
  shows "unmarshal_envelope (marshal_envelope e) = Some e"
  using envelope_fields [OF assms] dec_envelope [OF assms] by (simp add: unmarshal_envelope_def)

interpretation envelope_wire: codec marshal_envelope unmarshal_envelope good_envelope
  by unfold_locales (rule envelope_round_trip_lemma)


section \<open>Deliveries keep the contract\<close>

definition start :: "goerr option \<Rightarrow> 'u \<Rightarrow> 'u hstate" where
  "start we u = \<lparr>hs_replied = False, hs_answers = [], hs_writeErr = we, hs_user = u\<rparr>"

definition one_answer :: "'u hstate \<Rightarrow> bool" where
  "one_answer s = (length (hs_answers s) = (if hs_replied s then 1 else 0))"

lemma one_answer_start [simp]: "one_answer (start we u)"
  by (simp add: one_answer_def start_def)

lemma http_fns_inv:
  "one_answer s \<Longrightarrow> one_answer (snd (http_reply c b ct s))" "one_answer s \<Longrightarrow> one_answer (snd (http_nack rq s))"
  "one_answer s \<Longrightarrow> one_answer (snd (http_ack s))"
  by (simp_all add: one_answer_def http_reply_def http_nack_def http_ack_def write_answer_def Let_def)

interpretation http: delivery_contract "http_delivery endpoint e" "\<lambda>s. length (hs_answers s)" "\<lambda>_. 0"
    "\<lambda>s. \<exists>we u. s = start we u" one_answer for endpoint e
proof unfold_locales
  fix s :: "'a hstate" and rq b ct
  show "\<exists>we u. s = start we u \<Longrightarrow> one_answer s" by auto
  show "one_answer s \<Longrightarrow> length (hs_answers s) \<le> 1" by (simp add: one_answer_def split: if_splits)
  show "one_answer s \<Longrightarrow> one_answer (snd (Ack (http_delivery endpoint e) s))"
    "one_answer s \<Longrightarrow> one_answer (snd (Nack (http_delivery endpoint e) rq s))"
    "one_answer s \<Longrightarrow> one_answer (snd (Reply (http_delivery endpoint e) b ct s))"
    by (simp_all add: Ack_def Nack_def Reply_def http_delivery_def http_fns_inv)
qed simp

lemma run_handler_answers:
  assumes "hsub_handler sub (http_delivery (hsub_endpoint sub) e) (start we u)
             = (err, acts (http_delivery (hsub_endpoint sub) e) script (start we u))"
  shows "length (hs_answers (run_handler sub e (start we u))) = 1"
proof -
  have "one_answer (acts (http_delivery (hsub_endpoint sub) e) script (start we u))"
    by (rule http.acts_inv) simp
  then show ?thesis
    using assms by (simp add: run_handler_def one_answer_def write_answer_def split: option.split)
qed


section \<open>A client in front of its own server\<close>

text \<open>\<^verbatim>\<open>Client.Do\<close> as a loop-back: the transport's mux serves the path of the URL.\<close>

definition loopback :: "'u http_transport \<Rightarrow> http_call \<Rightarrow> 'u \<Rightarrow> http_do" where
  "loopback t call u p =
     (case fst (serve_mux t (drop (length (TrimRightSlash (ht_BaseURL t))) (hp_url p)) (call\<lparr>hc_body := Inr (hp_body p)\<rparr>) u) of
        [] \<Rightarrow> Inr (200, [], Inr [])
      | a # _ \<Rightarrow> Inr (ans_status a, ans_type a, Inr (ans_body a)))"

definition plain_call :: http_call where
  "plain_call = \<lparr>hc_cancelled = False, hc_body = Inr [], hc_writeErr = None\<rparr>"

definition request_envelope :: "request \<Rightarrow> envelope" where
  "request_envelope req = \<lparr>env_CorrelationID = rq_CorrelationID req, env_ReplyTo = [],
     env_Headers = rq_Headers req, env_ContentType = rq_ContentType req, env_Body = rq_Body req\<rparr>"

lemma marshal_nonempty [simp]: "marshal_envelope e \<noteq> []"
  by (simp add: marshal_envelope_def json_object_def)

lemma decode_inbound_envelope:
  assumes "good_envelope e"
    and "bytes_of (env_Body e) \<noteq> [] \<or> env_CorrelationID e \<noteq> [] \<or> env_Headers e \<noteq> [] \<or> env_ReplyTo e \<noteq> []"
  shows "decode_inbound (marshal_envelope e) = e"
  using assms by (auto simp: decode_inbound_def envelope_wire.round_trip)

lemma Request_loopback:
  assumes "rq_Endpoint req \<noteq> []" "ht_BaseURL t \<noteq> []"
    and "ht_Mux t = Some mux" "map_of mux (ht_PathPrefix t @ rq_Endpoint req) = Some i"
    and "fst (serveHTTP (ht_store t i) (call\<lparr>hc_body := Inr (marshal_envelope (request_envelope req))\<rparr>) u) = a # as"
  shows "Request t (\<lambda>_. None) (loopback t call u) req =
    (if ans_status a = 404 then Inl ErrEndpointUnknown
     else if 400 \<le> ans_status a then
       Inl (ErrorText (''http request: remote returned HTTP '' @ show_nat (ans_status a) @ '': '' @ ans_body a))
     else case unmarshal_envelope (ans_body a) of
       None \<Rightarrow> Inr \<lparr>rp_Body = Some (ans_body a), rp_ContentType = ans_type a, rp_Headers = [],
                     rp_CorrelationID = rq_CorrelationID req\<rparr>
     | Some e \<Rightarrow> Inr \<lparr>rp_Body = env_Body e, rp_ContentType = env_ContentType e,
                       rp_Headers = env_Headers e, rp_CorrelationID = env_CorrelationID e\<rparr>)"
  using assms by (simp add: Request_def loopback_def serve_mux_def request_envelope_def Let_def)

lemma fold_http_sub_Close:
  "hsub_closed (ht_store (fold sub_Close ids t) i) = (i \<in> set ids \<or> hsub_closed (ht_store t i))"
  "ht_Mux (fold sub_Close ids t) = ht_Mux t" "ht_closed (fold sub_Close ids t) = ht_closed t"
  "ht_subs (fold sub_Close ids t) = ht_subs t" "ht_next (fold sub_Close ids t) = ht_next t"
  "ht_PathPrefix (fold sub_Close ids t) = ht_PathPrefix t"
  by (induction ids arbitrary: t) (auto simp: sub_Close_def)


lemma http_Close_frame:
  "ht_closed (HttpTransport.Close t)" "ht_Mux (HttpTransport.Close t) = ht_Mux t" "ht_next (HttpTransport.Close t) = ht_next t"
  "ht_PathPrefix (HttpTransport.Close t) = ht_PathPrefix t"
  "hsub_closed (ht_store (HttpTransport.Close t) i) = ((\<not> ht_closed t \<and> i \<in> set (ht_subs t)) \<or> hsub_closed (ht_store t i))"
  by (auto simp: HttpTransport.Close_def fold_http_sub_Close Let_def split: option.split)

interpretation http_transport: closable HttpTransport.Close ht_closed
  by unfold_locales (simp_all add: http_Close_frame, simp add: HttpTransport.Close_def)


section \<open>Properties\<close>

text \<open>
  \<^bold>\<open>C19\<close>: the envelope survives the wire: what one side marshals, the other side unmarshals to the
  same envelope, for all UTF-8 fields, any header map (listed in key order) and any body
  bytes, nil and empty bodies included.
\<close>

theorem envelope_round_trip:
  assumes "good_envelope e"
  shows "unmarshal_envelope (marshal_envelope e) = Some e"
  using assms by (rule envelope_wire.round_trip)

theorem envelope_round_trip_witness:
  "unmarshal_envelope (marshal_envelope \<lparr>env_CorrelationID = ''c1'', env_ReplyTo = [], env_Headers = [(''a'', ''1''), (''b'', [])],
      env_ContentType = application_json, env_Body = Some [CHR 0xFF, CHR 0x00]\<rparr>) =
    Some \<lparr>env_CorrelationID = ''c1'', env_ReplyTo = [], env_Headers = [(''a'', ''1''), (''b'', [])],
      env_ContentType = application_json, env_Body = Some [CHR 0xFF, CHR 0x00]\<rparr>"
proof (rule envelope_round_trip)
  have "sorted [''a'', ''b'']" by code_simp
  then show "good_envelope \<lparr>env_CorrelationID = ''c1'', env_ReplyTo = [], env_Headers = [(''a'', ''1''), (''b'', [])],
      env_ContentType = application_json, env_Body = Some [CHR 0xFF, CHR 0x00]\<rparr>"
    by (simp add: good_envelope_def good_headers_def application_json_def valid_utf8_ascii byte_def)
qed

text \<open>
  the server writes exactly one answer per exchange: on a closed subscription, a cancelled
  wait or an unreadable body, and for every handler, whatever sequence of acks, nacks and
  replies it calls on its delivery and whatever it returns.
\<close>

theorem serveHTTP_one_answer:
  assumes "\<And>e we. \<exists>err script. hsub_handler sub (http_delivery (hsub_endpoint sub) e) (start we u)
             = (err, acts (http_delivery (hsub_endpoint sub) e) script (start we u))"
  shows "length (fst (serveHTTP sub call u)) = 1"
proof -
  have "length (hs_answers (run_handler sub e (start we u))) = 1" for e we
  proof -
    obtain err script where "hsub_handler sub (http_delivery (hsub_endpoint sub) e) (start we u)
        = (err, acts (http_delivery (hsub_endpoint sub) e) script (start we u))" using assms by blast
    then show ?thesis by (rule run_handler_answers)
  qed
  then show ?thesis by (simp add: serveHTTP_def Let_def start_def split: sum.split)
qed

theorem serveHTTP_one_answer_witness:
  "length (fst (serveHTTP \<lparr>hsub_endpoint = ''x'', hsub_concurrency = 1, hsub_timeout = 1,
      hsub_handler = (\<lambda>d s. (Some (ErrorText ''late''), acts d [DoReply None [], DoNack True, DoReply None []] s)),
      hsub_closed = False\<rparr> plain_call ())) = 1"
  by (rule serveHTTP_one_answer) (simp del: acts.simps, blast)

text \<open>
  a whole call over HTTP. For a request with a body, a correlation id or headers, sent to a
  registered endpoint whose handler answers with \<open>f\<close> of the body it received, the client
  gets exactly \<open>f\<close> of the body it sent, the handler's content type (JSON by default) and its
  own correlation id.
\<close>

theorem http_call_round_trip:
  assumes "rq_Endpoint req \<noteq> []" and "ht_BaseURL t \<noteq> []"
    and "ht_Mux t = Some mux" and "map_of mux (ht_PathPrefix t @ rq_Endpoint req) = Some i"
    and "\<not> hsub_closed (ht_store t i)"
    and "\<And>d s. hsub_handler (ht_store t i) d s = (None, snd (Reply d (f (d_Body d)) ct s))"
    and "good_envelope (request_envelope req)" and "valid_utf8 ct"
    and "bytes_of (rq_Body req) \<noteq> [] \<or> rq_CorrelationID req \<noteq> [] \<or> rq_Headers req \<noteq> []"
  shows "Request t (\<lambda>_. None) (loopback t plain_call u) req =
    Inr \<lparr>rp_Body = f (rq_Body req), rp_ContentType = (if ct = [] then application_json else ct), rp_Headers = [],
         rp_CorrelationID = rq_CorrelationID req\<rparr>"
proof -
  let ?ct = "if ct = [] then application_json else ct"
  let ?out = "\<lparr>env_CorrelationID = rq_CorrelationID req, env_ReplyTo = [], env_Headers = [],
      env_ContentType = ?ct, env_Body = f (rq_Body req)\<rparr>"
  have "valid_utf8 application_json" by (rule valid_utf8_ascii) (simp add: application_json_def byte_def)
  then have good: "good_envelope ?out"
    using assms(7,8) by (simp add: good_envelope_def good_headers_def request_envelope_def)
  have dec: "decode_inbound (marshal_envelope (request_envelope req)) = request_envelope req"
    using assms(7,9) by (intro decode_inbound_envelope) (auto simp: request_envelope_def)
  have "fst (serveHTTP (ht_store t i) (plain_call\<lparr>hc_body := Inr (marshal_envelope (request_envelope req))\<rparr>) u)
      = [Answer 200 application_json (marshal_envelope ?out)]"
    using assms(5,6) dec
    by (simp add: serveHTTP_def plain_call_def run_handler_def Reply_def http_delivery_def http_reply_def
        write_answer_def request_envelope_def Let_def)
  from Request_loopback [OF assms(1-4) this] show ?thesis
    by (simp add: envelope_wire.round_trip [OF good])
qed

text \<open>A transport with one echoing subscription.\<close>

definition echo_transport :: "unit http_transport" where
  "echo_transport = \<lparr>ht_BaseURL = ''http://a/'', ht_Mux = Some [(''/rpc/echo'', 0)], ht_Client = None, ht_PathPrefix = ''/rpc/'',
     ht_subs = [0], ht_store = (\<lambda>_. \<lparr>hsub_endpoint = ''echo'', hsub_concurrency = 1, hsub_timeout = 1,
        hsub_handler = (\<lambda>d s. (None, snd (Reply d (d_Body d) [] s))), hsub_closed = False\<rparr>), ht_next = 1, ht_closed = False, ht_idleClosed = False\<rparr>"

definition echo_request :: "gobytes \<Rightarrow> string \<Rightarrow> request" where
  "echo_request b c = \<lparr>rq_Endpoint = ''echo'', rq_Body = b, rq_ContentType = [], rq_Headers = [], rq_CorrelationID = c,
     rq_Timeout = 0\<rparr>"

theorem http_call_round_trip_witness:
  "Request echo_transport (\<lambda>_. None) (loopback echo_transport plain_call ()) (echo_request (Some ''hi'') ''c7'') =
    Inr \<lparr>rp_Body = Some ''hi'', rp_ContentType = application_json, rp_Headers = [], rp_CorrelationID = ''c7''\<rparr>"
  using http_call_round_trip [of "echo_request (Some ''hi'') ''c7''" echo_transport "[(''/rpc/echo'', 0)]" 0 "\<lambda>b. b" "[]" "()"]
  by (simp add: echo_transport_def echo_request_def good_envelope_def good_headers_def request_envelope_def
      valid_utf8_ascii byte_def)

text \<open>
  \<^bold>\<open>C33\<close>: the empty request. When a request has no body, no correlation id and no headers, the server
  cannot tell its envelope from foreign JSON and hands the envelope's own text to the
  handler: an empty body does not arrive as an empty body.
\<close>

theorem http_empty_request_is_misread:
  assumes "bytes_of (rq_Body req) = []" and "rq_CorrelationID req = []" and "rq_Headers req = []"
    and "valid_utf8 (rq_ContentType req)"
  shows "decode_inbound (marshal_envelope (request_envelope req))
    = empty_envelope\<lparr>env_Body := Some (marshal_envelope (request_envelope req))\<rparr>
    \<and> bytes_of (env_Body (decode_inbound (marshal_envelope (request_envelope req)))) \<noteq> bytes_of (rq_Body req)"
proof -
  have "good_envelope (request_envelope req)"
    using assms by (simp add: good_envelope_def good_headers_def request_envelope_def)
  then show ?thesis
    using assms(1-3) by (simp add: decode_inbound_def envelope_wire.round_trip request_envelope_def)
qed

theorem http_empty_request_is_misread_witness:
  "bytes_of (env_Body (decode_inbound (marshal_envelope (request_envelope (echo_request None []))))) \<noteq> []"
  using http_empty_request_is_misread [of "echo_request None []"] by (simp add: echo_request_def)

text \<open>
  closing. After \<^verbatim>\<open>Close\<close> every exchange on a subscription the transport had is answered 503
  without running its handler, an endpoint that was never registered gives
  \<^verbatim>\<open>ErrEndpointUnknown\<close> to the caller, and closing again changes nothing.
\<close>

theorem Close_stops_serving:
  assumes "\<not> ht_closed t" and "i \<in> set (ht_subs t)"
  shows "serveHTTP (ht_store (HttpTransport.Close t) i) call u = ([http_Error ''subscription closed'' 503], u)
    \<and> HttpTransport.Close (HttpTransport.Close t) = HttpTransport.Close t \<and> ht_subs (HttpTransport.Close t) = []"
proof -
  have "ht_subs (HttpTransport.Close t) = []"
    using assms(1) by (simp add: HttpTransport.Close_def fold_http_sub_Close Let_def split: option.split)
  then show ?thesis using assms http_transport.close_idempotent [of t] by (simp add: http_Close_frame serveHTTP_def)
qed

theorem Close_stops_serving_witness:
  "serveHTTP (ht_store (HttpTransport.Close echo_transport) 0) plain_call () = ([http_Error ''subscription closed'' 503], ())"
  using Close_stops_serving [of echo_transport 0 plain_call "()"] by (simp add: echo_transport_def)

text \<open>
  a request to an endpoint nobody registered is reported as \<^verbatim>\<open>ErrEndpointUnknown\<close>, by
  \<^verbatim>\<open>Request\<close> and by \<^verbatim>\<open>Publish\<close>, and an expired deadline as \<^verbatim>\<open>ErrTimeout\<close>.
\<close>

theorem Request_sentinels:
  assumes "rq_Endpoint req \<noteq> []" and "ht_BaseURL t \<noteq> []" and "ht_Mux t = Some mux"
    and "map_of mux (ht_PathPrefix t @ rq_Endpoint req) = None" and "errors_is err DeadlineExceeded"
  shows "Request t (\<lambda>_. None) (loopback t call u) req = Inl ErrEndpointUnknown
    \<and> Publish t (\<lambda>_. None) (loopback t call u) req = Some ErrEndpointUnknown
    \<and> Request t (\<lambda>_. None) (\<lambda>_. Inl err) req = Inl ErrTimeout"
  using assms by (simp add: Request_def Publish_def loopback_def serve_mux_def http_Error_def Let_def)

theorem Request_sentinels_witness:
  "Request echo_transport (\<lambda>_. None) (loopback echo_transport plain_call ()) ((echo_request None [])\<lparr>rq_Endpoint := ''nope''\<rparr>)
     = Inl ErrEndpointUnknown"
  using Request_sentinels [of "(echo_request None [])\<lparr>rq_Endpoint := ''nope''\<rparr>" echo_transport "[(''/rpc/echo'', 0)]"
      DeadlineExceeded plain_call "()"]
  by (simp add: echo_request_def echo_transport_def)

end
