(* ===== verification/HttpPool.thy ===== *)
theory HttpPool
  imports HttpTransport "HOL-Library.Multiset"
begin

text \<open>
  \<^verbatim>\<open>serveHTTP\<close> of \<^verbatim>\<open>rpc/http\<close> as \<^verbatim>\<open>net/http\<close> runs it: one goroutine per exchange, all of one subscription
  sharing its \<^verbatim>\<open>closed\<close> flag and its semaphore. An exchange checks the flag, waits for a slot or
  for the end of its context, reads its body, and runs its handler, which calls \<^verbatim>\<open>Ack\<close>, \<^verbatim>\<open>Nack\<close>
  and \<^verbatim>\<open>Reply\<close> in any order and interleaving; the slot is released when it returns. Meanwhile
  the subscription may be closed.

  The abstract view of an exchange is its ledger: the \<^verbatim>\<open>replied\<close> flag and the answers written.
  Every interleaving refines the sequential \<^verbatim>\<open>serveHTTP\<close> of theory \<open>HttpTransport\<close>, exchange by
  exchange.
\<close>

section \<open>The ledger of an exchange\<close>

definition hledger :: "'u hstate \<Rightarrow> bool \<times> answer list" where
  "hledger s = (hs_replied s, hs_answers s)"

lemma act_hledger:
  assumes "hledger s = hledger s'"
  shows "hledger (act (http_delivery endpoint e) a s) = hledger (act (http_delivery endpoint e) a s')"
  using assms
  by (cases a) (auto simp: hledger_def http_delivery_def Ack_def Nack_def Reply_def http_ack_def http_nack_def
      http_reply_def write_answer_def Let_def)

lemma acts_hledger:
  "hledger s = hledger s' \<Longrightarrow> hledger (acts (http_delivery endpoint e) as s) = hledger (acts (http_delivery endpoint e) as s')"
  by (induction as arbitrary: s s') (auto dest: act_hledger)


section \<open>Exchanges and steps\<close>

text \<open>The handler of an exchange, with the calls it made so far.\<close>

record 'u xjob =
  xj_call :: http_call
  xj_calls :: "action list"
  xj_state :: "'u hstate"

text \<open>How an exchange ended: refused, cancelled, unreadable, or handled with these calls and this result.\<close>

datatype how = WasClosed | WasCancelled | WasUnreadable | WasHandled "action list" "goerr option"

record finished =
  fin_call :: http_call
  fin_how :: how
  fin_answers :: "answer list"

record 'u hpool =
  hp_closed :: bool
  hp_arrived :: "http_call list"
  hp_waiting :: "http_call list"
  hp_reading :: "http_call list"
  hp_running :: "'u xjob list"
  hp_finished :: "finished list"

definition busy :: "'u hpool \<Rightarrow> nat" where
  "busy p = length (hp_reading p) + length (hp_running p)"

definition xenv :: "http_call \<Rightarrow> envelope" where
  "xenv call = (case hc_body call of Inl _ \<Rightarrow> empty_envelope | Inr raw \<Rightarrow> decode_inbound raw)"

definition new_xjob :: "http_call \<Rightarrow> 'u \<Rightarrow> 'u xjob" where
  "new_xjob call u = \<lparr>xj_call = call, xj_calls = [], xj_state = start (hc_writeErr call) u\<rparr>"

text \<open>What \<^verbatim>\<open>serveHTTP\<close> does after the handler returned.\<close>

definition conclude :: "envelope \<Rightarrow> goerr option \<Rightarrow> 'u hstate \<Rightarrow> 'u hstate" where
  "conclude e err s =
     (if hs_replied s then s
      else write_answer (case err of
          Some x \<Rightarrow> (let text = ''handler error: '' @ error_text x in Answer 500 (sniffed_text text) text)
        | None \<Rightarrow> Answer 200 application_json
            (marshal_envelope (empty_envelope\<lparr>env_CorrelationID := env_CorrelationID e\<rparr>))) s)"

definition finish :: "http_call \<Rightarrow> how \<Rightarrow> answer list \<Rightarrow> 'u hpool \<Rightarrow> 'u hpool" where
  "finish call h as p = p\<lparr>hp_finished := hp_finished p @ [\<lparr>fin_call = call, fin_how = h, fin_answers = as\<rparr>]\<rparr>"

inductive hpool_step :: "string \<Rightarrow> nat \<Rightarrow> 'u hpool \<Rightarrow> 'u hpool \<Rightarrow> bool" for endpoint :: string and cap :: nat where
  arrives_closed: "hp_closed p \<Longrightarrow>
    hpool_step endpoint cap p (finish call WasClosed [http_Error ''subscription closed'' 503]
      (p\<lparr>hp_arrived := hp_arrived p @ [call]\<rparr>))"
| arrives: "\<not> hp_closed p \<Longrightarrow>
    hpool_step endpoint cap p (p\<lparr>hp_arrived := hp_arrived p @ [call], hp_waiting := hp_waiting p @ [call]\<rparr>)"
| cancelled: "hp_waiting p = cs1 @ call # cs2 \<Longrightarrow>
    hpool_step endpoint cap p (finish call WasCancelled [http_Error ''request canceled'' 503]
      (p\<lparr>hp_waiting := cs1 @ cs2\<rparr>))"
| acquires: "hp_waiting p = cs1 @ call # cs2 \<Longrightarrow> busy p < cap \<Longrightarrow>
    hpool_step endpoint cap p (p\<lparr>hp_waiting := cs1 @ cs2, hp_reading := hp_reading p @ [call]\<rparr>)"
| unreadable: "hp_reading p = cs1 @ call # cs2 \<Longrightarrow> hc_body call = Inl err \<Longrightarrow>
    hpool_step endpoint cap p (finish call WasUnreadable [http_Error (''read body: '' @ error_text err) 400]
      (p\<lparr>hp_reading := cs1 @ cs2\<rparr>))"
| reads: "hp_reading p = cs1 @ call # cs2 \<Longrightarrow> hc_body call = Inr raw \<Longrightarrow>
    hpool_step endpoint cap p (p\<lparr>hp_reading := cs1 @ cs2, hp_running := hp_running p @ [new_xjob call u]\<rparr>)"
| handler_works: "hp_running p = js1 @ j # js2 \<Longrightarrow>
    hpool_step endpoint cap p (p\<lparr>hp_running := js1 @ j\<lparr>xj_state := (xj_state j)\<lparr>hs_user := u\<rparr>\<rparr> # js2\<rparr>)"
| handler_calls: "hp_running p = js1 @ j # js2 \<Longrightarrow> s = act (http_delivery endpoint (xenv (xj_call j))) a (xj_state j) \<Longrightarrow>
    hpool_step endpoint cap p (p\<lparr>hp_running := js1 @ j\<lparr>xj_calls := xj_calls j @ [a], xj_state := s\<rparr> # js2\<rparr>)"
| handler_returns: "hp_running p = js1 @ j # js2 \<Longrightarrow> s = conclude (xenv (xj_call j)) err (xj_state j) \<Longrightarrow>
    hpool_step endpoint cap p (finish (xj_call j) (WasHandled (xj_calls j) err) (hs_answers s)
      (p\<lparr>hp_running := js1 @ js2\<rparr>))"
| closes: "hpool_step endpoint cap p (p\<lparr>hp_closed := True\<rparr>)"

inductive_cases hpool_stepE: "hpool_step endpoint cap p q"

definition idle_hpool :: "'u hpool" where
  "idle_hpool = \<lparr>hp_closed = False, hp_arrived = [], hp_waiting = [], hp_reading = [], hp_running = [], hp_finished = []\<rparr>"

interpretation http_semaphore: throttle "hpool_step endpoint cap" "\<lambda>p. p = idle_hpool" busy cap for endpoint cap
proof unfold_locales
  show "p = idle_hpool \<Longrightarrow> busy p = 0" for p :: "'a hpool" by (simp add: busy_def idle_hpool_def)
  show "hpool_step endpoint cap p q \<Longrightarrow> busy q \<le> busy p \<or> busy p < cap \<and> busy q = Suc (busy p)" for p q :: "'a hpool"
    by (erule hpool_stepE) (auto simp: busy_def finish_def)
qed


section \<open>The invariant\<close>

text \<open>The sequential \<^verbatim>\<open>serveHTTP\<close> that an exchange's end corresponds to.\<close>

definition scripted :: "string \<Rightarrow> bool \<Rightarrow> action list \<Rightarrow> goerr option \<Rightarrow> 'u http_sub" where
  "scripted endpoint isClosed as err = \<lparr>hsub_endpoint = endpoint, hsub_concurrency = 1, hsub_timeout = 30 * second,
     hsub_handler = (\<lambda>d s. (err, acts d as s)), hsub_closed = isClosed\<rparr>"

definition sequential :: "string \<Rightarrow> finished \<Rightarrow> 'u \<Rightarrow> answer list" where
  "sequential endpoint f u = (case fin_how f of
       WasClosed \<Rightarrow> fst (serveHTTP (scripted endpoint True [] None) (fin_call f) u)
     | WasCancelled \<Rightarrow> fst (serveHTTP (scripted endpoint False [] None) ((fin_call f)\<lparr>hc_cancelled := True\<rparr>) u)
     | WasUnreadable \<Rightarrow> fst (serveHTTP (scripted endpoint False [] None) ((fin_call f)\<lparr>hc_cancelled := False\<rparr>) u)
     | WasHandled as err \<Rightarrow> fst (serveHTTP (scripted endpoint False as err) ((fin_call f)\<lparr>hc_cancelled := False\<rparr>) u))"

definition xjob_ok :: "string \<Rightarrow> 'u xjob \<Rightarrow> bool" where
  "xjob_ok endpoint j \<longleftrightarrow> \<not> isl (hc_body (xj_call j))
     \<and> (\<forall>we u. hledger (xj_state j) = hledger (acts (http_delivery endpoint (xenv (xj_call j))) (xj_calls j) (start we (u :: 'u))))"

definition finished_ok :: "string \<Rightarrow> 'u \<Rightarrow> finished \<Rightarrow> bool" where
  "finished_ok endpoint u f \<longleftrightarrow> fin_answers f = sequential endpoint f u \<and> length (fin_answers f) = 1"

definition accounted :: "'u hpool \<Rightarrow> http_call list" where
  "accounted p = hp_waiting p @ hp_reading p @ map xj_call (hp_running p) @ map fin_call (hp_finished p)"

definition hpool_inv :: "string \<Rightarrow> 'u hpool \<Rightarrow> bool" where
  "hpool_inv endpoint p \<longleftrightarrow> list_all (xjob_ok endpoint) (hp_running p)
     \<and> (\<forall>u :: 'u. list_all (finished_ok endpoint u) (hp_finished p)) \<and> mset (hp_arrived p) = mset (accounted p)"

lemma conclude_hledger: "hledger s = hledger s' \<Longrightarrow> hs_answers (conclude e err s) = hs_answers (conclude e err s')"
  by (simp add: conclude_def hledger_def write_answer_def)

lemma serveHTTP_scripted:
  "hc_body call = Inr raw \<Longrightarrow> fst (serveHTTP (scripted endpoint False as err) (call\<lparr>hc_cancelled := False\<rparr>) u)
     = hs_answers (conclude (xenv call) err (acts (http_delivery endpoint (xenv call)) as (start (hc_writeErr call) u)))"
  by (simp add: serveHTTP_def scripted_def run_handler_def conclude_def start_def xenv_def Let_def split: option.split)

lemma returned_ok:
  assumes "xjob_ok endpoint (j :: 'u xjob)" and "s = conclude (xenv (xj_call j)) err (xj_state j)"
  shows "finished_ok endpoint (u :: 'u) \<lparr>fin_call = xj_call j, fin_how = WasHandled (xj_calls j) err, fin_answers = hs_answers s\<rparr>"
proof -
  let ?t = "acts (http_delivery endpoint (xenv (xj_call j))) (xj_calls j) (start (hc_writeErr (xj_call j)) u)"
  obtain raw where raw: "hc_body (xj_call j) = Inr raw" using assms(1) by (cases "hc_body (xj_call j)") (auto simp: xjob_ok_def)
  have "hledger (xj_state j) = hledger ?t" using assms(1) by (simp add: xjob_ok_def)
  then have eq: "hs_answers s = hs_answers (conclude (xenv (xj_call j)) err ?t)" unfolding assms(2) by (rule conclude_hledger)
  have "one_answer ?t" by (rule http.acts_inv) simp
  then have "length (hs_answers (conclude (xenv (xj_call j)) err ?t)) = 1"
    by (simp add: conclude_def one_answer_def write_answer_def)
  then show ?thesis using eq raw by (simp add: finished_ok_def sequential_def serveHTTP_scripted)
qed

lemma refused_ok:
  "finished_ok endpoint u \<lparr>fin_call = call, fin_how = WasClosed, fin_answers = [http_Error ''subscription closed'' 503]\<rparr>"
  "finished_ok endpoint u \<lparr>fin_call = call, fin_how = WasCancelled, fin_answers = [http_Error ''request canceled'' 503]\<rparr>"
  "hc_body call = Inl err \<Longrightarrow> finished_ok endpoint u
     \<lparr>fin_call = call, fin_how = WasUnreadable, fin_answers = [http_Error (''read body: '' @ error_text err) 400]\<rparr>"
  by (simp_all add: finished_ok_def sequential_def serveHTTP_def scripted_def)

lemma xjob_steps:
  "hc_body call = Inr raw \<Longrightarrow> xjob_ok endpoint (new_xjob call u)"
  "xjob_ok endpoint j \<Longrightarrow> xjob_ok endpoint (j\<lparr>xj_state := (xj_state j)\<lparr>hs_user := u\<rparr>\<rparr>)"
  "xjob_ok endpoint j \<Longrightarrow> xjob_ok endpoint
     (j\<lparr>xj_calls := xj_calls j @ [a], xj_state := act (http_delivery endpoint (xenv (xj_call j))) a (xj_state j)\<rparr>)"
  by (simp add: xjob_ok_def new_xjob_def hledger_def start_def)
    (simp add: xjob_ok_def hledger_def, simp add: xjob_ok_def acts_append, blast intro: act_hledger)

lemma hpool_inv_step:
  assumes "hpool_step endpoint cap p q" "hpool_inv endpoint p"
  shows "hpool_inv endpoint q"
  using assms(1)
proof cases
  case (handler_works js1 j js2 u)
  then show ?thesis using assms(2) xjob_steps(2) by (auto simp: hpool_inv_def accounted_def)
next
  case (handler_calls js1 j js2 s a)
  then show ?thesis using assms(2) xjob_steps(3) by (auto simp: hpool_inv_def accounted_def)
next
  case (handler_returns js1 j js2 s err)
  then have "xjob_ok endpoint j" using assms(2) by (simp add: hpool_inv_def)
  note returned_ok [OF this handler_returns(3)]
  then show ?thesis using assms(2) handler_returns by (simp add: hpool_inv_def accounted_def finish_def)
next
  case (reads cs1 call cs2 raw u)
  then show ?thesis using assms(2) xjob_steps(1) by (auto simp: hpool_inv_def accounted_def new_xjob_def)
qed (use assms(2) refused_ok in \<open>auto simp: hpool_inv_def accounted_def finish_def\<close>)

interpretation http_pool: step_invariant "hpool_step endpoint cap" "\<lambda>p. p = idle_hpool" "hpool_inv endpoint" for endpoint cap
  by unfold_locales (auto intro: hpool_inv_step, simp add: hpool_inv_def accounted_def idle_hpool_def)



section \<open>Closing\<close>

text \<open>The exchanges that passed the \<^verbatim>\<open>closed\<close> check and are not answered yet.\<close>

definition in_flight :: "'u hpool \<Rightarrow> nat" where
  "in_flight p = length (hp_waiting p) + busy p"

lemma closed_step:
  assumes "hpool_step endpoint cap p q" "hp_closed p"
  shows "hp_closed q \<and> in_flight q \<le> in_flight p"
  using assms by (cases rule: hpool_step.cases) (auto simp: in_flight_def busy_def finish_def)

interpretation http_closed: step_invariant "hpool_step endpoint cap" "\<lambda>_. False"
    "\<lambda>p. hp_closed p \<and> in_flight p \<le> n" for endpoint cap n
  by unfold_locales (auto dest: closed_step)

text \<open>Work left: acquiring, reading and returning are one unit each.\<close>

definition work_left :: "'u hpool \<Rightarrow> nat" where
  "work_left p = 3 * length (hp_waiting p) + 2 * length (hp_reading p) + length (hp_running p)"

lemma hpool_progress:
  assumes "0 < work_left (p :: 'u hpool)"
  shows "\<exists>q. hpool_step endpoint (Suc c) p q \<and> work_left q < work_left p \<and> hp_arrived q = hp_arrived p"
proof -
  consider (run) j js where "hp_running p = [] @ j # js" | (read) call cs where "hp_reading p = [] @ call # cs"
    | (wait) call cs where "hp_running p = []" "hp_reading p = []" "hp_waiting p = [] @ call # cs"
    using assms by (cases "hp_running p"; cases "hp_reading p"; cases "hp_waiting p") (auto simp: work_left_def)
  then show ?thesis
  proof cases
    case run
    from handler_returns [OF this refl, of endpoint "Suc c" None] show ?thesis
      by (intro exI conjI, assumption) (simp_all add: work_left_def finish_def run)
  next
    case read
    show ?thesis
    proof (cases "hc_body call")
      case (Inl err)
      from unreadable [OF read this, of endpoint "Suc c"] show ?thesis
        by (intro exI conjI, assumption) (simp_all add: work_left_def finish_def read)
    next
      case (Inr raw)
      from reads [OF read this, of endpoint "Suc c"] show ?thesis
        by (intro exI conjI, assumption) (simp_all add: work_left_def read)
    qed
  next
    case wait
    then have "busy p < Suc c" by (simp add: busy_def)
    from acquires [OF wait(3) this, of endpoint] show ?thesis
      by (intro exI conjI, assumption) (simp_all add: work_left_def wait)
  qed
qed

interpretation http_work: draining "hpool_step endpoint (Suc c)" work_left hp_arrived for endpoint c
  by unfold_locales (rule hpool_progress)


section \<open>Properties\<close>

text \<open>
  \<^bold>\<open>C9\<close>: concurrent exchanges. In every interleaving of arrivals, cancellations, handlers (which may
  call and return what they like) and closing: never more exchanges are past the semaphore
  than the configured concurrency, none is lost, and each one that ended was answered
  exactly once, with exactly the answer that the sequential server gives to the same calls.
\<close>

theorem http_pool_safe:
  fixes p :: "'u hpool" and u :: 'u
  assumes "(hpool_step endpoint cap)\<^sup>*\<^sup>* idle_hpool p"
  shows "busy p \<le> cap \<and> mset (hp_arrived p) = mset (accounted p)
    \<and> (\<forall>f \<in> set (hp_finished p). fin_answers f = sequential endpoint f u \<and> length (fin_answers f) = 1)"
  using http_semaphore.bound.reached [OF assms refl] http_pool.reached [OF assms refl]
  by (simp add: hpool_inv_def list_all_iff finished_ok_def)

text \<open>One exchange whose handler replies, and is closed while it runs.\<close>

definition demo_call :: http_call where
  "demo_call = \<lparr>hc_cancelled = False, hc_body = Inr ''hi'', hc_writeErr = None\<rparr>"

lemma hpool_trace:
  "\<exists>f p. (hpool_step ''q'' 1)\<^sup>*\<^sup>* (idle_hpool :: unit hpool) p \<and> hp_finished p = [f] \<and> fin_call f = demo_call
     \<and> fin_how f = WasHandled [DoReply None []] None \<and> hp_closed p"
proof -
  let ?st = "hpool_step ''q'' 1" and ?p0 = "idle_hpool :: unit hpool"
  let ?p1 = "?p0\<lparr>hp_arrived := [demo_call], hp_waiting := [demo_call]\<rparr>"
  let ?p2 = "?p1\<lparr>hp_waiting := [], hp_reading := [demo_call]\<rparr>"
  let ?j = "new_xjob demo_call ()"
  let ?p3 = "?p2\<lparr>hp_reading := [], hp_running := [?j]\<rparr>"
  let ?p4 = "?p3\<lparr>hp_closed := True\<rparr>"
  let ?s = "act (http_delivery ''q'' (xenv (xj_call ?j))) (DoReply None []) (xj_state ?j)"
  let ?j5 = "?j\<lparr>xj_calls := [DoReply None []], xj_state := ?s\<rparr>"
  let ?p5 = "?p4\<lparr>hp_running := [?j5]\<rparr>"
  let ?p6 = "finish (xj_call ?j5) (WasHandled (xj_calls ?j5) None) (hs_answers (conclude (xenv (xj_call ?j5)) None (xj_state ?j5)))
      (?p5\<lparr>hp_running := []\<rparr>)"
  have "?st ?p0 ?p1" using arrives [of ?p0 "''q''" 1 demo_call] by (simp add: idle_hpool_def)
  moreover have "?st ?p1 ?p2" using acquires [of ?p1 "[]" demo_call "[]" 1 "''q''"] by (simp add: idle_hpool_def busy_def)
  moreover have "?st ?p2 ?p3" using reads [of ?p2 "[]" demo_call "[]" "''hi''" "''q''" 1 "()"] by (simp add: idle_hpool_def demo_call_def)
  moreover have "?st ?p3 ?p4" by (rule closes)
  moreover have "?st ?p4 ?p5" using handler_calls [of ?p4 "[]" ?j "[]" ?s "''q''" "DoReply None []" 1] by (simp add: new_xjob_def)
  moreover have "?st ?p5 ?p6" using handler_returns [of ?p5 "[]" ?j5 "[]" _ None "''q''" 1] by simp
  ultimately have "?st\<^sup>*\<^sup>* ?p0 ?p6" by (meson converse_rtranclp_into_rtranclp rtranclp.rtrancl_refl)
  then show ?thesis by (intro exI [of _ "last (hp_finished ?p6)"] exI [of _ ?p6]) (simp add: finish_def idle_hpool_def new_xjob_def)
qed

theorem http_pool_safe_witness:
  "\<exists>f p. (hpool_step ''q'' 1)\<^sup>*\<^sup>* (idle_hpool :: unit hpool) p \<and> hp_finished p = [f] \<and> fin_answers f = sequential ''q'' f ()"
proof -
  obtain f p where t: "(hpool_step ''q'' 1)\<^sup>*\<^sup>* (idle_hpool :: unit hpool) p" "hp_finished p = [f]"
    using hpool_trace by blast
  from http_pool_safe [OF t(1), of "()"] t show ?thesis by auto
qed

text \<open>
  \<^bold>\<open>C34\<close>: closing does not drain. \<^verbatim>\<open>Subscription.Close\<close> returns at any moment and leaves every running
  handler running; an exchange that waits for a slot when \<^verbatim>\<open>Close\<close> returns still starts its
  handler afterwards; but no further exchange enters, so what is in flight only shrinks,
  and it can always be brought to its end.
\<close>

theorem http_Close_does_not_drain:
  assumes "0 < cap"
  shows "hpool_step endpoint cap p (p\<lparr>hp_closed := True\<rparr>) \<and> hp_running (p\<lparr>hp_closed := True\<rparr>) = hp_running p
    \<and> (\<forall>call raw. call \<in> set (hp_waiting p) \<longrightarrow> hc_body call = Inr raw \<longrightarrow> busy p < cap \<longrightarrow>
         (\<exists>q. (hpool_step endpoint cap)\<^sup>*\<^sup>* (p\<lparr>hp_closed := True\<rparr>) q \<and> call \<in> xj_call ` set (hp_running q)))
    \<and> (\<forall>q. (hpool_step endpoint cap)\<^sup>*\<^sup>* (p\<lparr>hp_closed := True\<rparr>) q \<longrightarrow> hp_closed q \<and> in_flight q \<le> in_flight p)
    \<and> (\<exists>q. (hpool_step endpoint cap)\<^sup>*\<^sup>* (p\<lparr>hp_closed := True\<rparr>) q \<and> in_flight q = 0)"
proof (intro conjI allI impI)
  let ?p = "p\<lparr>hp_closed := True\<rparr>"
  show "hpool_step endpoint cap p ?p" by (rule closes)
  show "hp_running ?p = hp_running p" by simp
  show "\<exists>q. (hpool_step endpoint cap)\<^sup>*\<^sup>* ?p q \<and> call \<in> xj_call ` set (hp_running q)"
    if call: "call \<in> set (hp_waiting p)" "hc_body call = Inr raw" "busy p < cap" for call raw
  proof -
    obtain cs1 cs2 where cs: "hp_waiting ?p = cs1 @ call # cs2" using call(1) by (auto simp: in_set_conv_decomp)
    let ?q = "?p\<lparr>hp_waiting := cs1 @ cs2, hp_reading := hp_reading ?p @ [call]\<rparr>"
    let ?r = "?q\<lparr>hp_reading := hp_reading ?p @ [], hp_running := hp_running ?q @ [new_xjob call undefined]\<rparr>"
    have "hpool_step endpoint cap ?p ?q" using acquires [OF cs] call(3) by (simp add: busy_def)
    moreover have "hpool_step endpoint cap ?q ?r" by (rule reads [OF _ call(2)]) simp
    ultimately have "(hpool_step endpoint cap)\<^sup>*\<^sup>* ?p ?r" by (meson converse_rtranclp_into_rtranclp rtranclp.rtrancl_refl)
    then show ?thesis by (intro exI [of _ ?r]) (simp add: new_xjob_def)
  qed
  show "hp_closed q" "in_flight q \<le> in_flight p" if "(hpool_step endpoint cap)\<^sup>*\<^sup>* ?p q" for q
    using http_closed.kept [OF that, of "in_flight p"] by (simp_all add: in_flight_def busy_def)
  obtain c where "cap = Suc c" using assms by (cases cap) auto
  then obtain q where "(hpool_step endpoint cap)\<^sup>*\<^sup>* ?p q" "work_left q = 0" using http_work.drains by blast
  then show "\<exists>q. (hpool_step endpoint cap)\<^sup>*\<^sup>* ?p q \<and> in_flight q = 0"
    by (intro exI [of _ q]) (simp add: work_left_def in_flight_def busy_def)
qed

theorem http_Close_does_not_drain_witness:
  "\<exists>q. (hpool_step ''q'' 1)\<^sup>*\<^sup>* ((idle_hpool :: unit hpool)\<lparr>hp_waiting := [demo_call], hp_closed := True\<rparr>) q
     \<and> demo_call \<in> xj_call ` set (hp_running q)"
  using http_Close_does_not_drain [of 1 "''q''" "(idle_hpool :: unit hpool)\<lparr>hp_waiting := [demo_call]\<rparr>"]
  by (simp add: busy_def idle_hpool_def demo_call_def)

end
