(* ===== verification/Adapter.thy ===== *)
theory Adapter
  imports Rpc Json "HOL-Library.AList"
begin

text \<open>
  Package \<^verbatim>\<open>adapter\<close> (\<^verbatim>\<open>adapter/adapter.go\<close>, \<^verbatim>\<open>adapter/transport.go\<close>): the builder, the
  bridge from an adapter handler to the delivery methods, \<^verbatim>\<open>Run\<close> with its deferred
  clean-up, and the retrying AMQP dial.

  \<^verbatim>\<open>amqp.Dial\<close>, the listening socket and the transports are outside this package: outcomes of
  the former and method tables of the latter are arguments of the definitions that call them
  (theory \<open>Hosting\<close> puts the two transports of the repository there). \<^verbatim>\<open>Run\<close> ranges over a Go
  map, so the iteration order is an argument too.
\<close>

section \<open>Configuration and registration\<close>

record config =
  cfg_Provider :: string
  cfg_IntegrationType :: string
  cfg_Version :: string
  cfg_DefaultTimeout :: int
  cfg_Concurrency :: int

datatype transport_ref =
    CustomTransport nat
  | HTTPTransport string
  | AMQPTransport string string

datatype before_run = BeforeHTTP string | BeforeAMQP string
datatype after_run = AfterHTTPShutdown string | AfterAMQPClose transport_ref

record 'h adapter =
  a_config :: config
  a_transport :: "transport_ref option"
  a_handlers :: "(string \<times> 'h) list"
  a_beforeRun :: "before_run option"
  a_afterRun :: "after_run option"

definition New :: "config \<Rightarrow> 'h adapter" where
  "New cfg =
     (let cfg1 = (if cfg_DefaultTimeout cfg = 0 then cfg\<lparr>cfg_DefaultTimeout := 30 * second\<rparr> else cfg);
          cfg2 = (if cfg_Concurrency cfg1 \<le> 0 then cfg1\<lparr>cfg_Concurrency := 1\<rparr> else cfg1)
      in \<lparr>a_config = cfg2, a_transport = None, a_handlers = [],
          a_beforeRun = None, a_afterRun = None\<rparr>)"

definition Register :: "string \<Rightarrow> 'h \<Rightarrow> 'h adapter \<Rightarrow> 'h adapter" where
  "Register capability handler a =
     a\<lparr>a_handlers := AList.update (norm_name capability) handler (a_handlers a)\<rparr>"

definition Transport :: "nat \<Rightarrow> 'h adapter \<Rightarrow> 'h adapter" where
  "Transport t a = a\<lparr>a_transport := Some (CustomTransport t)\<rparr>"

definition ListenHTTP :: "string \<Rightarrow> 'h adapter \<Rightarrow> 'h adapter" where
  "ListenHTTP addr a =
     a\<lparr>a_transport := Some (HTTPTransport addr), a_beforeRun := Some (BeforeHTTP addr),
       a_afterRun := Some (AfterHTTPShutdown addr)\<rparr>"

definition ListenAMQP :: "string \<Rightarrow> 'h adapter \<Rightarrow> 'h adapter" where
  "ListenAMQP url a = a\<lparr>a_beforeRun := Some (BeforeAMQP url)\<rparr>"

text \<open>The queue namespace \<^verbatim>\<open>ListenAMQP\<close> hands to \<^verbatim>\<open>SetEndpointPrefix\<close>.\<close>

definition queue_prefix :: "config \<Rightarrow> string" where
  "queue_prefix cfg =
     (let owner = (if cfg_IntegrationType cfg = [] then cfg_Provider cfg else cfg_IntegrationType cfg)
      in if owner = [] then [] else ''yggdrasil.adapter.'' @ owner @ ''.'')"


section \<open>Bridging handlers to deliveries\<close>

text \<open>\<^verbatim>\<open>adapter.Handler\<close>: body and content type, or an error.\<close>

type_synonym 's adapter_handler = "'s delivery \<Rightarrow> 's \<Rightarrow> (goerr + gobytes \<times> string) \<times> 's"

definition errorEnvelope :: "goerr \<Rightarrow> string" where
  "errorEnvelope err =
     ''{'' @ [CHR 0x22] @ ''error'' @ [CHR 0x22] @ '':'' @ [CHR 0x22]
     @ ReplaceAllChar (CHR 0x22) [CHR 0x5C, CHR 0x22] (error_text err)
     @ [CHR 0x22] @ ''}''"

definition wrap :: "'s adapter_handler \<Rightarrow> 's rpc_handler" where
  "wrap handler d s =
     (case handler d s of
        (Inl err, s1) \<Rightarrow>
          (let (_, s2) = Reply d (Some (errorEnvelope err)) application_json s1 in Nack d False s2)
      | (Inr (body, contentType), s1) \<Rightarrow>
          (case Reply d body contentType s1 of
             (Some replyErr, s2) \<Rightarrow> Nack d True s2
           | (None, s2) \<Rightarrow> Ack d s2))"


section \<open>Dialling with retries\<close>

definition maxAttempts :: nat where "maxAttempts = 30"
definition initialBackoff :: int where "initialBackoff = 1 * second"
definition maxBackoff :: int where "maxBackoff = 30 * second"

definition dial_next_backoff :: "int \<Rightarrow> int" where
  "dial_next_backoff backoff =
     (if backoff < maxBackoff then (if 2 * backoff > maxBackoff then maxBackoff else 2 * backoff)
      else backoff)"

text \<open>
  \<open>dial k\<close> is the outcome of the \<open>k\<close>-th \<^verbatim>\<open>amqp.Dial\<close>, an error or the connection, and
  \<open>cancelled k\<close> is \<^verbatim>\<open>ctx.Err()\<close> when the context ends the wait after attempt \<open>k\<close>. The
  result is the error or connection, the delays waited for, and the number of attempts made.
\<close>

function dial_from ::
  "(nat \<Rightarrow> goerr + nat) \<Rightarrow> (nat \<Rightarrow> goerr option) \<Rightarrow> string \<Rightarrow> nat \<Rightarrow> int \<Rightarrow> goerr option
   \<Rightarrow> (goerr + nat) \<times> int list \<times> nat" where
  "dial_from dial cancelled url attempt backoff lastErr =
     (if maxAttempts < attempt then
        (Inl (Wrap (''adapter: dial AMQP '' @ go_quote url @ '' failed after ''
                     @ show_nat maxAttempts @ '' attempts: '')
                 (case lastErr of Some e \<Rightarrow> e | None \<Rightarrow> ErrorText ''%!w(<nil>)'') []),
         [], attempt - 1)
      else
       (case dial attempt of
          Inr conn \<Rightarrow> (Inr conn, [], attempt)
        | Inl err \<Rightarrow>
            if attempt = maxAttempts then
              (Inl (Wrap (''adapter: dial AMQP '' @ go_quote url @ '' failed after ''
                           @ show_nat maxAttempts @ '' attempts: '') err []), [], attempt)
            else
             (case cancelled attempt of
                Some ctxErr \<Rightarrow>
                  (Inl (Wrap (''adapter: dial AMQP '' @ go_quote url @ '' cancelled after ''
                               @ show_nat attempt @ '' attempts: '') ctxErr []), [], attempt)
              | None \<Rightarrow>
                  (let (r, waits, n) =
                         dial_from dial cancelled url (Suc attempt) (dial_next_backoff backoff) (Some err)
                   in (r, backoff # waits, n)))))"
  by pat_completeness auto
termination
  by (relation "measure (\<lambda>(d, c, u, k, b, e). Suc maxAttempts - k)") auto

declare dial_from.simps [simp del]

definition dialAMQPWithRetry ::
  "(nat \<Rightarrow> goerr + nat) \<Rightarrow> (nat \<Rightarrow> goerr option) \<Rightarrow> string \<Rightarrow> (goerr + nat) \<times> int list \<times> nat" where
  "dialAMQPWithRetry dial cancelled url = dial_from dial cancelled url 1 initialBackoff None"


section \<open>Run\<close>

text \<open>
  What \<^verbatim>\<open>Run\<close> works with: \<open>http_listen addr\<close> is what the channel of the serving goroutine yields
  within 25 milliseconds (\<open>None\<close>: nothing; \<open>Some None\<close>: it was closed without an error),
  \<open>iface\<close> the method tables of the transports, \<open>new_amqp\<close> the construction of an AMQP transport
  from a connection and a queue prefix, \<open>http_shutdown\<close> the server's \<^verbatim>\<open>Shutdown\<close>, and
  \<open>while_serving\<close> what happens to the transports until the context is done.
\<close>

record ('t, 's) run_env =
  http_listen :: "string \<Rightarrow> goerr option option"
  amqp_dial :: "nat \<Rightarrow> goerr + nat"
  ctx_cancelled :: "nat \<Rightarrow> goerr option"
  iface :: "transport_ref \<Rightarrow> ('t, 's) transport_iface"
  new_amqp :: "nat \<Rightarrow> string \<Rightarrow> 't \<Rightarrow> 't"
  http_shutdown :: "'t \<Rightarrow> 't"
  while_serving :: "'t \<Rightarrow> 't"

datatype run_event = RanBefore | Consumed string nat | WaitedForDone | SubClosed nat | RanAfter

definition beforeRun :: "('t, 's) run_env \<Rightarrow> before_run \<Rightarrow> 'h adapter \<Rightarrow> 't \<Rightarrow> (goerr + 'h adapter) \<times> 't" where
  "beforeRun env b a w = (case b of
       BeforeHTTP addr \<Rightarrow>
         (case http_listen env addr of
            Some err \<Rightarrow>
              (Inl (Wrap (''adapter: http listen on '' @ go_quote addr @ '': '')
                      (case err of Some e \<Rightarrow> e | None \<Rightarrow> ErrorText ''%!w(<nil>)'') []), w)
          | None \<Rightarrow> (Inr a, w))
     | BeforeAMQP url \<Rightarrow>
         (case dialAMQPWithRetry (amqp_dial env) (ctx_cancelled env) url of
            (Inl err, _, _) \<Rightarrow> (Inl err, w)
          | (Inr conn, _, _) \<Rightarrow>
              (let prefix = queue_prefix (a_config a); t = AMQPTransport url prefix
               in (Inr (a\<lparr>a_transport := Some t, a_afterRun := Some (AfterAMQPClose t)\<rparr>), new_amqp env conn prefix w))))"

text \<open>The loop over the handlers: how it ends, the subscriptions opened, and the state.\<close>

fun consume_all :: "('t, 's) transport_iface \<Rightarrow> config \<Rightarrow> (string \<times> 's adapter_handler) list \<Rightarrow> 't
    \<Rightarrow> goerr option outcome \<times> (string \<times> nat) list \<times> 't" where
  "consume_all ops cfg [] w = (Returns None, [], w)"
| "consume_all ops cfg ((capability, handler) # hs) w =
     (case i_Consume ops \<lparr>cc_Endpoint = capability, cc_Handler = Some (wrap handler),
                          cc_Timeout = cfg_DefaultTimeout cfg, cc_Concurrency = cfg_Concurrency cfg\<rparr> w of
        (Returns (Inl err), w1) \<Rightarrow>
          (Returns (Some (Wrap (''adapter: consume '' @ go_quote capability @ '': '') err [])), [], w1)
      | (Returns (Inr i), w1) \<Rightarrow>
          (let (r, subs, w2) = consume_all ops cfg hs w1 in (r, (capability, i) # subs, w2))
      | (Deadlock, w1) \<Rightarrow> (Deadlock, [], w1)
      | (Panics m, w1) \<Rightarrow> (Panics m, [], w1))"

text \<open>The deferred loop over the subscriptions, and the hook after it: what each did and the state.\<close>

fun close_subs :: "('t, 's) transport_iface \<Rightarrow> nat list \<Rightarrow> 't \<Rightarrow> run_event list \<times> 't" where
  "close_subs ops [] w = ([], w)"
| "close_subs ops (i # ids) w =
     (let (_, w1) = i_SubClose ops i w; (evs, w2) = close_subs ops ids w1 in (SubClosed i # evs, w2))"

definition afterRun :: "('t, 's) run_env \<Rightarrow> after_run option \<Rightarrow> 't \<Rightarrow> goerr option outcome \<times> run_event list \<times> 't" where
  "afterRun env x w = (case x of
       None \<Rightarrow> (Returns None, [], w)
     | Some (AfterHTTPShutdown addr) \<Rightarrow> (Returns None, [RanAfter], http_shutdown env w)
     | Some (AfterAMQPClose t) \<Rightarrow> (let (r, w1) = i_Close (iface env t) w in (r, [RanAfter], w1)))"

text \<open>
  \<^verbatim>\<open>WithSignalHandler\<close>: what the goroutine sees, in order, and \<^verbatim>\<open>ctx.Err()\<close> of the returned context
  after it. Signals other than the two it asks for are never delivered to its channel.
\<close>

datatype os_signal = SIGINT | SIGTERM | OtherSignal nat

datatype ctx_event = Signalled os_signal | ParentDone goerr

fun WithSignalHandler :: "ctx_event list \<Rightarrow> goerr option" where
  "WithSignalHandler [] = None"
| "WithSignalHandler (e # es) = (case e of
       ParentDone err \<Rightarrow> Some err
     | Signalled sig \<Rightarrow> if sig = SIGINT \<or> sig = SIGTERM then Some Canceled else WithSignalHandler es)"

text \<open>
  \<^verbatim>\<open>Run\<close> up to the end of its loop over the handlers: an early return, or the transport with the
  cleanup to do, how the loop ended and what it opened. \<open>order\<close> is the order in which \<^verbatim>\<open>range\<close>
  visits the map of handlers.
\<close>

datatype 't started =
    Refused "goerr option" "run_event list" 't
  | Started transport_ref "after_run option" "run_event list" "goerr option outcome" "(string \<times> nat) list" 't

definition visited :: "string list \<Rightarrow> (string \<times> 'h) list \<Rightarrow> (string \<times> 'h) list" where
  "visited order handlers = List.map_filter (\<lambda>k. map_option (Pair k) (map_of handlers k)) order"

definition run_start :: "('t, 's) run_env \<Rightarrow> string list \<Rightarrow> 's adapter_handler adapter \<Rightarrow> 't \<Rightarrow> 't started" where
  "run_start env order a w =
     (if a_handlers a = [] then
        Refused (Some (ErrorText (''adapter: no handlers registered '' @ em_dash @ '' call Register before Run''))) [] w
      else
       let pre = (case a_beforeRun a of None \<Rightarrow> [] | Some _ \<Rightarrow> [RanBefore])
       in case (case a_beforeRun a of None \<Rightarrow> (Inr a, w) | Some b \<Rightarrow> beforeRun env b a w) of
            (Inl err, w1) \<Rightarrow> Refused (Some err) pre w1
          | (Inr a1, w1) \<Rightarrow>
             (case a_transport a1 of
                None \<Rightarrow>
                  Refused (Some (ErrorText (''adapter: no transport configured '' @ em_dash
                         @ '' call ListenHTTP, ListenAMQP, or Transport before Run''))) pre w1
              | Some t \<Rightarrow>
                  (let (r, subs, w2) = consume_all (iface env t) (a_config a1) (visited order (a_handlers a)) w1
                   in Started t (a_afterRun a1) (pre @ map (\<lambda>(c, i). Consumed c i) subs) r subs w2)))"

text \<open>
  The rest of \<^verbatim>\<open>Run\<close>: it waits for the context if every handler is consumed, and then, on a panic
  too, its deferred functions run in reverse order, first the closing of the subscriptions,
  then \<^verbatim>\<open>afterRun\<close>. A blocked goroutine never reaches them.
\<close>

definition Run :: "('t, 's) run_env \<Rightarrow> string list \<Rightarrow> 's adapter_handler adapter \<Rightarrow> 't
    \<Rightarrow> goerr option outcome \<times> run_event list \<times> 't" where
  "Run env order a w = (case run_start env order a w of
       Refused err evs w1 \<Rightarrow> (Returns err, evs, w1)
     | Started t after evs r subs w1 \<Rightarrow>
         if r = Deadlock then (Deadlock, evs, w1)
         else
          let w2 = (if r = Returns None then while_serving env w1 else w1);
              (closed, w3) = close_subs (iface env t) (map snd subs) w2;
              (r', hook, w4) = afterRun env after w3
          in (case r' of Returns _ \<Rightarrow> r | Deadlock \<Rightarrow> Deadlock | Panics m \<Rightarrow> Panics m,
              evs @ (if r = Returns None then [WaitedForDone] else []) @ closed @ hook,
              w4))"


section \<open>Registration\<close>

interpretation handlers: registry "\<lambda>a. map_of (a_handlers a)" Register norm_name
  by unfold_locales (simp add: Register_def update_conv')

lemma New_bounds:
  "1 \<le> cfg_Concurrency (a_config (New cfg))" "cfg_DefaultTimeout (a_config (New cfg)) \<noteq> 0"
  by (auto simp: New_def Let_def second_def)

lemma Register_distinct:
  "distinct (map fst (a_handlers a)) \<Longrightarrow> distinct (map fst (a_handlers (Register c h a)))"
  by (simp add: Register_def distinct_update)


section \<open>The error envelope\<close>

lemma ReplaceAllChar_append:
  "ReplaceAllChar c r (xs @ ys) = ReplaceAllChar c r xs @ ReplaceAllChar c r ys"
  by (simp add: ReplaceAllChar_def)

lemma ReplaceAllChar_absent: "c \<notin> set xs \<Longrightarrow> ReplaceAllChar c r xs = xs"
  by (induction xs) auto

lemma utf8_cont_bytes:
  assumes "utf8_size (c # cs) = n" "n \<noteq> 0" "128 \<le> byte c"
  shows "\<forall>x \<in> set (take n (c # cs)). 128 \<le> byte x"
proof -
  have n: "n = utf8_lead c" "utf8_tail c (take (n - 1) cs)"
    using assms by (auto simp: utf8_size_Cons split: if_splits)
  then have "\<forall>x \<in> set (take (n - 1) cs). 128 \<le> byte x"
    by (auto simp: utf8_tail_def byte_in_def cont_byte_def list_all_iff split: list.splits if_splits)
  moreover have "take n (c # cs) = c # take (n - 1) cs"
    using assms by (simp add: take_Cons')
  ultimately show ?thesis using assms(3) by auto
qed

text \<open>The context ends with the first of the two signals or with its parent, and only then.\<close>

lemma WithSignalHandler_iff:
  "WithSignalHandler es = None \<longleftrightarrow> set es \<subseteq> range (\<lambda>n. Signalled (OtherSignal n))"
proof (induction es)
  case (Cons e es)
  have "sig = SIGINT \<or> sig = SIGTERM \<or> (\<exists>n. sig = OtherSignal n)" for sig by (cases sig) auto
  then show ?case using Cons by (cases e) auto
qed simp

text \<open>Reading back a message in which only the quotes were escaped.\<close>

lemma unq_escaped_quotes:
  assumes "valid_utf8 s" "CHR 0x5C \<notin> set s"
  shows "unq (ReplaceAllChar (CHR 0x22) [CHR 0x5C, CHR 0x22] s @ CHR 0x22 # r) =
           (if \<forall>x \<in> set s. 32 \<le> byte x then Some (s, r) else None)"
  using assms
proof (induction s rule: valid_utf8.induct)
  case 1
  then show ?case by (simp add: unq.simps)
next
  case (2 c cs)
  let ?n = "utf8_size (c # cs)" and ?rest = "drop (utf8_size (c # cs) - 1) cs"
  let ?R = "ReplaceAllChar (CHR 0x22) [CHR 0x5C, CHR 0x22]"
  from "2.prems" have n: "?n \<noteq> 0" and v: "valid_utf8 ?rest" and nb: "CHR 0x5C \<notin> set ?rest"
    by (auto simp: valid_utf8.simps dest: in_set_dropD)
  have IH: "unq (?R ?rest @ CHR 0x22 # r) = (if \<forall>x \<in> set ?rest. 32 \<le> byte x then Some (?rest, r) else None)"
    using "2.IH" n v nb by blast
  show ?case
  proof (cases "byte c < 128")
    case True
    then have rest: "?rest = cs" by (simp add: utf8_size_ascii)
    have esc: "esc_char (CHR 0x22) = Some (CHR 0x22)" by (simp add: esc_char_def)
    consider "c = CHR 0x22" | "c \<noteq> CHR 0x22" "byte c < 32" | "c \<noteq> CHR 0x22" "32 \<le> byte c"
      by linarith
    then show ?thesis
    proof cases
      case 1
      then show ?thesis
        using IH esc unfolding rest by (auto simp: unq.simps(2) [of "CHR 0x5C"] byte_def)
    next
      case 2
      then show ?thesis
        using "2.prems" by (auto simp: unq.simps(2) [of c])
    next
      case 3
      then show ?thesis
        using True IH "2.prems" unfolding rest by (auto simp: unq_plain)
    qed
  next
    case False
    have hi: "\<forall>x \<in> set (take ?n (c # cs)). 128 \<le> byte x"
      using utf8_cont_bytes [OF refl n] False by simp
    have split: "c # cs = take ?n (c # cs) @ ?rest"
      using n by (cases ?n) auto
    have "CHR 0x22 \<notin> set (take ?n (c # cs))" using hi by (auto simp: byte_def)
    then have "?R (c # cs) = take ?n (c # cs) @ ?R ?rest"
      by (subst split, subst ReplaceAllChar_append, subst ReplaceAllChar_absent) (assumption, rule refl)
    then have eq: "unq (?R (c # cs) @ CHR 0x22 # r)
        = map_option (apfst (append (take ?n (c # cs)))) (unq (?R ?rest @ CHR 0x22 # r))"
      using unq_multibyte [OF refl n] False by simp
    have "(\<forall>x \<in> set (c # cs). 32 \<le> byte x) \<longleftrightarrow> (\<forall>x \<in> set ?rest. 32 \<le> byte x)"
      using hi by (subst split) fastforce
    then show ?thesis unfolding eq IH using split by (simp del: take_Cons')
  qed
qed

text \<open>An object with one string member, written the way the SDK builds such texts by hand.\<close>

lemma json_parse_single:
  assumes "unq (t @ CHR 0x22 # CHR ''}'' # []) = Some (v, ''}'')"
    and "\<And>r. unq (key @ CHR 0x22 # r) = Some (k, r)"
  shows "json_parse (''{'' @ [CHR 0x22] @ key @ [CHR 0x22] @ '':'' @ [CHR 0x22] @ t @ [CHR 0x22] @ ''}'')
           = Some (JObj [(k, JStr v)])"
  using assms by (simp add: json_parse_unfold skip_ws_Cons max_nesting_depth_def)

lemma unq_error_key: "unq (''error'' @ CHR 0x22 # r) = Some (''error'', r)"
  by (simp add: unq.simps byte_def utf8_size_ascii)


lemma json_parse_single_bad:
  assumes "unq (t @ CHR 0x22 # CHR ''}'' # []) = None" and "\<And>r. unq (key @ CHR 0x22 # r) = Some (k, r)"
  shows "json_parse (''{'' @ [CHR 0x22] @ key @ [CHR 0x22] @ '':'' @ [CHR 0x22] @ t @ [CHR 0x22] @ ''}'')
           = None"
  using assms by (simp add: json_parse_unfold skip_ws_Cons)

lemma errorEnvelope_parse:
  assumes "valid_utf8 (error_text err)" and "CHR 0x5C \<notin> set (error_text err)"
  shows "json_parse (errorEnvelope err) =
           (if \<forall>x \<in> set (error_text err). 32 \<le> byte x
            then Some (JObj [(''error'', JStr (error_text err))]) else None)"
proof -
  note u = unq_escaped_quotes [OF assms, of "''}''"]
  show ?thesis
  proof (cases "\<forall>x \<in> set (error_text err). 32 \<le> byte x")
    case True
    then have "unq (ReplaceAllChar (CHR 0x22) [CHR 0x5C, CHR 0x22] (error_text err) @ CHR 0x22 # ''}'')
        = Some (error_text err, ''}'')"
      unfolding u by simp
    from json_parse_single [OF this unq_error_key] show ?thesis
      unfolding errorEnvelope_def using True by simp
  next
    case False
    then have "unq (ReplaceAllChar (CHR 0x22) [CHR 0x5C, CHR 0x22] (error_text err) @ CHR 0x22 # ''}'')
        = None"
      unfolding u by simp
    from json_parse_single_bad [OF this unq_error_key] show ?thesis
      unfolding errorEnvelope_def using False by simp
  qed
qed


section \<open>The dial loop\<close>

interpretation dial_backoff: capped_backoff initialBackoff maxBackoff dial_next_backoff
  by unfold_locales (auto simp: initialBackoff_def maxBackoff_def second_def dial_next_backoff_def min_def)

lemma dial_wait: "(dial_next_backoff ^^ i) initialBackoff = min (2 ^ i) 30 * second"
  using dial_backoff.iterate [of i]
  by (simp add: initialBackoff_def maxBackoff_def second_def min_mult_distrib_right)

lemma dial_from_run:
  assumes "k \<le> maxAttempts" and "dial_from dial canc url k b e = (r, waits, n)"
  shows "k \<le> n \<and> n \<le> maxAttempts \<and> waits = map (\<lambda>i. (dial_next_backoff ^^ i) b) [0..<n - k]
    \<and> (\<forall>c. r = Inr c \<longleftrightarrow> dial n = Inr c) \<and> (\<forall>j. k \<le> j \<and> j < n \<longrightarrow> isl (dial j))"
  using assms
proof (induction dial canc url k b e arbitrary: r waits n rule: dial_from.induct)
  case (1 dial canc url k b e)
  show ?case
  proof (cases "(\<exists>c. dial k = Inr c) \<or> k = maxAttempts \<or> canc k \<noteq> None")
    case True
    then show ?thesis
      using "1.prems" by (auto simp: dial_from.simps [of dial canc url k] split: sum.splits option.splits if_splits)
  next
    case False
    then obtain err where err: "dial k = Inl err" "k \<noteq> maxAttempts" "canc k = None" by (cases "dial k") auto
    obtain ws where ws: "dial_from dial canc url (Suc k) (dial_next_backoff b) (Some err) = (r, ws, n)"
        "waits = b # ws"
      using "1.prems" err by (auto simp: dial_from.simps [of dial canc url k] split: prod.splits)
    have "Suc k \<le> n \<and> n \<le> maxAttempts
        \<and> ws = map (\<lambda>i. (dial_next_backoff ^^ i) (dial_next_backoff b)) [0..<n - Suc k]
        \<and> (\<forall>c. r = Inr c \<longleftrightarrow> dial n = Inr c) \<and> (\<forall>j. Suc k \<le> j \<and> j < n \<longrightarrow> isl (dial j))"
      using "1.IH" [OF _ err(1,2) err(3) _ ws(1)] "1.prems"(1) err(2) by auto
    moreover from this have "[0..<n - k] = 0 # map Suc [0..<n - Suc k]"
      by (simp add: map_Suc_upt Suc_diff_Suc upt_conv_Cons)
    moreover have "isl (dial j)" if "k \<le> j" "j < n" for j
      using calculation err(1) that by (cases "j = k") auto
    ultimately show ?thesis
      using ws(2) by (simp add: comp_def funpow_swap1)
  qed
qed

lemma dial_all_fail:
  assumes "\<And>k. dial k = Inl (f k)" and "\<And>k. canc k = None" and "k \<le> maxAttempts"
  shows "\<exists>r ws. dial_from dial canc url k b e = (Inl r, ws, maxAttempts)"
  using assms(3)
proof (induction dial\<equiv>dial canc\<equiv>canc url k b e rule: dial_from.induct)
  case (1 url k b e)
  show ?case
  proof (cases "k = maxAttempts")
    case True
    then show ?thesis
      using assms(1) by (simp add: dial_from.simps [of dial canc url maxAttempts])
  next
    case False
    then obtain r ws where "dial_from dial canc url (Suc k) (dial_next_backoff b) (Some (f k))
        = (Inl r, ws, maxAttempts)"
      using "1.hyps" [OF _ assms(1) False assms(2)] "1.prems" by auto
    then show ?thesis
      using False "1.prems" assms(1,2) by (simp add: dial_from.simps [of dial canc url k])
  qed
qed


section \<open>Run\<close>

lemma visited_keys: "set order \<subseteq> fst ` set hs \<Longrightarrow> map fst (visited order hs) = order"
proof (induction order)
  case (Cons k ks)
  then have "map_of hs k \<noteq> None" by (simp add: map_of_eq_None_iff)
  with Cons show ?case by (auto simp: visited_def List.map_filter_simps)
qed (simp add: visited_def List.map_filter_simps)

lemma visited_handler: "(k, h) \<in> set (visited order hs) \<longleftrightarrow> k \<in> set order \<and> map_of hs k = Some h"
  by (induction order) (auto simp: visited_def List.map_filter_simps split: option.splits)

lemma consume_all_caps:
  "consume_all ops cfg hs w = (r, ss, w') \<Longrightarrow>
   prefix (map fst ss) (map fst hs) \<and> (r = Returns None \<longrightarrow> map fst ss = map fst hs)"
  by (induction hs arbitrary: r ss w w') (auto split: prod.splits outcome.splits sum.splits)

text \<open>The ids of the subscriptions that a trace shows opened, and closed.\<close>

definition opened :: "run_event list \<Rightarrow> nat list" where
  "opened evs = List.map_filter (\<lambda>e. case e of Consumed c i \<Rightarrow> Some i | _ \<Rightarrow> None) evs"

definition ended :: "run_event list \<Rightarrow> nat list" where
  "ended evs = List.map_filter (\<lambda>e. case e of SubClosed i \<Rightarrow> Some i | _ \<Rightarrow> None) evs"

lemma trace_append:
  "opened (xs @ ys) = opened xs @ opened ys" "ended (xs @ ys) = ended xs @ ended ys"
  by (simp_all add: opened_def ended_def List.map_filter_def)

lemma trace_simps [simp]:
  "opened [] = []" "ended [] = []" "opened [RanBefore] = []" "ended [RanBefore] = []"
  "opened [WaitedForDone] = []" "ended [WaitedForDone] = []" "opened [RanAfter] = []" "ended [RanAfter] = []"
  "opened (map (\<lambda>(c, i). Consumed c i) ss) = map snd ss" "ended (map (\<lambda>(c, i). Consumed c i) ss) = []"
  "opened (map SubClosed ids) = []" "ended (map SubClosed ids) = ids"
  "opened (map (SubClosed \<circ> snd) ss) = []" "ended (map (SubClosed \<circ> snd) ss) = map snd ss"
  by (simp_all add: opened_def ended_def List.map_filter_simps)
    (induction ss; auto simp: List.map_filter_simps | induction ids; auto simp: List.map_filter_simps)+

lemma beforeRun_config:
  "beforeRun env b a w = (Inr a1, w1) \<Longrightarrow> a_config a1 = a_config a \<and> a_handlers a1 = a_handlers a"
  by (auto simp: beforeRun_def Let_def split: before_run.splits option.splits prod.splits sum.splits)

lemma run_start_started:
  assumes "run_start env order a w = Started t after evs r ss w1"
  shows "\<exists>pre w0. evs = pre @ map (\<lambda>(c, i). Consumed c i) ss \<and> pre \<in> {[], [RanBefore]}
    \<and> consume_all (iface env t) (a_config a) (visited order (a_handlers a)) w0 = (r, ss, w1)"
  using assms beforeRun_config
  by (fastforce simp: run_start_def Let_def split: if_splits option.splits prod.splits sum.splits)

lemma run_start_refused:
  assumes "run_start env order a w = Refused err evs w1"
  shows "evs \<in> {[], [RanBefore]} \<and> err \<noteq> None"
  using assms by (auto simp: run_start_def Let_def split: if_splits option.splits prod.splits sum.splits)

lemma opened_mem: "Consumed c i \<in> set evs \<Longrightarrow> i \<in> set (opened evs)"
  by (induction evs) (auto simp: opened_def List.map_filter_simps split: run_event.splits)

lemma close_subs_eq:
  "close_subs ops ids w = (map SubClosed ids, fold (\<lambda>i w. snd (i_SubClose ops i w)) ids w)"
  by (induction ids arbitrary: w) (simp_all add: case_prod_beta Let_def)

lemma afterRun_events: "fst (snd (afterRun env x w)) = (if x = None then [] else [RanAfter])"
  by (auto simp: afterRun_def case_prod_beta Let_def split: option.split after_run.split)

text \<open>What a \<^verbatim>\<open>Run\<close> that ends did: the trace up to its cleanup, and the cleanup's last step.\<close>

lemma Run_ended:
  assumes "Run env order a w = (r, evs, w')" and "r \<noteq> Deadlock"
    and "run_start env order a w = Started t x evs1 r1 ss w1"
  shows "RanAfter \<notin> set (butlast evs)" "opened evs = map snd ss" "ended evs = map snd ss"
    "fst (afterRun env x (fold (\<lambda>i w. snd (i_SubClose (iface env t) i w)) (map snd ss)
      (if r1 = Returns None then while_serving env w1 else w1))) \<noteq> Deadlock"
    "w' = snd (snd (afterRun env x (fold (\<lambda>i w. snd (i_SubClose (iface env t) i w)) (map snd ss)
      (if r1 = Returns None then while_serving env w1 else w1))))"
    "x \<noteq> None \<Longrightarrow> last evs = RanAfter"
proof -
  obtain pre where pre: "evs1 = pre @ map (\<lambda>(c, i). Consumed c i) ss" "pre \<in> {[], [RanBefore]}"
    using run_start_started [OF assms(3)] by blast
  let ?main = "evs1 @ (if r1 = Returns None then [WaitedForDone] else []) @ map SubClosed (map snd ss)"
  let ?v = "fold (\<lambda>i w. snd (i_SubClose (iface env t) i w)) (map snd ss)
      (if r1 = Returns None then while_serving env w1 else w1)"
  have "r1 \<noteq> Deadlock" using assms by (auto simp: Run_def)
  then have evs: "evs = ?main @ fst (snd (afterRun env x ?v))" and w': "w' = snd (snd (afterRun env x ?v))"
    and r: "fst (afterRun env x ?v) \<noteq> Deadlock"
    using assms by (auto simp: Run_def Let_def case_prod_beta close_subs_eq)
  note evs = evs [unfolded afterRun_events]
  have "RanAfter \<notin> set ?main" using pre by auto
  then show "RanAfter \<notin> set (butlast evs)"
    unfolding evs by (cases "x = None") (auto simp: butlast_append simp del: append_assoc dest: in_set_butlastD)
  show "opened evs = map snd ss" "ended evs = map snd ss"
    using pre(2) unfolding evs pre(1) by (auto simp: trace_append)
  show "w' = snd (snd (afterRun env x ?v))" by (rule w')
  show "fst (afterRun env x ?v) \<noteq> Deadlock" by (rule r)
  show "last evs = RanAfter" if "x \<noteq> None" using that unfolding evs by auto
qed

text \<open>
  In the trace of a \<^verbatim>\<open>Run\<close> that ends, the subscriptions closed are the ones opened, in the same
  order, and \<^verbatim>\<open>afterRun\<close> (server shutdown, broker close) comes after all of them.
\<close>

lemma Run_trace:
  assumes "Run env order a w = (r, evs, w')" and "r \<noteq> Deadlock"
  shows "opened evs = ended evs \<and> RanAfter \<notin> set (butlast evs)"
proof (cases "run_start env order a w")
  case (Refused err evs1 w1)
  then show ?thesis using assms run_start_refused [OF Refused] by (auto simp: Run_def)
next
  case (Started t after evs1 r1 ss w1)
  then show ?thesis using Run_ended [OF assms Started] by simp
qed

context transport_contract
begin

lemma consume_all_live:
  "consume_all ops cfg hs w = (r, ss, w') \<Longrightarrow>
   distinct (map snd ss) \<and> snd ` set ss \<inter> subs w = {} \<and> subs w' = subs w \<union> snd ` set ss
   \<and> (\<forall>i \<in> snd ` set ss. live w' i) \<and> (\<forall>j \<in> subs w. live w' j = live w j)"
proof (induction hs arbitrary: w r ss w')
  case (Cons kh hs)
  obtain k h where kh: "kh = (k, h)" by force
  let ?cfg = "\<lparr>cc_Endpoint = k, cc_Handler = Some (wrap h), cc_Timeout = cfg_DefaultTimeout cfg,
      cc_Concurrency = cfg_Concurrency cfg\<rparr>"
  obtain x w1 where x: "i_Consume ops ?cfg w = (x, w1)" by force
  show ?case
  proof (cases "\<exists>i. x = Returns (Inr i)")
    case True
    then obtain i where i: "x = Returns (Inr i)" by blast
    obtain r2 ss2 w2 where rest: "consume_all ops cfg hs w1 = (r2, ss2, w2)" by (cases "consume_all ops cfg hs w1")
    then have res: "ss = (k, i) # ss2" "w' = w2" using Cons.prems x i kh by auto
    show ?thesis using Cons.IH [OF rest] consume_new [OF x [unfolded i]] res by auto
  next
    case False
    then have "ss = []" "w' = w1" using Cons.prems x kh by (auto split: outcome.splits sum.splits)
    then show ?thesis using consume_none [OF x] False by auto
  qed
qed simp

text \<open>
  A \<^verbatim>\<open>Run\<close> that ends leaves none of its subscriptions live, whatever happened while it served,
  provided that the cleanup revives none.
\<close>

lemma Run_closes:
  assumes run: "Run env order a w = (r, evs, w')" "r \<noteq> Deadlock" and ops: "\<And>t. iface env t = ops"
    and after: "\<And>x v j. \<not> live v j \<Longrightarrow> \<not> live (snd (snd (afterRun env x v))) j"
    and i: "Consumed c i \<in> set evs"
  shows "\<not> live w' i"
proof (cases "run_start env order a w")
  case (Refused err evs1 w1)
  then show ?thesis using run i run_start_refused [OF Refused] by (auto simp: Run_def)
next
  case (Started t x evs1 r1 ss w1)
  note m = Run_ended [OF run Started]
  have "i \<in> set (map snd ss)" using opened_mem [OF i] m(2) by simp
  then show ?thesis unfolding m(5) ops using close_each by (intro after) blast
qed

end


section \<open>Properties\<close>

text \<open>
  the last of \<^verbatim>\<open>Transport\<close>, \<^verbatim>\<open>ListenHTTP\<close> and \<^verbatim>\<open>ListenAMQP\<close> does not always win. A transport set after
  \<^verbatim>\<open>ListenAMQP\<close> is ignored: \<^verbatim>\<open>Run\<close> behaves in every environment as if \<^verbatim>\<open>Transport\<close> had not been called. And
  a transport set after \<^verbatim>\<open>ListenHTTP\<close> does not undo the listening: \<^verbatim>\<open>Run\<close> fails when the address
  cannot be bound.
\<close>

theorem last_transport_does_not_win:
  assumes "a_handlers a \<noteq> []" and "http_listen env addr = Some (Some err)"
  shows "Run env order (Transport t (ListenAMQP url a)) w = Run env order (ListenAMQP url a) w
   \<and> Run env order (Transport t (ListenHTTP addr a)) w
        = (Returns (Some (Wrap (''adapter: http listen on '' @ go_quote addr @ '': '') err [])), [RanBefore], w)"
  using assms
  by (simp add: Run_def run_start_def beforeRun_def Transport_def ListenAMQP_def ListenHTTP_def Let_def split: prod.split sum.split)

text \<open>An environment in which no address can be bound and no broker answers.\<close>

definition nothing_up :: "('t, 's) transport_iface \<Rightarrow> ('t, 's) run_env" where
  "nothing_up ops = \<lparr>http_listen = (\<lambda>_. Some (Some (ErrorText ''address already in use''))), amqp_dial = (\<lambda>_. Inl (ErrorText ''refused'')),
     ctx_cancelled = (\<lambda>_. None), iface = (\<lambda>_. ops), new_amqp = (\<lambda>_ _ w. w), http_shutdown = (\<lambda>w. w), while_serving = (\<lambda>w. w)\<rparr>"

theorem last_transport_does_not_win_witness:
  "\<forall>ops cfg (w :: nat). fst (Run (nothing_up ops) [''execute''] (Transport 7 (ListenHTTP '':80''
       (Register ''execute'' (\<lambda>d (s :: unit). (Inr (None, []), s)) (New cfg)))) w)
     = Returns (Some (Wrap (''adapter: http listen on '' @ go_quote '':80'' @ '': '') (ErrorText ''address already in use'') []))"
proof (intro allI)
  fix ops :: "(nat, unit) transport_iface" and cfg :: config and w :: nat
  let ?a = "Register ''execute'' (\<lambda>d (s :: unit). (Inr (None, []), s)) (New cfg)"
  have "a_handlers ?a \<noteq> []" by (cases "a_handlers (New cfg)") (simp_all add: Register_def)
  moreover have "http_listen (nothing_up ops) '':80'' = Some (Some (ErrorText ''address already in use''))"
    by (simp add: nothing_up_def)
  ultimately have "Run (nothing_up ops) [''execute''] (Transport 7 (ListenHTTP '':80'' ?a)) w
     = (Returns (Some (Wrap (''adapter: http listen on '' @ go_quote '':80'' @ '': '') (ErrorText ''address already in use'') [])), [RanBefore], w)"
    by (rule last_transport_does_not_win [THEN conjunct2])
  then show "fst (Run (nothing_up ops) [''execute''] (Transport 7 (ListenHTTP '':80'' ?a)) w)
     = Returns (Some (Wrap (''adapter: http listen on '' @ go_quote '':80'' @ '': '') (ErrorText ''address already in use'') []))"
    by simp
qed

text \<open>
  \<^bold>\<open>C29\<close>: \<^verbatim>\<open>dialAMQPWithRetry\<close> makes between 1 and 30 attempts, succeeds exactly when the last one
  connects, never dials again after a success, and waits 1, 2, 4, 8, 16 and then 30 seconds
  between attempts; the connection it returns is that of its last attempt.
\<close>

theorem dialAMQPWithRetry_schedule:
  assumes "dialAMQPWithRetry dial cancelled url = (r, waits, n)"
  shows "1 \<le> n \<and> n \<le> 30 \<and> waits = map (\<lambda>i. min (2 ^ i) 30 * second) [0..<n - 1]
    \<and> (\<forall>conn. r = Inr conn \<longleftrightarrow> dial n = Inr conn) \<and> (\<forall>j. 1 \<le> j \<and> j < n \<longrightarrow> isl (dial j))"
  using dial_from_run [where k = 1, OF _ assms [unfolded dialAMQPWithRetry_def]]
  by (simp add: maxAttempts_def dial_wait)

theorem dialAMQPWithRetry_schedule_witness:
  "dialAMQPWithRetry (\<lambda>k. if k < 3 then Inl (ErrorText ''refused'') else Inr 7) (\<lambda>_. None) ''amqp://mq''
     = (Inr 7, [1 * second, 2 * second], 3) \<and> [1 * second, 2 * second] = map (\<lambda>i. min (2 ^ i) 30 * second) [0..<3 - 1]"
proof -
  have run: "dialAMQPWithRetry (\<lambda>k. if k < 3 then Inl (ErrorText ''refused'') else Inr 7) (\<lambda>_. None) ''amqp://mq''
     = (Inr 7, [1 * second, 2 * second], 3)"
    by (simp add: dialAMQPWithRetry_def dial_from.simps maxAttempts_def initialBackoff_def
        dial_next_backoff_def maxBackoff_def second_def)
  show ?thesis using dialAMQPWithRetry_schedule [OF run] run by simp
qed

text \<open>
  a broker that stays down costs 30 attempts and 751 seconds (about twelve and a half
  minutes) of waiting before the error is returned.
\<close>

theorem dialAMQPWithRetry_budget:
  assumes "\<forall>k. isl (dial k)" and "\<forall>k. cancelled k = None"
  shows "\<exists>e waits. dialAMQPWithRetry dial cancelled url = (Inl e, waits, 30) \<and> sum_list waits = 751 * second"
proof -
  have f: "dial k = Inl (projl (dial k))" for k using assms(1) by simp
  obtain e waits where run: "dialAMQPWithRetry dial cancelled url = (Inl e, waits, maxAttempts)"
    using dial_all_fail [where dial = dial and canc = cancelled and k = 1 and url = url and b = initialBackoff
        and e = None, OF f] assms(2)
    by (auto simp: dialAMQPWithRetry_def maxAttempts_def)
  have "waits = map (\<lambda>i. min (2 ^ i) 30 * second) [0..<29]"
    using dial_from_run [where k = 1, OF _ run [unfolded dialAMQPWithRetry_def]]
    by (simp add: maxAttempts_def dial_wait)
  then have "sum_list waits = sum_list (map (\<lambda>i. min (2 ^ i) 30) [0..<29]) * second"
    by (simp only: sum_list_mult_const)
  moreover have "sum_list (map (\<lambda>i. min (2 ^ i) 30) [0..<29]) = (751 :: int)" by code_simp
  ultimately show ?thesis using run by (simp add: maxAttempts_def)
qed

theorem dialAMQPWithRetry_budget_witness:
  "\<exists>e waits. dialAMQPWithRetry (\<lambda>_. Inl (ErrorText ''refused'')) (\<lambda>_. None) ''amqp://mq'' = (Inl e, waits, 30)
     \<and> sum_list waits = 751 * second"
  by (rule dialAMQPWithRetry_budget) simp_all

text \<open>
  \<^bold>\<open>C36\<close>: the hand-built error envelope. For an error message that is valid UTF-8 without
  backslashes it is a JSON object carrying exactly the message, provided the message has no
  control character; with one (a newline, say) the reply is not JSON at all, because
  \<^verbatim>\<open>errorEnvelope\<close> escapes only quotes.
\<close>

theorem errorEnvelope_json:
  assumes "valid_utf8 (error_text err)" and "CHR 0x5C \<notin> set (error_text err)"
  shows "json_parse (errorEnvelope err) =
           (if \<forall>x \<in> set (error_text err). 32 \<le> byte x
            then Some (JObj [(''error'', JStr (error_text err))]) else None)"
  using assms by (rule errorEnvelope_parse)

theorem errorEnvelope_json_witness:
  "json_parse (errorEnvelope (ErrorText [CHR ''a'', CHR 0x22, CHR ''b''])) =
     Some (JObj [(''error'', JStr [CHR ''a'', CHR 0x22, CHR ''b''])])
   \<and> json_parse (errorEnvelope (ErrorText [CHR ''a'', CHR 0x0A])) = None"
proof -
  have v: "valid_utf8 (error_text (ErrorText [CHR ''a'', CHR 0x22, CHR ''b'']))"
      "valid_utf8 (error_text (ErrorText [CHR ''a'', CHR 0x0A]))"
    by (auto intro!: valid_utf8_ascii simp: byte_def)
  show ?thesis
    using errorEnvelope_json [OF v(1)] errorEnvelope_json [OF v(2)] by (simp add: byte_def)
qed

end
