(* ===== verification/Hosting.thy ===== *)
theory Hosting
  imports Adapter Amqp HttpTransport
begin

text \<open>
  \<^verbatim>\<open>Adapter.Run\<close> on the transports of the repository: the method tables of \<^verbatim>\<open>rpc/http\<close> and \<^verbatim>\<open>rpc/amqp\<close>
  as values of the interface \<^verbatim>\<open>rpc.Transport\<close>, the transports that \<^verbatim>\<open>ListenHTTP\<close> and \<^verbatim>\<open>ListenAMQP\<close>
  build (\<^verbatim>\<open>adapter/transport.go\<close>), and what holds of an adapter while it serves and after it has
  stopped.
\<close>

section \<open>The transports as values of the interface\<close>

definition http_ops :: "(string \<Rightarrow> goerr option) \<Rightarrow> http_do \<Rightarrow> ('u http_transport, 'u hstate) transport_iface" where
  "http_ops build clientDo =
     \<lparr>i_Consume = HttpTransport.Consume,
      i_Request = (\<lambda>req t. (Returns (Some (HttpTransport.Request t build clientDo req)), t)),
      i_Publish = (\<lambda>req t. (Returns (HttpTransport.Publish t build clientDo req), t)),
      i_Close = (\<lambda>t. (Returns None, HttpTransport.Close t)),
      i_SubEndpoint = (\<lambda>i t. hsub_endpoint (ht_store t i)),
      i_SubClose = (\<lambda>i t. (None, HttpTransport.sub_Close i t))\<rparr>"

definition amqp_ops :: "'n lib \<Rightarrow> string \<Rightarrow> wait_event list \<Rightarrow> ('n transport, 's) transport_iface" where
  "amqp_ops l uuid events =
     \<lparr>i_Consume = Amqp.Consume l,
      i_Request = Amqp.Request l uuid events,
      i_Publish = Amqp.Publish l,
      i_Close = Amqp.Close l,
      i_SubEndpoint = (\<lambda>i t. sub_endpoint (t_store t i)),
      i_SubClose = Amqp.sub_Close l\<rparr>"

interpretation http_host: transport_contract "http_ops build clientDo" "\<lambda>t. {..<ht_next t}" "\<lambda>t i. \<not> hsub_closed (ht_store t i)"
  for build clientDo
  by unfold_locales
    (auto simp: http_ops_def HttpTransport.Consume_def HttpTransport.sub_Close_def Let_def
      split: if_splits option.splits)

lemma amqp_Consume_frame:
  assumes "Amqp.Consume l cfg t = (r, t')"
  shows "case r of Returns (Inr i) \<Rightarrow> i = t_nextSub t \<and> t_nextSub t' = Suc i \<and> \<not> sub_done (t_store t' i)
        \<and> sub_endpoint (t_store t' i) = t_endpointPrefix t @ cc_Endpoint cfg \<and> (\<forall>j. j \<noteq> i \<longrightarrow> t_store t' j = t_store t j)
      | _ \<Rightarrow> t_nextSub t' = t_nextSub t \<and> t_store t' = t_store t"
proof -
  obtain o1 t1 where su: "setupConsumer l (t_endpointPrefix t @ cc_Endpoint cfg) (cc_Concurrency (consume_defaults cfg)) t = (o1, t1)"
    by force
  have "cc_Endpoint (consume_defaults cfg) = cc_Endpoint cfg" by (simp add: consume_defaults_def Let_def)
  then show ?thesis
    using assms su setupConsumer_frame [OF su] by (cases o1) (auto simp: Amqp.Consume_def Let_def split: if_splits sum.splits)
qed

interpretation amqp_host: transport_contract "amqp_ops l uuid events" "\<lambda>t. {..<t_nextSub t}" "\<lambda>t i. \<not> sub_done (t_store t i)"
  for l uuid events
proof unfold_locales
  fix cfg :: "'b consumer_config" and t t' :: "'a transport" and i r
  show "i \<notin> {..<t_nextSub t} \<and> {..<t_nextSub t'} = insert i {..<t_nextSub t} \<and> \<not> sub_done (t_store t' i)
      \<and> (\<forall>j\<in>{..<t_nextSub t}. (\<not> sub_done (t_store t' j)) = (\<not> sub_done (t_store t j)))"
    if "i_Consume (amqp_ops l uuid events) cfg t = (Returns (Inr i), t')"
    using amqp_Consume_frame [of l cfg t _ t'] that by (auto simp: amqp_ops_def)
  show "{..<t_nextSub t'} = {..<t_nextSub t} \<and> (\<forall>j\<in>{..<t_nextSub t}. (\<not> sub_done (t_store t' j)) = (\<not> sub_done (t_store t j)))"
    if "i_Consume (amqp_ops l uuid events) cfg t = (r, t')" "\<And>i. r \<noteq> Returns (Inr i)"
    using amqp_Consume_frame [of l cfg t r t'] that by (auto simp: amqp_ops_def split: outcome.splits sum.splits)
  show "{..<t_nextSub (snd (i_SubClose (amqp_ops l uuid events) i t))} = {..<t_nextSub t}
      \<and> \<not> \<not> sub_done (t_store (snd (i_SubClose (amqp_ops l uuid events) i t)) i)
      \<and> (\<forall>j. j \<noteq> i \<longrightarrow> (\<not> sub_done (t_store (snd (i_SubClose (amqp_ops l uuid events) i t)) j)) = (\<not> sub_done (t_store t j)))"
    by (auto simp: amqp_ops_def Amqp.sub_Close_def Let_def call_def split: option.splits prod.splits)
qed


section \<open>The transports of ListenHTTP and ListenAMQP\<close>

definition no_http_subs :: "nat \<Rightarrow> 'u http_sub" where
  "no_http_subs = (\<lambda>_. \<lparr>hsub_endpoint = [], hsub_concurrency = 1, hsub_timeout = 0, hsub_handler = (\<lambda>d s. (None, s)),
     hsub_closed = True\<rparr>)"

definition listen_http_transport :: "'u http_transport" where
  "listen_http_transport = New_http (Some \<lparr>ht_BaseURL = [], ht_Mux = Some [], ht_Client = None, ht_PathPrefix = [],
     ht_subs = [], ht_store = no_http_subs, ht_next = 0, ht_closed = False, ht_idleClosed = False\<rparr>) no_http_subs"

definition listen_amqp_transport :: "nat \<Rightarrow> string \<Rightarrow> 'n \<Rightarrow> 'n transport" where
  "listen_amqp_transport conn pfx n =
     (let t = SetDialFunc True (New_transport (Some conn) n)
      in if pfx = [] then t else SetEndpointPrefix pfx t)"

text \<open>
  The environments of \<^verbatim>\<open>Run\<close>. Shutting the HTTP server down closes sockets and leaves the
  transport as it is; \<open>serving\<close> is what others do to the transport while \<^verbatim>\<open>Run\<close> waits.
\<close>

definition http_env :: "(string \<Rightarrow> goerr option option) \<Rightarrow> (string \<Rightarrow> goerr option) \<Rightarrow> http_do
    \<Rightarrow> ('u http_transport \<Rightarrow> 'u http_transport) \<Rightarrow> ('u http_transport, 'u hstate) run_env" where
  "http_env listen build clientDo serving = \<lparr>http_listen = listen, amqp_dial = (\<lambda>_. Inl (ErrorText ''no broker'')),
     ctx_cancelled = (\<lambda>_. None), iface = (\<lambda>_. http_ops build clientDo), new_amqp = (\<lambda>_ _ t. t), http_shutdown = (\<lambda>t. t),
     while_serving = serving\<rparr>"

lemma http_env_simps [simp]:
  "http_listen (http_env listen b d serving) = listen" "iface (http_env listen b d serving) t = http_ops b d"
  "while_serving (http_env listen b d serving) = serving" "http_shutdown (http_env listen b d serving) w = w"
  by (simp_all add: http_env_def)

definition amqp_env :: "'n lib \<Rightarrow> string \<Rightarrow> wait_event list \<Rightarrow> (nat \<Rightarrow> goerr + nat) \<Rightarrow> (nat \<Rightarrow> goerr option)
    \<Rightarrow> ('n transport \<Rightarrow> 'n transport) \<Rightarrow> ('n transport, 's) run_env" where
  "amqp_env l uuid events dial cancelled serving = \<lparr>http_listen = (\<lambda>_. None), amqp_dial = dial, ctx_cancelled = cancelled,
     iface = (\<lambda>_. amqp_ops l uuid events), new_amqp = (\<lambda>conn pfx t. listen_amqp_transport conn pfx (t_net t)),
     http_shutdown = (\<lambda>t. t), while_serving = serving\<rparr>"



section \<open>Consuming on HTTP\<close>

definition http_sub_of :: "config \<Rightarrow> string \<times> 'u hstate adapter_handler \<Rightarrow> 'u http_sub" where
  "http_sub_of cfg ch = \<lparr>hsub_endpoint = fst ch,
     hsub_concurrency = (if cfg_Concurrency cfg \<le> 0 then 1 else cfg_Concurrency cfg),
     hsub_timeout = (if cfg_DefaultTimeout cfg \<le> 0 then 30 * second else cfg_DefaultTimeout cfg),
     hsub_handler = wrap (snd ch), hsub_closed = False\<rparr>"

lemma Consume_http:
  assumes "ht_Mux t = Some mux" "c \<noteq> []" "ht_PathPrefix t @ c \<notin> fst ` set mux"
  shows "HttpTransport.Consume \<lparr>cc_Endpoint = c, cc_Handler = Some (wrap h), cc_Timeout = cfg_DefaultTimeout cfg,
      cc_Concurrency = cfg_Concurrency cfg\<rparr> t
    = (Returns (Inr (ht_next t)), t\<lparr>ht_Mux := Some (mux @ [(ht_PathPrefix t @ c, ht_next t)]),
        ht_store := (ht_store t)(ht_next t := http_sub_of cfg (c, h)), ht_next := Suc (ht_next t),
        ht_subs := ht_subs t @ [ht_next t]\<rparr>)"
  using assms by (simp add: HttpTransport.Consume_def http_sub_of_def Let_def)

lemma consume_all_http:
  assumes "ht_Mux t = Some mux" "distinct (map fst hs)" "[] \<notin> fst ` set hs"
    "\<And>c. c \<in> fst ` set hs \<Longrightarrow> ht_PathPrefix t @ c \<notin> fst ` set mux"
  shows "\<exists>t'. consume_all (http_ops b d) cfg hs t
      = (Returns None, zip (map fst hs) [ht_next t..<ht_next t + length hs], t')
    \<and> ht_Mux t' = Some (mux @ zip (map (\<lambda>ch. ht_PathPrefix t @ fst ch) hs) [ht_next t..<ht_next t + length hs])
    \<and> (\<forall>j < ht_next t. ht_store t' j = ht_store t j)
    \<and> (\<forall>k < length hs. ht_store t' (ht_next t + k) = http_sub_of cfg (hs ! k)) \<and> ht_PathPrefix t' = ht_PathPrefix t"
  using assms
proof (induction hs arbitrary: t mux)
  case (Cons ch hs)
  obtain c h where ch: "ch = (c, h)" by force
  let ?n = "ht_next t" and ?p = "ht_PathPrefix t"
  let ?t = "t\<lparr>ht_Mux := Some (mux @ [(?p @ c, ?n)]), ht_store := (ht_store t)(?n := http_sub_of cfg (c, h)),
      ht_next := Suc ?n, ht_subs := ht_subs t @ [?n]\<rparr>"
  have "c \<noteq> []" "?p @ c \<notin> fst ` set mux" using Cons.prems(3,4) ch by auto
  note con = Consume_http [OF Cons.prems(1) this, of h cfg]
  have rest: "distinct (map fst hs)" "[] \<notin> fst ` set hs" using Cons.prems(2,3) by auto
  have "ht_PathPrefix ?t @ c' \<notin> fst ` set (mux @ [(?p @ c, ?n)])" if "c' \<in> fst ` set hs" for c'
    using that Cons.prems(2,4) ch by auto
  from Cons.IH [of ?t, OF _ rest this] obtain t' where t':
      "consume_all (http_ops b d) cfg hs ?t = (Returns None, zip (map fst hs) [Suc ?n..<Suc ?n + length hs], t')"
      "ht_Mux t' = Some ((mux @ [(?p @ c, ?n)]) @ zip (map (\<lambda>ch. ?p @ fst ch) hs) [Suc ?n..<Suc ?n + length hs])"
      "\<forall>j < Suc ?n. ht_store t' j = ht_store ?t j"
      "\<forall>k < length hs. ht_store t' (Suc ?n + k) = http_sub_of cfg (hs ! k)" "ht_PathPrefix t' = ?p"
    by auto
  have up: "[?n..<?n + length (ch # hs)] = ?n # [Suc ?n..<Suc ?n + length hs]" by (simp add: upt_conv_Cons del: upt_Suc)
  have "consume_all (http_ops b d) cfg (ch # hs) t
      = (Returns None, zip (map fst (ch # hs)) [?n..<?n + length (ch # hs)], t')"
    unfolding up using t'(1) con by (simp add: ch http_ops_def)
  moreover have "ht_store t' (?n + k) = http_sub_of cfg ((ch # hs) ! k)" if "k < length (ch # hs)" for k
    using that t'(3,4) ch by (cases k) auto
  ultimately show ?case unfolding up using t' by (intro exI [of _ t']) (auto simp: ch)
qed simp

lemma listen_http_fields [simp]:
  "ht_Mux listen_http_transport = Some []" "ht_PathPrefix listen_http_transport = DefaultPathPrefix"
  "ht_next listen_http_transport = 0" "\<not> ht_closed listen_http_transport"
  by (simp_all add: listen_http_transport_def New_http_def DefaultPathPrefix_def Let_def)

text \<open>An HTTP adapter that serves: every registered capability has its path, with its wrapped handler behind it.\<close>

lemma serving_http:
  assumes "listen addr = None" "a_handlers a \<noteq> []" "distinct order" "set order = fst ` set (a_handlers a)" "[] \<notin> set order"
  shows "\<exists>t. run_start (http_env listen b d serving) order (ListenHTTP addr a) listen_http_transport
      = Started (HTTPTransport addr) (Some (AfterHTTPShutdown addr)) (RanBefore # map (\<lambda>(c, i). Consumed c i) (zip order [0..<length order]))
          (Returns None) (zip order [0..<length order]) t
    \<and> ht_Mux t = Some (zip (map (\<lambda>c. DefaultPathPrefix @ c) order) [0..<length order]) \<and> ht_PathPrefix t = DefaultPathPrefix
    \<and> (\<forall>c h. map_of (a_handlers a) c = Some h \<longrightarrow> (\<exists>i.
          map_of (zip (map (\<lambda>c. DefaultPathPrefix @ c) order) [0..<length order]) (DefaultPathPrefix @ c) = Some i
          \<and> ht_store t i = http_sub_of (a_config a) (c, h)))"
proof -
  let ?hs = "visited order (a_handlers a)"
  have keys: "map fst ?hs = order" using assms(4) by (intro visited_keys) simp
  then have k: "fst ` set ?hs = set order" "length ?hs = length order" by (metis list.set_map, metis length_map)
  have "distinct (map fst ?hs)" "[] \<notin> fst ` set ?hs" using assms(3,5) keys k by simp_all
  from consume_all_http [OF listen_http_fields(1) this, of b d "a_config a"] obtain t where t:
      "consume_all (http_ops b d) (a_config a) ?hs listen_http_transport = (Returns None, zip order [0..<length order], t)"
      "ht_Mux t = Some (zip (map (\<lambda>ch. DefaultPathPrefix @ fst ch) ?hs) [0..<length order])"
      "\<forall>k < length order. ht_store t k = http_sub_of (a_config a) (?hs ! k)" "ht_PathPrefix t = DefaultPathPrefix"
    by (auto simp: keys k)
  have paths: "map (\<lambda>ch. DefaultPathPrefix @ fst ch) ?hs = map (\<lambda>c. DefaultPathPrefix @ c) (map fst ?hs)" by simp
  note paths = paths [unfolded keys]
  let ?mux = "zip (map (\<lambda>c. DefaultPathPrefix @ c) order) [0..<length order]"
  have "\<exists>i. map_of ?mux (DefaultPathPrefix @ c) = Some i \<and> ht_store t i = http_sub_of (a_config a) (c, h)"
    if h: "map_of (a_handlers a) c = Some h" for c h
  proof -
    have "c \<in> set order" using h assms(4) by (metis domI dom_map_of_conv_image_fst)
    then have "(c, h) \<in> set ?hs" using h by (simp add: visited_handler)
    then obtain i where i: "i < length order" "?hs ! i = (c, h)" using k(2) by (metis in_set_conv_nth)
    then have "order ! i = c" using keys k(2) by (metis fst_conv nth_map)
    moreover have "distinct (map (\<lambda>c. DefaultPathPrefix @ c) order)" using assms(3) by (simp add: distinct_map inj_on_def)
    ultimately have "map_of ?mux (DefaultPathPrefix @ c) = Some i"
      using map_of_zip_nth [of "map (\<lambda>c. DefaultPathPrefix @ c) order" "[0..<length order]" i] i(1) by simp
    then show ?thesis using t(3) i by metis
  qed
  moreover have "run_start (http_env listen b d serving) order (ListenHTTP addr a) listen_http_transport
      = Started (HTTPTransport addr) (Some (AfterHTTPShutdown addr))
          (RanBefore # map (\<lambda>(c, i). Consumed c i) (zip order [0..<length order])) (Returns None) (zip order [0..<length order]) t"
    using assms(1,2) t(1) by (simp add: run_start_def ListenHTTP_def beforeRun_def http_env_def Let_def)
  ultimately show ?thesis using t(2,4) paths by (intro exI [of _ t]) simp
qed


section \<open>Consuming on AMQP\<close>

text \<open>A broker that is up: the connection stays open and every request on it is granted.\<close>

definition broker_up :: "'n lib \<Rightarrow> nat \<Rightarrow> bool" where
  "broker_up l conn \<longleftrightarrow> (\<forall>n. \<not> l_ConnIsClosed l conn n \<and> \<not> isl (fst (l_Channel l conn n)))
     \<and> (\<forall>ch q x y z n. \<not> isl (fst (l_QueueDeclare l ch q x y z n))) \<and> (\<forall>ch k n. fst (l_Qos l ch k n) = None)
     \<and> (\<forall>ch q x y n. fst (l_Consume l ch q x y n) = None)"

lemma call_granted:
  "\<not> isl (fst (f (t_net t))) \<Longrightarrow> \<exists>x t'. call f t = (Inr x, t') \<and> t_conn t' = t_conn t"
  "fst (g (t_net t)) = None \<Longrightarrow> \<exists>t'. call g t = (None, t') \<and> t_conn t' = t_conn t"
  by (cases "f (t_net t)"; cases "fst (f (t_net t))"; simp add: call_def) (cases "g (t_net t)"; simp add: call_def)

lemma setupConsumer_granted:
  assumes up: "broker_up l conn" and conn: "t_conn t = Some conn"
  shows "\<exists>ch t'. setupConsumer l q k t = (Returns (Inr ch), t') \<and> t_conn t' = Some conn"
proof -
  have live: "connectionForUse l t = (Returns (Inr (Some conn)), t)"
    using assms by (simp add: connectionForUse_def conn_live_def broker_up_def)
  obtain ch t1 where ch: "call (l_Channel l conn) t = (Inr ch, t1)" "t_conn t1 = t_conn t"
    using call_granted(1) [of "l_Channel l conn" t] up by (auto simp: broker_up_def)
  obtain name t2 where qd: "call (l_QueueDeclare l ch q True False False) t1 = (Inr name, t2)" "t_conn t2 = t_conn t1"
    using call_granted(1) [of "l_QueueDeclare l ch q True False False" t1] up by (auto simp: broker_up_def)
  obtain t3 where qos: "call (l_Qos l ch k) t2 = (None, t3)" "t_conn t3 = t_conn t2"
    using call_granted(2) [of "l_Qos l ch k" t2] up by (auto simp: broker_up_def)
  obtain t4 where con: "call (l_Consume l ch q False False) t3 = (None, t4)" "t_conn t4 = t_conn t3"
    using call_granted(2) [of "l_Consume l ch q False False" t3] up by (auto simp: broker_up_def)
  have "setupConsumer l q k t = (Returns (Inr ch), t4)"
    by (simp add: setupConsumer_def live open_channel_def ch(1) qd(1) qos(1) con(1))
  then show ?thesis using conn ch(2) qd(2) qos(2) con(2) by simp
qed

lemma consume_all_amqp:
  assumes "broker_up l conn" "t_conn t = Some conn" "[] \<notin> fst ` set hs"
  shows "\<exists>ss t'. consume_all (amqp_ops l uuid events) cfg hs t = (Returns None, ss, t')
    \<and> map (\<lambda>(c, i). (c, sub_endpoint (t_store t' i), sub_done (t_store t' i))) ss
        = map (\<lambda>(c, h). (c, t_endpointPrefix t @ c, False)) hs
    \<and> (\<forall>j < t_nextSub t. t_store t' j = t_store t j) \<and> t_conn t' = Some conn"
  using assms(2,3)
proof (induction hs arbitrary: t)
  case (Cons ch hs)
  obtain c h where ch: "ch = (c, h)" by force
  let ?cfg = "\<lparr>cc_Endpoint = c, cc_Handler = Some (wrap h), cc_Timeout = cfg_DefaultTimeout cfg,
      cc_Concurrency = cfg_Concurrency cfg\<rparr>"
  have ep: "cc_Endpoint (consume_defaults ?cfg) = c" by (simp add: consume_defaults_def Let_def)
  obtain k t1 where su: "setupConsumer l (t_endpointPrefix t @ c) (cc_Concurrency (consume_defaults ?cfg)) t = (Returns (Inr k), t1)"
      "t_conn t1 = Some conn"
    using setupConsumer_granted [OF assms(1) Cons.prems(1)] by blast
  note fr = setupConsumer_frame [OF su(1)]
  let ?sub = "\<lparr>sub_endpoint = t_endpointPrefix t @ c, sub_ch = Some k, sub_done = False\<rparr>"
  let ?t = "t1\<lparr>t_store := (t_store t1)(t_nextSub t1 := ?sub), t_nextSub := Suc (t_nextSub t1), t_subs := t_subs t1 @ [t_nextSub t1]\<rparr>"
  have "c \<noteq> []" using Cons.prems(2) ch by auto
  then have con: "Amqp.Consume l ?cfg t = (Returns (Inr (t_nextSub t1)), ?t)" using su ep by (simp add: Amqp.Consume_def Let_def)
  have "t_conn ?t = Some conn" "[] \<notin> fst ` set hs" using su(2) Cons.prems(2) by auto
  from Cons.IH [OF this] obtain ss t' where t':
      "consume_all (amqp_ops l uuid events) cfg hs ?t = (Returns None, ss, t')"
      "map (\<lambda>(c, i). (c, sub_endpoint (t_store t' i), sub_done (t_store t' i))) ss
        = map (\<lambda>(c, h). (c, t_endpointPrefix t @ c, False)) hs"
      "\<forall>j < Suc (t_nextSub t1). t_store t' j = t_store ?t j" "t_conn t' = Some conn"
    using fr by auto
  have "consume_all (amqp_ops l uuid events) cfg (ch # hs) t = (Returns None, (c, t_nextSub t1) # ss, t')"
    using con t'(1) by (simp add: ch amqp_ops_def)
  then show ?case using t'(2-4) fr by (intro exI [of _ "(c, t_nextSub t1) # ss"] exI [of _ t']) (simp add: ch)
qed simp

lemma listen_amqp_fields [simp]:
  "t_conn (listen_amqp_transport conn pfx n) = Some conn" "t_endpointPrefix (listen_amqp_transport conn pfx n) = pfx"
  "t_watchdog (listen_amqp_transport conn pfx n)" "t_dialFn (listen_amqp_transport conn pfx n)"
  by (simp_all add: listen_amqp_transport_def SetDialFunc_def SetEndpointPrefix_def startWatchdog_def New_transport_def Let_def)

lemma amqp_Close_done: "sub_done (t_store t j) \<Longrightarrow> sub_done (t_store (snd (Amqp.Close l t)) j)"
  by (simp add: Amqp.Close_def Let_def case_prod_beta fold_amqp_sub_Close split: option.split)



section \<open>The end of Run\<close>

lemma http_shutdown_last:
  assumes "Run ((http_env listen b d serving)\<lparr>http_shutdown := down\<rparr>) order a w = (r, evs, w')" and "r \<noteq> Deadlock"
    and "run_start ((http_env listen b d serving)\<lparr>http_shutdown := down\<rparr>) order a w
        = Started tr (Some (AfterHTTPShutdown addr)) es r1 ss w1"
  shows "last evs = RanAfter \<and> (\<exists>v. w' = down v \<and> (\<forall>i \<in> set (opened evs). hsub_closed (ht_store v i)))"
proof -
  note m = Run_ended [OF assms]
  let ?v = "fold (\<lambda>i w. snd (i_SubClose (http_ops b d) i w)) (map snd ss) (if r1 = Returns None then serving w1 else w1)"
  have "w' = down ?v" using m(5) by (simp add: afterRun_def http_env_def)
  moreover have "hsub_closed (ht_store ?v i)" if "i \<in> set (opened evs)" for i
    using http_host.close_each [where ids = "map snd ss" and build = b and clientDo = d] that m(2) by auto
  ultimately show ?thesis using m(6) by blast
qed

lemma amqp_close_last:
  assumes "Run (amqp_env l uuid events dial cancelled serving) order a v = (r, evs, v')" and "r \<noteq> Deadlock"
    and "run_start (amqp_env l uuid events dial cancelled serving) order a v
        = Started tr (Some (AfterAMQPClose tr')) es r1 ss v1 \<and> s = (if r1 = Returns None then serving v1 else v1)"
  shows "last evs = RanAfter \<and> t_closed v'
    \<and> (\<not> t_closed s \<longrightarrow> t_conn v' = None
         \<and> (closing_works l \<longrightarrow> (\<forall>c. t_conn s = Some c \<longrightarrow> l_ConnIsClosed l c (t_net v'))))"
proof -
  note m = Run_ended [OF assms(1,2) conjunct1 [OF assms(3)]]
  let ?u = "fold (\<lambda>i t. snd (Amqp.sub_Close l i t)) (map snd ss) s"
  have u: "t_closed ?u = t_closed s" "t_conn ?u = t_conn s"
    using fold_amqp_sub_Close [where t = s and l = l and ids = "map snd ss"] fold_sub_Close_keeps [where t = s and l = l and ids = "map snd ss"]
    by simp_all
  have close: "v' = snd (Amqp.Close l ?u)" "fst (Amqp.Close l ?u) \<noteq> Deadlock"
    using m(4,5) assms(3) by (auto simp: afterRun_def amqp_env_def amqp_ops_def case_prod_beta Let_def)
  have "t_conn v' = None \<and> (closing_works l \<longrightarrow> (\<forall>c. t_conn s = Some c \<longrightarrow> l_ConnIsClosed l c (t_net v')))" if "\<not> t_closed s"
  proof -
    have op: "\<not> t_closed ?u" "\<not> t_pubMu ?u" using close(2) that u(1) Close_returns(1) [of ?u l] by auto
    from Close_returns(2) [OF this] show ?thesis using Close_closes(3) [OF _ op] u(2) close(1) by auto
  qed
  then show ?thesis using m(6) close(1) amqp_transport.close_closes by auto
qed


section \<open>Properties\<close>

text \<open>
  \<^bold>\<open>C18\<close>: \<^verbatim>\<open>Run\<close> cleans up on both transports. Whatever the environment does, and whatever happened while
  the adapter served, a \<^verbatim>\<open>Run\<close> that ends, with an error or even by a panic, has closed exactly the
  subscriptions it opened, in order: afterwards none of them serves. Once it had a transport,
  it ends with the hook of its listener. Over HTTP the last thing that happens to the
  state is the server's shutdown (\<open>down\<close>), when all subscriptions are already closed; over AMQP the
  transport is closed, and with it, when closing works as the library documents, the broker
  connection it was using.
\<close>

theorem Run_leaves_nothing_open:
  "((\<forall>t. ht_store (down t) = ht_store t)
      \<and> Run ((http_env listen b d hserving)\<lparr>http_shutdown := down\<rparr>) order a w = (r, evs, w') \<and> r \<noteq> Deadlock \<longrightarrow>
      opened evs = ended evs \<and> RanAfter \<notin> set (butlast evs) \<and> (\<forall>c i. Consumed c i \<in> set evs \<longrightarrow> hsub_closed (ht_store w' i))
      \<and> (\<forall>tr addr es r1 ss w1. run_start ((http_env listen b d hserving)\<lparr>http_shutdown := down\<rparr>) order a w
            = Started tr (Some (AfterHTTPShutdown addr)) es r1 ss w1 \<longrightarrow>
          last evs = RanAfter \<and> (\<exists>v. w' = down v \<and> (\<forall>i \<in> set (opened evs). hsub_closed (ht_store v i)))))
   \<and> (Run (amqp_env l uuid events dial cancelled aserving) order' a' v = (r', evs', v') \<and> r' \<noteq> Deadlock \<longrightarrow>
      opened evs' = ended evs' \<and> RanAfter \<notin> set (butlast evs') \<and> (\<forall>c i. Consumed c i \<in> set evs' \<longrightarrow> sub_done (t_store v' i))
      \<and> (\<forall>tr tr' es r1 ss v1 s. run_start (amqp_env l uuid events dial cancelled aserving) order' a' v
            = Started tr (Some (AfterAMQPClose tr')) es r1 ss v1 \<and> s = (if r1 = Returns None then aserving v1 else v1) \<longrightarrow>
          last evs' = RanAfter \<and> t_closed v'
          \<and> (\<not> t_closed s \<longrightarrow> t_conn v' = None
               \<and> (closing_works l \<longrightarrow> (\<forall>c. t_conn s = Some c \<longrightarrow> l_ConnIsClosed l c (t_net v'))))))"
proof (intro conjI impI; (elim conjE)?)
  let ?env = "(http_env listen b d hserving)\<lparr>http_shutdown := down\<rparr>"
  assume down: "\<forall>t. ht_store (down t) = ht_store t" and run: "Run ?env order a w = (r, evs, w')" "r \<noteq> Deadlock"
  show "opened evs = ended evs" "RanAfter \<notin> set (butlast evs)" using Run_trace [OF run] by auto
  show closed: "\<forall>c i. Consumed c i \<in> set evs \<longrightarrow> hsub_closed (ht_store w' i)"
    using http_host.Run_closes [OF run, of b d] down
    by (auto simp: http_env_def http_ops_def afterRun_def http_Close_frame split: option.splits after_run.splits)
  show "\<forall>tr addr es r1 ss w1. run_start ?env order a w = Started tr (Some (AfterHTTPShutdown addr)) es r1 ss w1 \<longrightarrow>
      last evs = RanAfter \<and> (\<exists>v. w' = down v \<and> (\<forall>i \<in> set (opened evs). hsub_closed (ht_store v i)))"
    using http_shutdown_last [OF run] down by blast
next
  let ?env = "amqp_env l uuid events dial cancelled aserving"
  assume run: "Run ?env order' a' v = (r', evs', v')" "r' \<noteq> Deadlock"
  show "opened evs' = ended evs'" "RanAfter \<notin> set (butlast evs')" using Run_trace [OF run] by auto
  show "\<forall>c i. Consumed c i \<in> set evs' \<longrightarrow> sub_done (t_store v' i)"
    using amqp_host.Run_closes [OF run, of l uuid events]
    by (auto simp: amqp_env_def amqp_ops_def afterRun_def amqp_Close_done case_prod_beta Let_def split: option.splits after_run.splits)
  show "\<forall>tr tr' es r1 ss v1 s. run_start ?env order' a' v
            = Started tr (Some (AfterAMQPClose tr')) es r1 ss v1 \<and> s = (if r1 = Returns None then aserving v1 else v1) \<longrightarrow>
          last evs' = RanAfter \<and> t_closed v'
          \<and> (\<not> t_closed s \<longrightarrow> t_conn v' = None
               \<and> (closing_works l \<longrightarrow> (\<forall>c. t_conn s = Some c \<longrightarrow> l_ConnIsClosed l c (t_net v'))))"
    using amqp_close_last [OF run] by blast
qed

text \<open>An adapter with two capabilities that answer nothing.\<close>

definition demo_adapter :: "'s adapter_handler adapter" where
  "demo_adapter = Register ''Execute '' (\<lambda>d s. (Inr (None, []), s)) (Register ''describe'' (\<lambda>d s. (Inr (None, []), s))
     (New \<lparr>cfg_Provider = ''okta'', cfg_IntegrationType = [], cfg_Version = ''1'', cfg_DefaultTimeout = 0, cfg_Concurrency = 0\<rparr>))"

lemma demo_handlers: "map fst (a_handlers demo_adapter) = [''describe'', ''execute'']"
  "queue_prefix (a_config demo_adapter) = ''yggdrasil.adapter.okta.''" "a_beforeRun demo_adapter = None"
proof -
  have "norm_name ''Execute '' = ''execute''" "norm_name ''describe'' = ''describe''" by code_simp+
  then show "map fst (a_handlers demo_adapter) = [''describe'', ''execute'']"
    "queue_prefix (a_config demo_adapter) = ''yggdrasil.adapter.okta.''" "a_beforeRun demo_adapter = None"
    by (simp_all add: demo_adapter_def Register_def New_def queue_prefix_def Let_def)
qed

lemma demo_keys: "fst ` set (a_handlers demo_adapter) = {''describe'', ''execute''}" "a_handlers demo_adapter \<noteq> []"
proof -
  have "set (map fst (a_handlers demo_adapter)) = {''describe'', ''execute''}" unfolding demo_handlers(1) by simp
  then show "fst ` set (a_handlers demo_adapter) = {''describe'', ''execute''}" by (simp only: set_map)
  show "a_handlers demo_adapter \<noteq> []" by (simp add: demo_adapter_def Register_def)
qed

lemma before_shutdown: "beforeRun (env\<lparr>http_shutdown := f\<rparr>) b a w = beforeRun env b a w"
  by (cases b) (auto simp: beforeRun_def split: option.split prod.split sum.split)

lemma run_start_shutdown [simp]: "run_start (env\<lparr>http_shutdown := f\<rparr>) order a w = run_start env order a w"
  unfolding run_start_def Let_def before_shutdown by (auto split: option.split prod.split sum.split)

text \<open>The shutdown is seen in the state, and the AMQP adapter runs on a broker that remembers what was closed.\<close>

definition seen_down :: "'u http_transport \<Rightarrow> 'u http_transport" where
  "seen_down t = t\<lparr>ht_idleClosed := True\<rparr>"

definition one_capability :: "'s adapter_handler adapter" where
  "one_capability = (New \<lparr>cfg_Provider = ''okta'', cfg_IntegrationType = [], cfg_Version = ''1'', cfg_DefaultTimeout = 0,
     cfg_Concurrency = 0\<rparr>)\<lparr>a_handlers := [(''execute'', \<lambda>d s. (Inr (None, []), s))]\<rparr>"

lemma one_capability_starts:
  "\<exists>tr tr' es ss t. run_start (amqp_env closing_lib ''u'' [] (\<lambda>_. Inr 1) (\<lambda>_. None) (\<lambda>t. t)) [''execute'']
       (ListenAMQP ''amqp://mq'' (one_capability :: unit adapter_handler adapter)) (New_transport None ({}, {}))
     = Started tr (Some (AfterAMQPClose tr')) es (Returns None) ss t \<and> t_conn t = Some 1 \<and> \<not> t_closed t \<and> \<not> t_pubMu t"
proof -
  have dial: "dialAMQPWithRetry (\<lambda>_. Inr 1) (\<lambda>_. None) ''amqp://mq'' = (Inr 1, [], 1)"
    by (simp add: dialAMQPWithRetry_def dial_from.simps maxAttempts_def)
  show ?thesis
    by (simp add: run_start_def one_capability_def ListenAMQP_def New_def beforeRun_def amqp_env_def dial [unfolded One_nat_def] visited_def
        List.map_filter_simps amqp_ops_def Amqp.Consume_def consume_defaults_def setupConsumer_def connectionForUse_def
        conn_live_def open_channel_def call_def closing_lib_def listen_amqp_transport_def SetDialFunc_def startWatchdog_def
        New_transport_def SetEndpointPrefix_def Let_def)
qed

theorem Run_leaves_nothing_open_witness:
  "(\<exists>r evs w'. Run ((http_env (\<lambda>_. None) (\<lambda>_. None) (\<lambda>_. Inl Canceled) (\<lambda>t. t))\<lparr>http_shutdown := seen_down\<rparr>)
        [''execute'', ''describe''] (ListenHTTP '':8080'' demo_adapter) (listen_http_transport :: unit http_transport) = (r, evs, w')
      \<and> Consumed ''execute'' 0 \<in> set evs \<and> hsub_closed (ht_store w' 0) \<and> last evs = RanAfter \<and> ht_idleClosed w')
   \<and> (\<exists>r evs v'. Run (amqp_env closing_lib ''u'' [] (\<lambda>_. Inr 1) (\<lambda>_. None) (\<lambda>t. t)) [''execute'']
        (ListenAMQP ''amqp://mq'' (one_capability :: unit adapter_handler adapter)) (New_transport None ({}, {})) = (r, evs, v')
      \<and> t_closed v' \<and> 1 \<in> snd (t_net v'))"
proof -
  let ?env = "http_env (\<lambda>_. None) (\<lambda>_. None) (\<lambda>_. Inl Canceled) (\<lambda>t :: unit http_transport. t)"
  let ?order = "[''execute'', ''describe'']" and ?a = "ListenHTTP '':8080'' demo_adapter"
  let ?aenv = "amqp_env closing_lib ''u'' [] (\<lambda>_. Inr 1) (\<lambda>_. None) (\<lambda>t. t)"
  let ?aa = "ListenAMQP ''amqp://mq'' (one_capability :: unit adapter_handler adapter)"
  obtain r evs w' where run: "Run (?env\<lparr>http_shutdown := seen_down\<rparr>) ?order ?a listen_http_transport = (r, evs, w')"
    by (cases "Run (?env\<lparr>http_shutdown := seen_down\<rparr>) ?order ?a listen_http_transport")
  obtain r' evs' v' where arun: "Run ?aenv [''execute''] ?aa (New_transport None ({}, {})) = (r', evs', v')"
    by (cases "Run ?aenv [''execute''] ?aa (New_transport None ({}, {}))")
  obtain t where st: "run_start ?env ?order ?a listen_http_transport
      = Started (HTTPTransport '':8080'') (Some (AfterHTTPShutdown '':8080''))
          (RanBefore # map (\<lambda>(c, i). Consumed c i) (zip ?order [0..<length ?order])) (Returns None) (zip ?order [0..<length ?order]) t"
    using serving_http [of "\<lambda>_. None" "'':8080''" demo_adapter ?order "\<lambda>_. None" "\<lambda>_. Inl Canceled" "\<lambda>t. t"] demo_keys by auto
  obtain tr tr' es ss u where ast: "run_start ?aenv [''execute''] ?aa (New_transport None ({}, {}))
      = Started tr (Some (AfterAMQPClose tr')) es (Returns None) ss u" "t_conn u = Some 1" "\<not> t_closed u" "\<not> t_pubMu u"
    using one_capability_starts by blast
  have r: "r = Returns None" "Consumed ''execute'' 0 \<in> set evs"
    using run st by (auto simp: Run_def Let_def afterRun_def case_prod_beta)
  have r': "r' \<noteq> Deadlock"
    using arun ast Close_returns(1) [of "fold (\<lambda>i t. snd (Amqp.sub_Close closing_lib i t)) (map snd ss) u" closing_lib]
      fold_amqp_sub_Close [where t = u and l = closing_lib and ids = "map snd ss"]
    by (auto simp: Run_def Let_def afterRun_def case_prod_beta close_subs_eq amqp_env_def amqp_ops_def split: outcome.splits)
  note both = Run_leaves_nothing_open [of seen_down "\<lambda>_. None" "\<lambda>_. None" "\<lambda>_. Inl Canceled" "\<lambda>t. t" ?order ?a listen_http_transport
      r evs w' closing_lib "''u''" "[]" "\<lambda>_. Inr 1" "\<lambda>_. None" "\<lambda>t. t" "[''execute'']" ?aa "New_transport None ({}, {})" r' evs' v']
  from both [THEN conjunct1] have "hsub_closed (ht_store w' 0)" "last evs = RanAfter" "ht_idleClosed w'"
    using run st r by (auto simp: seen_down_def)
  moreover from both [THEN conjunct2] have "t_closed v'" "1 \<in> snd (t_net v')"
    using arun ast r' closing_lib_works by (auto simp: closing_lib_def)
  ultimately show ?thesis using run arun r by blast
qed


text \<open>
  \<^bold>\<open>C17\<close>: an adapter on AMQP. Once the dial loop has a connection and the broker grants what it is
  asked, \<^verbatim>\<open>Run\<close> gets to its wait with one live subscription per registered capability, each on the
  queue that the core publishes to: \<^verbatim>\<open>yggdrasil.adapter.\<close>, the integration type (or the provider), a
  dot and the capability.
\<close>

theorem Run_over_amqp:
  assumes "dialAMQPWithRetry dial cancelled url = (Inr conn, waits, n)" and "broker_up l conn" and "a_handlers a \<noteq> []"
    and "set order = fst ` set (a_handlers a)" and "[] \<notin> set order"
  shows "\<exists>ss t. run_start (amqp_env l uuid events dial cancelled serving) order (ListenAMQP url a) w
      = Started (AMQPTransport url (queue_prefix (a_config a))) (Some (AfterAMQPClose (AMQPTransport url (queue_prefix (a_config a)))))
          (RanBefore # map (\<lambda>(c, i). Consumed c i) ss) (Returns None) ss t
    \<and> map (\<lambda>(c, i). (c, sub_endpoint (t_store t i), sub_done (t_store t i))) ss
        = map (\<lambda>c. (c, queue_prefix (a_config a) @ c, False)) order
    \<and> t_conn t = Some conn"
proof -
  let ?hs = "visited order (a_handlers a)" and ?p = "queue_prefix (a_config a)"
  let ?t = "listen_amqp_transport conn ?p (t_net w)"
  have keys: "map fst ?hs = order" using assms(4) by (intro visited_keys) simp
  then have "[] \<notin> fst ` set ?hs" using assms(5) by (metis list.set_map)
  from consume_all_amqp [OF assms(2) listen_amqp_fields(1) this, of uuid events "a_config a" ?p "t_net w"] obtain ss t where t:
      "consume_all (amqp_ops l uuid events) (a_config a) ?hs ?t = (Returns None, ss, t)"
      "map (\<lambda>(c, i). (c, sub_endpoint (t_store t i), sub_done (t_store t i))) ss = map (\<lambda>(c, h). (c, ?p @ c, False)) ?hs"
      "t_conn t = Some conn" by auto
  have "map (\<lambda>(c, h). (c, ?p @ c, False)) ?hs = map (\<lambda>c. (c, ?p @ c, False)) (map fst ?hs)" by (simp add: case_prod_beta)
  note names = this [unfolded keys]
  have "run_start (amqp_env l uuid events dial cancelled serving) order (ListenAMQP url a) w
      = Started (AMQPTransport url ?p) (Some (AfterAMQPClose (AMQPTransport url ?p)))
          (RanBefore # map (\<lambda>(c, i). Consumed c i) ss) (Returns None) ss t"
    using assms(1,3) t(1) by (simp add: run_start_def ListenAMQP_def beforeRun_def amqp_env_def Let_def)
  then show ?thesis using t(2,3) unfolding names by blast
qed

theorem Run_over_amqp_witness:
  "\<exists>ss t. run_start (amqp_env ex_lib ''u'' [] (\<lambda>_. Inr 1) (\<lambda>_. None) (\<lambda>t. t)) [''execute'', ''describe'']
        (ListenAMQP ''amqp://mq'' (demo_adapter :: unit adapter_handler adapter)) (New_transport None 2)
      = Started (AMQPTransport ''amqp://mq'' ''yggdrasil.adapter.okta.'') (Some (AfterAMQPClose (AMQPTransport ''amqp://mq'' ''yggdrasil.adapter.okta.'')))
          (RanBefore # map (\<lambda>(c, i). Consumed c i) ss) (Returns None) ss t
    \<and> map (\<lambda>(c, i). (c, sub_endpoint (t_store t i), sub_done (t_store t i))) ss
        = [(''execute'', ''yggdrasil.adapter.okta.execute'', False), (''describe'', ''yggdrasil.adapter.okta.describe'', False)]"
proof -
  have dial: "dialAMQPWithRetry (\<lambda>_. Inr 1) (\<lambda>_. None) ''amqp://mq'' = (Inr 1, [], 1)"
    by (simp add: dialAMQPWithRetry_def dial_from.simps maxAttempts_def)
  have up: "broker_up ex_lib 1" by (simp add: broker_up_def ex_lib_def)
  have order: "set [''execute'', ''describe''] = fst ` set (a_handlers (demo_adapter :: unit adapter_handler adapter))"
    "[] \<notin> set [''execute'', ''describe'']" unfolding demo_keys(1) by auto
  have names: "map (\<lambda>c. (c, ''yggdrasil.adapter.okta.'' @ c, False)) [''execute'', ''describe'']
      = [(''execute'', ''yggdrasil.adapter.okta.execute'', False), (''describe'', ''yggdrasil.adapter.okta.describe'', False)]"
    by simp
  show ?thesis
    using Run_over_amqp [OF dial up demo_keys(2) order, of "''u''" "[]" "\<lambda>t. t" "New_transport None 2"]
    unfolding demo_handlers(2) names by (elim exE conjE) (rule exI, rule exI, rule conjI)
qed

lemma consume_all_http_mux:
  "consume_all (http_ops b d) cfg hs t = (r, ss, t') \<Longrightarrow> ht_Mux t = Some mux \<Longrightarrow>
   (\<exists>ys. ht_Mux t' = Some (mux @ ys)) \<and> ht_PathPrefix t' = ht_PathPrefix t"
proof (induction hs arbitrary: t ss mux)
  case (Cons ch hs)
  obtain c h where ch: "ch = (c, h)" by force
  show ?case
  proof (cases "c = [] \<or> ht_PathPrefix t @ c \<in> fst ` set mux")
    case True
    then have "t' = t"
      using Cons.prems by (auto simp: ch http_ops_def HttpTransport.Consume_def Let_def split: if_splits)
    then show ?thesis using Cons.prems(2) by simp
  next
    case False
    then have c: "c \<noteq> []" "ht_PathPrefix t @ c \<notin> fst ` set mux" by auto
    note con = Consume_http [OF Cons.prems(2) c, of h cfg]
    let ?t = "t\<lparr>ht_Mux := Some (mux @ [(ht_PathPrefix t @ c, ht_next t)]),
        ht_store := (ht_store t)(ht_next t := http_sub_of cfg (c, h)), ht_next := Suc (ht_next t),
        ht_subs := ht_subs t @ [ht_next t]\<rparr>"
    obtain ss' where "consume_all (http_ops b d) cfg hs ?t = (r, ss', t')"
      using Cons.prems(1) con by (auto simp: ch http_ops_def split: prod.splits)
    from Cons.IH [OF this] show ?thesis by auto
  qed
qed simp


lemma http_closing_keeps_mux:
  "ht_Mux (fold (\<lambda>i w. snd (i_SubClose (http_ops b d) i w)) ids t) = ht_Mux t"
  "ht_PathPrefix (fold (\<lambda>i w. snd (i_SubClose (http_ops b d) i w)) ids t) = ht_PathPrefix t"
  by (induction ids arbitrary: t) (simp_all add: http_ops_def HttpTransport.sub_Close_def)

lemma http_after_keeps_mux:
  "ht_Mux (snd (snd (afterRun (http_env listen b d serving) x t))) = ht_Mux t"
  "ht_PathPrefix (snd (snd (afterRun (http_env listen b d serving) x t))) = ht_PathPrefix t"
  "\<exists>e. fst (afterRun (http_env listen b d serving) x t) = Returns e"
  by (auto simp: afterRun_def http_env_def http_ops_def http_Close_frame split: option.split after_run.split)

lemma Run_started_http:
  assumes "run_start (http_env listen b d serving) order a w = Started t x evs r ss w1" and "r \<noteq> Deadlock"
  shows "fst (Run (http_env listen b d serving) order a w) = r
    \<and> snd (snd (Run (http_env listen b d serving) order a w)) = snd (snd (afterRun (http_env listen b d serving) x
        (fold (\<lambda>i w. snd (i_SubClose (http_ops b d) i w)) (map snd ss) (if r = Returns None then serving w1 else w1))))"
proof -
  let ?v = "fold (\<lambda>i w. snd (i_SubClose (http_ops b d) i w)) (map snd ss) (if r = Returns None then serving w1 else w1)"
  obtain e where "fst (afterRun (http_env listen b d serving) x ?v) = Returns e" using http_after_keeps_mux(3) by blast
  then show ?thesis using assms by (cases "r = Returns None") (simp_all add: Run_def Let_def case_prod_beta close_subs_eq)
qed

text \<open>
  \<^bold>\<open>C35\<close>: closing a subscription does not unregister its handler over HTTP. When \<^verbatim>\<open>Run\<close> of an adapter on
  an HTTP transport (set with \<^verbatim>\<open>Transport\<close>) has returned, a second \<^verbatim>\<open>Run\<close> on the same transport panics:
  the mux still has the paths of the closed subscriptions.
\<close>

theorem Run_again_over_http_panics:
  assumes "a_beforeRun a = None" and "a_transport a = Some tr" and "map_of (a_handlers a) c = Some h"
    and "\<And>t. ht_Mux (serving t) = ht_Mux t \<and> ht_PathPrefix (serving t) = ht_PathPrefix t"
    and "Run (http_env listen b d serving) (c # cs) a w = (Returns None, evs, w')"
  shows "\<exists>m. fst (Run (http_env listen b d serving) (c # cs) a w') = Panics m"
proof -
  let ?env = "http_env listen b d serving" and ?path = "ht_PathPrefix w @ c"
  let ?hs = "(c, h) # visited cs (a_handlers a)"
  have hs: "visited (c # cs) (a_handlers a) = ?hs" using assms(3) by (simp add: visited_def List.map_filter_simps)
  have start: "run_start ?env (c # cs) a v = Started tr (a_afterRun a) (map (\<lambda>(c, i). Consumed c i) ss) r ss v2"
    if "consume_all (http_ops b d) (a_config a) ?hs v = (r, ss, v2)" for r ss v v2
    using assms(1-3) that by (auto simp: run_start_def hs Let_def simp del: consume_all.simps)
  obtain r ss w1 where all: "consume_all (http_ops b d) (a_config a) ?hs w = (r, ss, w1)"
    by (cases "consume_all (http_ops b d) (a_config a) ?hs w")
  have "r \<noteq> Deadlock" using assms(5) start [OF all] by (auto simp: Run_def)
  note run = Run_started_http [OF start [OF all] this]
  then have r: "r = Returns None" and w': "w' = snd (snd (afterRun ?env (a_afterRun a)
      (fold (\<lambda>i w. snd (i_SubClose (http_ops b d) i w)) (map snd ss) (serving w1))))"
    unfolding assms(5) by auto
  obtain mux where mux: "ht_Mux w = Some mux" "c \<noteq> []" "?path \<notin> fst ` set mux"
    using all r by (auto simp: http_ops_def HttpTransport.Consume_def Let_def split: option.splits if_splits)
  note con = Consume_http [OF mux, of h "a_config a"]
  let ?w = "w\<lparr>ht_Mux := Some (mux @ [(?path, ht_next w)]), ht_store := (ht_store w)(ht_next w := http_sub_of (a_config a) (c, h)),
      ht_next := Suc (ht_next w), ht_subs := ht_subs w @ [ht_next w]\<rparr>"
  obtain ss' where "consume_all (http_ops b d) (a_config a) (visited cs (a_handlers a)) ?w = (r, ss', w1)"
    using all con by (auto simp: http_ops_def split: prod.splits)
  from consume_all_http_mux [OF this] obtain ys where w1: "ht_Mux w1 = Some (mux @ (?path, ht_next w) # ys)"
      "ht_PathPrefix w1 = ht_PathPrefix w" by auto
  have "ht_Mux w' = ht_Mux w1" "ht_PathPrefix w' = ht_PathPrefix w"
    unfolding w' by (simp_all add: http_after_keeps_mux http_closing_keeps_mux assms(4) w1(2))
  then obtain m where m: "consume_all (http_ops b d) (a_config a) ?hs w' = (Panics m, [], w')"
    using w1(1) mux(2) by (auto simp: http_ops_def HttpTransport.Consume_def Let_def)
  show ?thesis using Run_started_http [OF start [OF m]] by blast
qed

theorem Run_again_over_http_panics_witness:
  "\<exists>evs w' m. Run (http_env (\<lambda>_. None) (\<lambda>_. None) (\<lambda>_. Inl Canceled) (\<lambda>t. t)) [''execute''] (Transport 1 demo_adapter)
        (listen_http_transport :: unit http_transport) = (Returns None, evs, w')
     \<and> fst (Run (http_env (\<lambda>_. None) (\<lambda>_. None) (\<lambda>_. Inl Canceled) (\<lambda>t. t)) [''execute''] (Transport 1 demo_adapter) w') = Panics m"
proof -
  let ?env = "http_env (\<lambda>_. None) (\<lambda>_. None) (\<lambda>_. Inl Canceled) (\<lambda>t :: unit http_transport. t)"
  let ?a = "Transport 1 demo_adapter :: unit hstate adapter_handler adapter"
  have tr: "a_beforeRun ?a = None" "a_transport ?a = Some (CustomTransport 1)" "a_handlers ?a = a_handlers demo_adapter"
    "a_afterRun ?a = None"
    using demo_handlers(3) by (simp_all add: Transport_def demo_adapter_def Register_def New_def Let_def)
  have "''execute'' \<in> fst ` set (a_handlers ?a)" unfolding tr(3) demo_keys(1) by simp
  then obtain h where h: "map_of (a_handlers ?a) ''execute'' = Some h" by (metis map_of_eq_None_iff option.exhaust)
  have "a_handlers ?a \<noteq> []" using h by auto
  obtain w' evs where "Run ?env [''execute''] ?a listen_http_transport = (Returns None, evs, w')"
    using consume_all_http [of listen_http_transport "[]" "[(''execute'', h)]" "\<lambda>_. None" "\<lambda>_. Inl Canceled" "a_config ?a"]
      \<open>a_handlers ?a \<noteq> []\<close> tr h
    by (auto simp: Run_def run_start_def visited_def List.map_filter_simps Let_def afterRun_def close_subs_eq
        simp del: consume_all.simps close_subs.simps)
  from Run_again_over_http_panics [OF tr(1,2) h _ this] this show ?thesis by blast
qed

end
