(* ===== verification/Events.thy ===== *)
theory Events
  imports Rpc JsonText
begin

text \<open>
  Package \<^verbatim>\<open>sdk/events\<close> (\<^verbatim>\<open>types.go\<close>, \<^verbatim>\<open>http.go\<close>): the mutation event, the no-op emitter
  and the HTTP emitter with its retry loop.

  The server's answers, the ends of the context and the reading of the clock are arguments:
  \<open>post k\<close> is the outcome of the \<open>k\<close>-th \<^verbatim>\<open>client.Do\<close>, counted from 0.
\<close>

section \<open>Mutation events\<close>

type_synonym verb = string

definition VerbEnsured :: verb where "VerbEnsured = ''ensured''"
definition VerbDestroyed :: verb where "VerbDestroyed = ''destroyed''"
definition VerbCreated :: verb where "VerbCreated = ''created''"

text \<open>\<^verbatim>\<open>Observed\<close> is a \<^verbatim>\<open>json.RawMessage\<close>; \<^verbatim>\<open>EmittedAt\<close> is the RFC 3339 text of the time, or unset.\<close>

record mutation_event =
  ev_EventType :: string
  ev_Provider :: string
  ev_Resource :: string
  ev_Verb :: verb
  ev_ResourceID :: string
  ev_InstanceID :: string
  ev_Idempotency :: string
  ev_Observed :: gobytes
  ev_EmittedAt :: "string option"

definition BuildEventType :: "string \<Rightarrow> string \<Rightarrow> verb \<Rightarrow> string" where
  "BuildEventType provider resource verb = provider @ ''.'' @ resource @ ''.'' @ verb"

text \<open>\<^verbatim>\<open>NoopEmitter.Emit\<close>: the returned error (none) and the logged line.\<close>

definition NoopEmit :: "mutation_event \<Rightarrow> goerr option \<times> string" where
  "NoopEmit e =
     (None, ''events: noop emitter suppressed mutation event '' @ go_quote (ev_EventType e)
        @ '' (resource_id='' @ go_quote (ev_ResourceID e)
        @ '' instance_id='' @ go_quote (ev_InstanceID e) @ '')'')"


section \<open>Marshalling an event\<close>

text \<open>
  \<^verbatim>\<open>json.Marshal\<close> of a raw message: it must be valid JSON, white space outside strings is
  dropped and the HTML characters are escaped. The flags say whether the scan is inside a
  string and behind a backslash.
\<close>

fun compact :: "bool \<Rightarrow> bool \<Rightarrow> string \<Rightarrow> string" where
  "compact ins esc [] = []"
| "compact ins esc (c # cs) =
     (let rest = (if ins then compact (esc \<or> c \<noteq> CHR 0x22) (\<not> esc \<and> c = CHR 0x5C) cs
                  else compact (c = CHR 0x22) False cs)
      in if c = CHR ''<'' \<or> c = CHR ''>'' \<or> c = CHR ''&'' then u00 c @ rest
         else if \<not> ins \<and> (c = CHR '' '' \<or> c = CHR 0x09 \<or> c = CHR 0x0A \<or> c = CHR 0x0D) then rest
         else if prefix [CHR 0xE2, CHR 0x80, CHR 0xA8] (c # cs)
           then [CHR 0x5C] @ ''u2028'' @ compact ins False (drop 2 cs)
         else if prefix [CHR 0xE2, CHR 0x80, CHR 0xA9] (c # cs)
           then [CHR 0x5C] @ ''u2029'' @ compact ins False (drop 2 cs)
         else c # rest)"

definition marshal_raw :: "gobytes \<Rightarrow> goerr + string" where
  "marshal_raw r = (case r of
       None \<Rightarrow> Inr ''null''
     | Some s \<Rightarrow> (case json_parse s of
           None \<Rightarrow> Inl (ErrorText ''json: error calling MarshalJSON for type json.RawMessage'')
         | Some v \<Rightarrow> Inr (compact False False s)))"

definition jmember :: "string \<Rightarrow> string \<Rightarrow> string" where
  "jmember name val = json_string True name @ '':'' @ val"

definition zero_time :: string where "zero_time = ''0001-01-01T00:00:00Z''"

definition marshal_event :: "mutation_event \<Rightarrow> goerr + string" where
  "marshal_event e = (case marshal_raw (ev_Observed e) of
       Inl err \<Rightarrow> Inl err
     | Inr obs \<Rightarrow> Inr
        (''{'' @ jmember ''event_type'' (json_string True (ev_EventType e))
         @ '','' @ jmember ''provider'' (json_string True (ev_Provider e))
         @ '','' @ jmember ''resource'' (json_string True (ev_Resource e))
         @ '','' @ jmember ''verb'' (json_string True (ev_Verb e))
         @ '','' @ jmember ''resource_id'' (json_string True (ev_ResourceID e))
         @ '','' @ jmember ''instance_id'' (json_string True (ev_InstanceID e))
         @ '','' @ jmember ''idempotency'' (json_string True (ev_Idempotency e))
         @ '','' @ jmember ''observed'' obs
         @ '','' @ jmember ''emitted_at''
             (json_string True (case ev_EmittedAt e of None \<Rightarrow> zero_time | Some t \<Rightarrow> t))
         @ ''}''))"


section \<open>The HTTP emitter\<close>

definition EnvCoreURL :: string where "EnvCoreURL = ''YGGDRASIL_CORE_URL''"
definition EnvRunToken :: string where "EnvRunToken = ''YGGDRASIL_RUN_TOKEN''"
definition DefaultEventsPath :: string where "DefaultEventsPath = ''/api/v1/events''"
definition DefaultMaxRetries :: int where "DefaultMaxRetries = 3"
definition DefaultRetryBackoff :: int where "DefaultRetryBackoff = 250000000"
definition DefaultHTTPTimeout :: int where "DefaultHTTPTimeout = 5 * second"

text \<open>An \<^verbatim>\<open>http.Client\<close> is represented by its timeout.\<close>

record http_emitter =
  he_coreURL :: string
  he_eventsPath :: string
  he_token :: string
  he_client :: "int option"
  he_maxRetries :: int
  he_retryBackoff :: int

datatype emitter_option =
    WithCoreURL string
  | WithToken string
  | WithHTTPClient "int option"
  | WithMaxRetries int
  | WithRetryBackoff int
  | WithEventsPath string

fun apply_emitter_option :: "emitter_option \<Rightarrow> http_emitter \<Rightarrow> http_emitter" where
  "apply_emitter_option (WithCoreURL url) e = e\<lparr>he_coreURL := url\<rparr>"
| "apply_emitter_option (WithToken token) e = e\<lparr>he_token := token\<rparr>"
| "apply_emitter_option (WithHTTPClient c) e = e\<lparr>he_client := c\<rparr>"
| "apply_emitter_option (WithMaxRetries n) e = e\<lparr>he_maxRetries := n\<rparr>"
| "apply_emitter_option (WithRetryBackoff b) e = e\<lparr>he_retryBackoff := b\<rparr>"
| "apply_emitter_option (WithEventsPath path) e = e\<lparr>he_eventsPath := path\<rparr>"

definition NewHTTPEmitter :: "(string \<Rightarrow> string) \<Rightarrow> emitter_option list \<Rightarrow> http_emitter" where
  "NewHTTPEmitter getenv opts =
     (let e0 = \<lparr>he_coreURL = getenv EnvCoreURL, he_eventsPath = DefaultEventsPath,
                he_token = getenv EnvRunToken, he_client = None,
                he_maxRetries = DefaultMaxRetries, he_retryBackoff = DefaultRetryBackoff\<rparr>;
          e1 = fold apply_emitter_option opts e0;
          e2 = (if he_client e1 = None then e1\<lparr>he_client := Some DefaultHTTPTimeout\<rparr> else e1);
          e3 = (if he_maxRetries e2 \<le> 0 then e2\<lparr>he_maxRetries := DefaultMaxRetries\<rparr> else e2);
          e4 = (if he_retryBackoff e3 \<le> 0 then e3\<lparr>he_retryBackoff := DefaultRetryBackoff\<rparr> else e3)
      in if he_eventsPath e4 = [] then e4\<lparr>he_eventsPath := DefaultEventsPath\<rparr> else e4)"

definition truncate_str :: "string \<Rightarrow> nat \<Rightarrow> string" where
  "truncate_str s n = (if length s \<le> n then s else take n s @ ''...'')"

text \<open>One \<^verbatim>\<open>client.Do\<close>: a transport error with whether the context has ended, or a response.\<close>

datatype post_outcome = DoError goerr bool | Response nat string

record post_request =
  pr_url :: string
  pr_contentType :: string
  pr_authorization :: "string option"
  pr_body :: string

record emit_env =
  ee_now :: string
  ee_build :: "string \<Rightarrow> goerr option"
  ee_cancelled :: "nat \<Rightarrow> goerr option"
  ee_post :: "nat \<Rightarrow> post_outcome"

definition emit_request :: "http_emitter \<Rightarrow> string \<Rightarrow> string \<Rightarrow> post_request" where
  "emit_request h url body =
     \<lparr>pr_url = url, pr_contentType = application_json,
      pr_authorization = (if he_token h = [] then None else Some (''Bearer '' @ he_token h)),
      pr_body = body\<rparr>"

definition status_text :: "string \<Rightarrow> string \<Rightarrow> nat \<Rightarrow> string \<Rightarrow> string" where
  "status_text url label status body =
     ''events: POST '' @ url @ '': '' @ label @ '' status '' @ show_nat status @ '': '' @ truncate_str body 256"

function emit_loop :: "http_emitter \<Rightarrow> emit_env \<Rightarrow> string \<Rightarrow> string \<Rightarrow> nat \<Rightarrow> goerr option
    \<Rightarrow> goerr option \<times> post_request list" where
  "emit_loop h env url body attempt lastErr =
     (if he_maxRetries h \<le> int attempt then
        (Some (case lastErr of
             Some e \<Rightarrow> e
           | None \<Rightarrow> ErrorText (''events: POST '' @ url @ '': exhausted retries with no error captured'')), [])
      else
       (case (if 0 < attempt then ee_cancelled env attempt else None) of
          Some ctxErr \<Rightarrow>
            (Some (Wrap ''events: context cancelled during retry backoff: '' ctxErr []), [])
        | None \<Rightarrow>
           (case ee_build env url of
              Some err \<Rightarrow> (Some (Wrap ''events: build request: '' err []), [])
            | None \<Rightarrow>
               (let req = emit_request h url body in
                case ee_post env attempt of
                  DoError err ctxDone \<Rightarrow>
                    (let e = Wrap (''events: POST '' @ url @ '': '') err []
                     in if ctxDone then (Some e, [req])
                        else let (r, reqs) = emit_loop h env url body (Suc attempt) (Some e) in (r, req # reqs))
                | Response status respBody \<Rightarrow>
                    if 200 \<le> status \<and> status < 300 then (None, [req])
                    else if 400 \<le> status \<and> status < 500 then
                      (Some (ErrorText (status_text url ''terminal'' status respBody)), [req])
                    else let (r, reqs) = emit_loop h env url body (Suc attempt)
                               (Some (ErrorText (status_text url ''transient'' status respBody)))
                         in (r, req # reqs)))))"
  by pat_completeness auto
termination
  by (relation "measure (\<lambda>(h, env, u, b, k, e). nat (he_maxRetries h - int k))") auto

declare emit_loop.simps [simp del]

definition Emit :: "http_emitter \<Rightarrow> emit_env \<Rightarrow> mutation_event \<Rightarrow> goerr option \<times> post_request list" where
  "Emit h env e =
     (let e1 = (if ev_EmittedAt e = None then e\<lparr>ev_EmittedAt := Some (ee_now env)\<rparr> else e)
      in case marshal_event e1 of
           Inl err \<Rightarrow> (Some (Wrap ''events: marshal mutation event: '' err []), [])
         | Inr body \<Rightarrow>
             emit_loop h env (TrimRightSlash (he_coreURL h) @ he_eventsPath h) body 0 None)"


section \<open>The retry loop\<close>

text \<open>An attempt the emitter tries again after: no answer while the context lives, or a 1xx, 3xx or 5xx.\<close>

definition transient :: "post_outcome \<Rightarrow> bool" where
  "transient out = (case out of
       DoError _ ctxDone \<Rightarrow> \<not> ctxDone
     | Response status _ \<Rightarrow> status < 200 \<or> (300 \<le> status \<and> status < 400) \<or> 500 \<le> status)"

definition accepted :: "post_outcome \<Rightarrow> bool" where
  "accepted out = (case out of DoError _ _ \<Rightarrow> False | Response status _ \<Rightarrow> 200 \<le> status \<and> status < 300)"

lemma emit_loop_step:
  assumes "int k < he_maxRetries h" "0 < k \<longrightarrow> ee_cancelled env k = None" "ee_build env url = None"
    "transient (ee_post env k)"
  shows "\<exists>e. emit_loop h env url body k le =
           apsnd (Cons (emit_request h url body)) (emit_loop h env url body (Suc k) (Some e))"
  using assms by (cases "ee_post env k")
    (auto simp: emit_loop.simps [of h env url body k] transient_def Let_def apsnd_def map_prod_def)

lemma emit_loop_stop:
  assumes "\<not> (int k < he_maxRetries h \<and> (0 < k \<longrightarrow> ee_cancelled env k = None)
              \<and> ee_build env url = None \<and> transient (ee_post env k))"
    and "emit_loop h env url body k le = (r, reqs)"
  shows "set reqs \<subseteq> {emit_request h url body}
    \<and> int k + int (length reqs) \<le> max (int k) (he_maxRetries h)"
proof (cases "int k < he_maxRetries h \<and> (0 < k \<longrightarrow> ee_cancelled env k = None) \<and> ee_build env url = None")
  case False
  then show ?thesis
    using assms(2) by (auto simp: emit_loop.simps [of h env url body k] split: if_splits option.splits)
next
  case True
  then show ?thesis
    using assms by (cases "ee_post env k")
      (auto simp: emit_loop.simps [of h env url body k] transient_def accepted_def split: if_splits)
qed

lemma emit_loop_run:
  assumes "emit_loop h env url body k le = (r, reqs)"
  shows "set reqs \<subseteq> {emit_request h url body} \<and> int k + int (length reqs) \<le> max (int k) (he_maxRetries h)"
  using assms
proof (induction "nat (he_maxRetries h - int k)" arbitrary: k le r reqs rule: less_induct)
  case less
  let ?go = "int k < he_maxRetries h \<and> (0 < k \<longrightarrow> ee_cancelled env k = None)
              \<and> ee_build env url = None \<and> transient (ee_post env k)"
  show ?case
  proof (cases ?go)
    case False
    show ?thesis by (rule emit_loop_stop [OF False less.prems])
  next
    case True
    then obtain e where "emit_loop h env url body k le =
        apsnd (Cons (emit_request h url body)) (emit_loop h env url body (Suc k) (Some e))"
      using emit_loop_step [of k h env url body le] by auto
    moreover obtain r' reqs' where e: "emit_loop h env url body (Suc k) (Some e) = (r', reqs')"
      by (rule prod.exhaust)
    ultimately have r: "reqs = emit_request h url body # reqs'" using less.prems by simp
    have dec: "nat (he_maxRetries h - int (Suc k)) < nat (he_maxRetries h - int k)" using True by simp
    show ?thesis using less.hyps [OF dec e] True unfolding r by auto
  qed
qed

lemma emit_loop_until:
  assumes "ee_build env url = None" "\<forall>j. ee_cancelled env j = None" "int n < he_maxRetries h"
    "\<not> transient (ee_post env n)" "k \<le> n" "\<forall>j. k \<le> j \<and> j < n \<longrightarrow> transient (ee_post env j)"
  shows "snd (emit_loop h env url body k le) = replicate (Suc n - k) (emit_request h url body)
    \<and> (fst (emit_loop h env url body k le) = None \<longleftrightarrow> accepted (ee_post env n))"
  using assms(5,6)
proof (induction "n - k" arbitrary: k le)
  case 0
  then have "k = n" by simp
  then show ?case
    using assms(1-4) by (cases "ee_post env n")
      (auto simp: emit_loop.simps [of h env url body n] transient_def accepted_def Let_def)
next
  case (Suc d)
  then have k: "k < n" by simp
  then obtain e where e: "emit_loop h env url body k le =
      apsnd (Cons (emit_request h url body)) (emit_loop h env url body (Suc k) (Some e))"
    using emit_loop_step [of k h env url body le] assms(1-3) Suc.prems by auto
  have "snd (emit_loop h env url body (Suc k) (Some e)) = replicate (Suc n - Suc k) (emit_request h url body)
    \<and> (fst (emit_loop h env url body (Suc k) (Some e)) = None \<longleftrightarrow> accepted (ee_post env n))"
    using Suc k by (intro Suc.hyps) auto
  then show ?case
    using k unfolding e by (simp add: Suc_diff_le flip: replicate_Suc)
qed

lemma NewHTTPEmitter_bounds:
  "1 \<le> he_maxRetries (NewHTTPEmitter getenv opts)" "0 < he_retryBackoff (NewHTTPEmitter getenv opts)"
  "he_eventsPath (NewHTTPEmitter getenv opts) \<noteq> []" "he_client (NewHTTPEmitter getenv opts) \<noteq> None"
  by (simp_all add: NewHTTPEmitter_def Let_def DefaultMaxRetries_def DefaultRetryBackoff_def
      DefaultEventsPath_def)


section \<open>Properties\<close>

text \<open>
  the emitter's retry policy. While the context lives, the requests sent are exactly those
  up to and including the first attempt whose outcome is not transient, every one with the
  same body, URL and token; the call succeeds if and only if that outcome is a 2xx. In
  particular a 4xx ends the emission at once.
\<close>

theorem Emit_retry_policy:
  assumes "marshal_event (if ev_EmittedAt e = None then e\<lparr>ev_EmittedAt := Some (ee_now env)\<rparr> else e) = Inr body"
    and "ee_build env (TrimRightSlash (he_coreURL h) @ he_eventsPath h) = None"
    and "\<forall>k. ee_cancelled env k = None"
    and "int n < he_maxRetries h" and "\<not> transient (ee_post env n)"
    and "\<forall>j < n. transient (ee_post env j)"
  shows "snd (Emit h env e) =
           replicate (Suc n) (emit_request h (TrimRightSlash (he_coreURL h) @ he_eventsPath h) body)
    \<and> (fst (Emit h env e) = None \<longleftrightarrow> accepted (ee_post env n))"
  using emit_loop_until [OF assms(2-5), of 0] assms(1,6) by (simp add: Emit_def Let_def)

theorem Emit_retry_policy_witness:
  "snd (Emit (NewHTTPEmitter (\<lambda>_. ''http://core'') [])
     \<lparr>ee_now = ''2025-01-01T00:00:00Z'', ee_build = (\<lambda>_. None), ee_cancelled = (\<lambda>_. None),
      ee_post = (\<lambda>k. if k = 0 then Response 503 [] else Response 202 [])\<rparr>
     \<lparr>ev_EventType = ''t'', ev_Provider = ''p'', ev_Resource = ''r'', ev_Verb = VerbEnsured,
      ev_ResourceID = ''1'', ev_InstanceID = [], ev_Idempotency = ''k'', ev_Observed = None,
      ev_EmittedAt = None\<rparr>) \<noteq> []"
proof -
  let ?e = "\<lparr>ev_EventType = ''t'', ev_Provider = ''p'', ev_Resource = ''r'', ev_Verb = VerbEnsured,
      ev_ResourceID = ''1'', ev_InstanceID = [], ev_Idempotency = ''k'', ev_Observed = None,
      ev_EmittedAt = None\<rparr> :: mutation_event"
  let ?env = "\<lparr>ee_now = ''2025-01-01T00:00:00Z'', ee_build = (\<lambda>_. None), ee_cancelled = (\<lambda>_. None),
      ee_post = (\<lambda>k. if k = 0 then Response 503 [] else Response 202 [])\<rparr>"
  obtain body where b: "marshal_event (if ev_EmittedAt ?e = None then ?e\<lparr>ev_EmittedAt := Some (ee_now ?env)\<rparr> else ?e)
      = Inr body"
    by (simp add: marshal_event_def marshal_raw_def)
  have "int 1 < he_maxRetries (NewHTTPEmitter (\<lambda>_. ''http://core'') [])"
    by (simp add: NewHTTPEmitter_def Let_def DefaultMaxRetries_def DefaultRetryBackoff_def DefaultEventsPath_def)
  from Emit_retry_policy [OF b _ _ this] show ?thesis by (simp add: transient_def)
qed

text \<open>
  no emission sends more requests than its attempt budget, whatever the server, the network
  and the context do, and an emitter built by \<^verbatim>\<open>NewHTTPEmitter\<close> has a budget of at least one
  attempt, a positive delay and a non-empty path, whatever options it was given.
\<close>

theorem Emit_budget:
  "int (length (snd (Emit h env e))) \<le> max 0 (he_maxRetries h)
   \<and> 1 \<le> he_maxRetries (NewHTTPEmitter getenv opts) \<and> 0 < he_retryBackoff (NewHTTPEmitter getenv opts)
   \<and> he_eventsPath (NewHTTPEmitter getenv opts) \<noteq> []"
proof -
  have "int (length (snd (emit_loop h env url body 0 None))) \<le> max 0 (he_maxRetries h)" for url body
    using emit_loop_run [of h env url body 0 None] by (cases "emit_loop h env url body 0 None") auto
  then show ?thesis
    by (auto simp: NewHTTPEmitter_bounds Emit_def Let_def split: sum.split)
qed


text \<open>
  the wire form of an event. For valid UTF-8 fields and an observed payload that is a JSON
  text, marshalling succeeds and the body is one JSON object with the nine members under
  their documented names, each carrying exactly the field's value.
\<close>

theorem marshal_event_json:
  assumes "valid_utf8 (ev_EventType e)" and "valid_utf8 (ev_Provider e)" and "valid_utf8 (ev_Resource e)"
    and "valid_utf8 (ev_Verb e)" and "valid_utf8 (ev_ResourceID e)" and "valid_utf8 (ev_InstanceID e)"
    and "valid_utf8 (ev_Idempotency e)" and "ev_EmittedAt e = Some time" and "valid_utf8 time"
    and "marshal_raw (ev_Observed e) = Inr obs" and "denotes obs v" and "json_depth v < max_nesting_depth"
  shows "\<exists>body. marshal_event e = Inr body \<and> json_parse body = Some (JObj
    [(''event_type'', JStr (ev_EventType e)), (''provider'', JStr (ev_Provider e)),
     (''resource'', JStr (ev_Resource e)), (''verb'', JStr (ev_Verb e)), (''resource_id'', JStr (ev_ResourceID e)),
     (''instance_id'', JStr (ev_InstanceID e)), (''idempotency'', JStr (ev_Idempotency e)),
     (''observed'', v), (''emitted_at'', JStr time)])"
proof -
  let ?s = "\<lambda>k x. (k, json_string True x, JStr x)"
  let ?ms = "[?s ''event_type'' (ev_EventType e), ?s ''provider'' (ev_Provider e), ?s ''resource'' (ev_Resource e),
      ?s ''verb'' (ev_Verb e), ?s ''resource_id'' (ev_ResourceID e), ?s ''instance_id'' (ev_InstanceID e),
      ?s ''idempotency'' (ev_Idempotency e), (''observed'', obs, v), ?s ''emitted_at'' time]"
  have g: "list_all good_member ?ms"
    using assms by (simp add: denotes_string valid_utf8_ascii byte_def)
  have d: "json_depth (JObj (map (\<lambda>(k, t, v). (k, v)) ?ms)) \<le> max_nesting_depth"
    using assms(12) by (simp add: max_nesting_depth_def)
  have "marshal_event e = Inr (object_text (map text_of ?ms))"
    using assms(8,10) by (simp add: marshal_event_def json_object_def jmember_def)
  moreover note denotes_parse [OF denotes_object [OF g] d]
  ultimately show ?thesis by simp
qed

theorem marshal_event_json_witness:
  "\<exists>body v. marshal_event \<lparr>ev_EventType = ''okta.user.ensured'', ev_Provider = ''okta'', ev_Resource = ''user'',
      ev_Verb = ''ensured'', ev_ResourceID = ''u1'', ev_InstanceID = [], ev_Idempotency = ''k'', ev_Observed = None,
      ev_EmittedAt = Some ''2024-01-01T00:00:00Z''\<rparr> = Inr body \<and> json_parse body = Some v"
  using marshal_event_json [of "\<lparr>ev_EventType = ''okta.user.ensured'', ev_Provider = ''okta'', ev_Resource = ''user'',
      ev_Verb = ''ensured'', ev_ResourceID = ''u1'', ev_InstanceID = [], ev_Idempotency = ''k'', ev_Observed = None,
      ev_EmittedAt = Some ''2024-01-01T00:00:00Z''\<rparr>" "''2024-01-01T00:00:00Z''" "''null''" JNull]
  by (force simp: marshal_raw_def denotes_literals valid_utf8_ascii byte_def max_nesting_depth_def)

end
