(* ===== verification/Digest.thy ===== *)
theory Digest
  imports Json "HOL-Library.Word"
begin

text \<open>
  The digests and encodings the SDK takes from Go's standard library:
  \<^verbatim>\<open>crypto/sha256\<close> (FIPS 180-4), \<^verbatim>\<open>crypto/hmac\<close> (RFC 2104), \<^verbatim>\<open>crypto/subtle\<close>'s
  \<^verbatim>\<open>ConstantTimeCompare\<close> and \<^verbatim>\<open>encoding/hex\<close>.
\<close>

unbundle bit_operations_syntax

section \<open>SHA-256\<close>

type_synonym u32 = "32 word"

text \<open>
  The constants of the standard, as it defines them: the first 32 bits of the fractional
  parts of the cube roots of the first 64 primes and of the square roots of the first 8.
  \<open>int_root n m b r\<close> finds the integer \<open>n\<close>-th root of \<open>m\<close> bit by bit, from bit \<open>b - 1\<close> down;
  the conversion to a 32-bit word drops the integer part.
\<close>

fun int_root :: "nat \<Rightarrow> nat \<Rightarrow> nat \<Rightarrow> nat \<Rightarrow> nat" where
  "int_root n m 0 r = r"
| "int_root n m (Suc b) r = int_root n m b (if (r + 2 ^ b) ^ n \<le> m then r + 2 ^ b else r)"

definition primes_upto :: "nat \<Rightarrow> nat list" where
  "primes_upto n = filter (\<lambda>p. 1 < p \<and> list_all (\<lambda>d. \<not> d dvd p) [2..<p]) [0..<n]"

definition sha_k :: "u32 list" where
  "sha_k = map (\<lambda>p. of_nat (int_root 3 (p * 2 ^ 96) 36 0)) (primes_upto 312)"

definition sha_h :: "u32 list" where
  "sha_h = map (\<lambda>p. of_nat (int_root 2 (p * 2 ^ 64) 36 0)) (primes_upto 20)"

type_synonym sha_state = "u32 \<times> u32 \<times> u32 \<times> u32 \<times> u32 \<times> u32 \<times> u32 \<times> u32"

definition sha_init :: sha_state where
  "sha_init = (sha_h ! 0, sha_h ! 1, sha_h ! 2, sha_h ! 3, sha_h ! 4, sha_h ! 5, sha_h ! 6, sha_h ! 7)"

definition small_sigma0 :: "u32 \<Rightarrow> u32" where
  "small_sigma0 x = (word_rotr 7 x XOR word_rotr 18 x) XOR drop_bit 3 x"

definition small_sigma1 :: "u32 \<Rightarrow> u32" where
  "small_sigma1 x = (word_rotr 17 x XOR word_rotr 19 x) XOR drop_bit 10 x"

definition big_sigma0 :: "u32 \<Rightarrow> u32" where
  "big_sigma0 x = (word_rotr 2 x XOR word_rotr 13 x) XOR word_rotr 22 x"

definition big_sigma1 :: "u32 \<Rightarrow> u32" where
  "big_sigma1 x = (word_rotr 6 x XOR word_rotr 11 x) XOR word_rotr 25 x"

text \<open>The message schedule, kept in reverse order: the head is the newest word.\<close>

fun sha_extend :: "nat \<Rightarrow> u32 list \<Rightarrow> u32 list" where
  "sha_extend 0 ws = ws"
| "sha_extend (Suc n) ws =
     sha_extend n
       ((small_sigma1 (ws ! 1) + (ws ! 6) + small_sigma0 (ws ! 14) + (ws ! 15)) # ws)"

fun sha_round :: "sha_state \<Rightarrow> u32 \<times> u32 \<Rightarrow> sha_state" where
  "sha_round (a, b, c, d, e, f, g, h) (k, w) =
     (let t1 = h + big_sigma1 e + ((e AND f) XOR (NOT e AND g)) + k + w;
          t2 = big_sigma0 a + (((a AND b) XOR (a AND c)) XOR (b AND c))
      in (t1 + t2, a, b, c, d + t1, e, f, g))"

fun sha_add :: "sha_state \<Rightarrow> sha_state \<Rightarrow> sha_state" where
  "sha_add (a, b, c, d, e, f, g, h) (a', b', c', d', e', f', g', h') =
     (a + a', b + b', c + c', d + d', e + e', f + f', g + g', h + h')"

fun be_words :: "string \<Rightarrow> u32 list" where
  "be_words (a # b # c # d # r) =
     word_of_nat (((byte a * 256 + byte b) * 256 + byte c) * 256 + byte d) # be_words r"
| "be_words _ = []"

definition sha_block :: "sha_state \<Rightarrow> string \<Rightarrow> sha_state" where
  "sha_block st blk =
     sha_add st (foldl sha_round st (zip sha_k (rev (sha_extend 48 (rev (be_words blk))))))"

function sha_blocks :: "sha_state \<Rightarrow> string \<Rightarrow> sha_state" where
  "sha_blocks st m = (if m = [] then st else sha_blocks (sha_block st (take 64 m)) (drop 64 m))"
  by pat_completeness auto
termination by (relation "measure (\<lambda>(st, m). length m)") auto

declare sha_blocks.simps [simp del]

definition be64 :: "nat \<Rightarrow> string" where
  "be64 n = map (\<lambda>i. char_of (n div 256 ^ i)) [7, 6, 5, 4, 3, 2, 1, 0]"

definition sha_pad :: "string \<Rightarrow> string" where
  "sha_pad m = m @ [CHR 0x80] @ replicate ((119 - length m mod 64) mod 64) (CHR 0x00)
               @ be64 (8 * length m)"

definition be_bytes :: "u32 \<Rightarrow> string" where
  "be_bytes w = map (\<lambda>i. char_of (unat w div 256 ^ i)) [3, 2, 1, 0]"

definition sha256 :: "string \<Rightarrow> string" where
  "sha256 m = (case sha_blocks sha_init (sha_pad m) of (a, b, c, d, e, f, g, h) \<Rightarrow>
     concat (map be_bytes [a, b, c, d, e, f, g, h]))"

lemma length_sha256 [simp]: "length (sha256 m) = 32"
  by (simp add: sha256_def be_bytes_def split: prod.split)

lemma sha_pad_blocks: "length (sha_pad m) mod 64 = 0"
proof -
  define r where "r = length m mod 64"
  have r: "r < 64" by (simp add: r_def)
  then have "(119 - r) mod 64 = (if r \<le> 55 then 55 - r else 119 - r)"
    by (cases "r \<le> 55") (auto simp: mod_if)
  moreover have "length m = 64 * (length m div 64) + r" by (simp add: r_def)
  ultimately have "\<exists>k. length (sha_pad m) = 64 * k"
    using r unfolding sha_pad_def be64_def r_def [symmetric]
    by (cases "r \<le> 55")
      (auto intro: exI [of _ "length m div 64 + 1"] exI [of _ "length m div 64 + 2"])
  then show ?thesis by auto
qed


section \<open>HMAC\<close>

definition xor_byte :: "nat \<Rightarrow> char \<Rightarrow> char" where
  "xor_byte k c = char_of (Bit_Operations.xor (byte c) k)"

definition hmac_key :: "string \<Rightarrow> string" where
  "hmac_key key = (let k = (if 64 < length key then sha256 key else key)
                   in k @ replicate (64 - length k) (CHR 0x00))"

definition hmac_sha256 :: "string \<Rightarrow> string \<Rightarrow> string" where
  "hmac_sha256 key m =
     sha256 (map (xor_byte 0x5C) (hmac_key key)
             @ sha256 (map (xor_byte 0x36) (hmac_key key) @ m))"

lemma length_hmac_sha256 [simp]: "length (hmac_sha256 key m) = 32"
  by (simp add: hmac_sha256_def)

text \<open>\<^verbatim>\<open>subtle.ConstantTimeCompare(x, y)\<close>: 0 on different lengths, else the folded difference.\<close>

definition ConstantTimeCompare :: "string \<Rightarrow> string \<Rightarrow> nat" where
  "ConstantTimeCompare x y =
     (if length x \<noteq> length y then 0
      else if foldl (\<lambda>v (a, b). Bit_Operations.or v (Bit_Operations.xor (byte a) (byte b))) 0 (zip x y) = 0
      then 1 else 0)"

lemma xor_eq_0_nat: "Bit_Operations.xor (a::nat) b = 0 \<longleftrightarrow> a = b"
  by (simp add: bit_eq_iff bit_xor_iff)

lemma foldl_or_zero:
  "foldl (\<lambda>v (a, b). Bit_Operations.or v (Bit_Operations.xor (byte a) (byte b))) w ps = (0::nat)
     \<longleftrightarrow> w = 0 \<and> (\<forall>(a, b) \<in> set ps. a = b)"
proof (induction ps arbitrary: w)
  case (Cons p ps)
  obtain a b where "p = (a, b)" by force
  with Cons.IH show ?case
    by (auto simp: or_eq_0_iff xor_eq_0_nat)
qed simp

lemma ConstantTimeCompare_eq: "ConstantTimeCompare x y = (if x = y then 1 else 0)"
proof -
  have "(\<forall>(a, b) \<in> set (zip x y). a = b) \<longleftrightarrow> x = y" if "length x = length y"
    using that by (induction x y rule: list_induct2) auto
  then show ?thesis by (auto simp: ConstantTimeCompare_def foldl_or_zero)
qed


section \<open>Package encoding/hex\<close>

definition hex_encode :: "string \<Rightarrow> string" where
  "hex_encode s = concat (map (\<lambda>c. [hex_digit (byte c div 16), hex_digit (byte c mod 16)]) s)"

fun hex_decode :: "string \<Rightarrow> string option" where
  "hex_decode [] = Some []"
| "hex_decode [c] = None"
| "hex_decode (a # b # r) =
     (case (hex_val a, hex_val b) of
        (Some x, Some y) \<Rightarrow> map_option (Cons (char_of (16 * x + y))) (hex_decode r)
      | _ \<Rightarrow> None)"

lemma length_hex_encode [simp]: "length (hex_encode s) = 2 * length s"
  by (induction s) (auto simp: hex_encode_def)

lemma hex_decode_encode [simp]: "hex_decode (hex_encode s) = Some s"
proof (induction s)
  case (Cons c s)
  have "byte c div 16 < 16" using byte_less [of c] by linarith
  moreover have "16 * (byte c div 16) + byte c mod 16 = byte c" by simp
  ultimately show ?case using Cons by (simp add: hex_encode_def)
qed (simp add: hex_encode_def)

interpretation hex: codec hex_encode hex_decode "\<lambda>s. True"
  by unfold_locales simp

end
