(* ===== verification/Reconcile.thy ===== *)
theory Reconcile
  imports Adapter Events Digest
begin

text \<open>
  Package \<^verbatim>\<open>sdk/reconcile\<close> (\<^verbatim>\<open>register.go\<close>, \<^verbatim>\<open>dispatch.go\<close>, \<^verbatim>\<open>options.go\<close>, \<^verbatim>\<open>types.go\<close>): the
  per-adapter dispatch table behind the \<^verbatim>\<open>execute\<close> capability, the three operations made from
  a \<^verbatim>\<open>Reconciler\<close>, and the mutation events they emit.

  The reconciler, the emitter and the JSON codecs of the payload types \<^verbatim>\<open>D\<close> and \<^verbatim>\<open>O\<close> belong to
  the adapter's author: they are fields of \<open>reconciler\<close> and \<open>payload_types\<close>. The author's code
  acts on a state \<open>'u\<close>; the \<open>world\<close> record adds what the SDK itself reads and writes: the
  clock, the events handed to an emitter and the warnings logged. The \<open>i\<close>-th reading of the
  clock is \<open>w_clock w i\<close>, an arbitrary value. The Go pointer \<^verbatim>\<open>*adapter.Adapter\<close> is a number.
  Texts of errors of \<^verbatim>\<open>encoding/json\<close> are not reproduced.
\<close>

section \<open>State\<close>

text \<open>Where a log line goes: standard output, the standard logger, or a logger the author gave.\<close>

datatype sink = Stdout | StdLog | Logger nat

record 'u world =
  w_user :: 'u
  w_clock :: "nat \<Rightarrow> int"
  w_ticks :: nat
  w_emits :: "mutation_event list"
  w_warns :: "(sink \<times> string) list"

type_synonym 'u emitter = "mutation_event \<Rightarrow> 'u \<Rightarrow> goerr option \<times> 'u"

record executeRequest =
  er_Operation :: string
  er_Capability :: string
  er_Idempotency :: string
  er_InstanceID :: string
  er_Input :: string

type_synonym 'u entry = "executeRequest \<Rightarrow> 'u world \<Rightarrow> (goerr + string) \<times> 'u world"
type_synonym 'u table = "string \<rightharpoonup> 'u entry"

text \<open>The handlers an adapter can hold: the author's own, or the \<^verbatim>\<open>execute\<close> handler over a dispatch table.\<close>

datatype 'u ahandler = UserHandler "'u world adapter_handler" | ExecuteHandler nat

record 'u sdk =
  sdk_adapters :: "nat \<Rightarrow> 'u ahandler adapter"
  dispatchTables :: "nat \<rightharpoonup> 'u table"
  missingEmitterWarned :: "nat \<Rightarrow> bool"
  sdk_log :: "(sink \<times> string) list"


section \<open>Interfaces\<close>

text \<open>\<^verbatim>\<open>Reconciler[D, O]\<close>; the last field is the optional \<^verbatim>\<open>DestroyWithDesired[D]\<close>.\<close>

record ('d, 'o, 'u) reconciler =
  r_Ensure :: "'d \<Rightarrow> 'u \<Rightarrow> (goerr + 'o) \<times> 'u"
  r_Observe :: "(string \<rightharpoonup> goany) \<Rightarrow> 'u \<Rightarrow> (goerr + 'o list option \<times> string) \<times> 'u"
  r_Destroy :: "string \<Rightarrow> 'u \<Rightarrow> goerr option \<times> 'u"
  r_DestroyWithDesired :: "(string \<Rightarrow> 'd \<Rightarrow> 'u \<Rightarrow> goerr option \<times> 'u) option"

text \<open>What package \<^verbatim>\<open>reflect\<close> sees of a value: \<open>VStruct\<close> carries \<^verbatim>\<open>FieldByName\<close>.\<close>

datatype reflect_field = FString string | FOther

datatype reflect_value = VInvalid | VNilPtr | VPtr reflect_value | VStruct "string \<Rightarrow> reflect_field option" | VOther

text \<open>The zero value and the JSON decoder of \<^verbatim>\<open>D\<close>, the JSON encoder and the reflection of \<^verbatim>\<open>O\<close>.\<close>

record ('d, 'o) payload_types =
  zero_D :: 'd
  unmarshal_D :: "string \<Rightarrow> goerr + 'd"
  marshal_O :: "'o \<Rightarrow> goerr + string"
  reflect_O :: "'o \<Rightarrow> reflect_value"

definition json_error :: goerr where "json_error = ErrorText ''json: cannot unmarshal''"


section \<open>Options\<close>

record 'u options =
  o_legacyNames :: "string list"
  o_warnLogger :: "nat option"
  o_emitter :: "'u emitter option"
  o_provider :: string
  o_instanceID :: string

datatype 'u opt =
    WithLegacyNames "string list"
  | WithWarnLogger "nat option"
  | WithEmitter "'u emitter option"
  | WithProvider string
  | WithInstanceID string

fun apply_option :: "'u opt \<Rightarrow> 'u options \<Rightarrow> 'u options" where
  "apply_option (WithLegacyNames names) c = c\<lparr>o_legacyNames := o_legacyNames c @ names\<rparr>"
| "apply_option (WithWarnLogger logger) c = c\<lparr>o_warnLogger := logger\<rparr>"
| "apply_option (WithEmitter em) c = c\<lparr>o_emitter := em\<rparr>"
| "apply_option (WithProvider provider) c = c\<lparr>o_provider := provider\<rparr>"
| "apply_option (WithInstanceID instanceID) c = c\<lparr>o_instanceID := instanceID\<rparr>"

definition no_options :: "'u options" where
  "no_options = \<lparr>o_legacyNames = [], o_warnLogger = None, o_emitter = None, o_provider = [], o_instanceID = []\<rparr>"

definition warn :: "sink \<Rightarrow> string \<Rightarrow> 'u world \<Rightarrow> 'u world" where
  "warn k line w = w\<lparr>w_warns := w_warns w @ [(k, line)]\<rparr>"

definition resolveWarnLogger :: "nat option \<Rightarrow> string \<Rightarrow> 'u world \<Rightarrow> 'u world" where
  "resolveWarnLogger logger line = (case logger of
       Some l \<Rightarrow> warn (Logger l) line
     | None \<Rightarrow> warn Stdout (''WARN '' @ line @ [CHR 0x0A]))"

definition warnShim :: "string \<Rightarrow> string \<Rightarrow> 'u entry \<Rightarrow> nat option \<Rightarrow> 'u entry" where
  "warnShim legacy canonical canonicalFn logger env w =
     (let line = ''reconcile: deprecated capability name '' @ go_quote legacy @ '' invoked; use ''
                 @ go_quote canonical @ '' (compat shim, removed in v0.7.0)''
      in canonicalFn env (case logger of Some l \<Rightarrow> warn (Logger l) line w
                          | None \<Rightarrow> warn StdLog (''WARN '' @ line) w))"

fun startsWithAny :: "string \<Rightarrow> string list \<Rightarrow> bool" where
  "startsWithAny s [] = False"
| "startsWithAny s (p # ps) = ((length p \<le> length s \<and> take (length p) s = p) \<or> startsWithAny s ps)"

definition pickCanonicalForLegacy :: "string \<Rightarrow> string \<Rightarrow> string \<Rightarrow> string \<Rightarrow> string" where
  "pickCanonicalForLegacy legacy ensureName observeName destroyName =
     (if startsWithAny legacy [''create_'', ''update_'', ''upsert_'', ''register_'', ''set_'', ''apply_'', ''issue_'']
      then ensureName
      else if startsWithAny legacy [''get_'', ''list_'', ''describe_'', ''lookup_'', ''retrieve_'']
      then observeName
      else if startsWithAny legacy [''delete_'', ''unregister_'', ''remove_'', ''teardown_'', ''revoke_'', ''cancel_'', ''archive_'']
      then destroyName
      else ensureName)"


section \<open>Emission\<close>

record 'u emitContext =
  ec_emitter :: "'u emitter option"
  ec_provider :: string
  ec_resource :: string
  ec_instanceID :: string
  ec_warn :: "string \<Rightarrow> 'u world \<Rightarrow> 'u world"

definition effectiveProvider :: "'u emitContext \<Rightarrow> executeRequest \<Rightarrow> string" where
  "effectiveProvider ec env = ec_provider ec"

definition effectiveInstanceID :: "'u emitContext \<Rightarrow> executeRequest \<Rightarrow> string" where
  "effectiveInstanceID ec env = (if er_InstanceID env \<noteq> [] then er_InstanceID env else ec_instanceID ec)"

text \<open>\<^verbatim>\<open>time.Now().UTC().UnixNano()\<close>.\<close>

definition unix_nano :: "'u world \<Rightarrow> int \<times> 'u world" where
  "unix_nano w = (w_clock w (w_ticks w), w\<lparr>w_ticks := Suc (w_ticks w)\<rparr>)"

definition idempotency_key :: "string \<Rightarrow> string \<Rightarrow> verb \<Rightarrow> string \<Rightarrow> int \<Rightarrow> string" where
  "idempotency_key provider resource verb resourceID now =
     (let h = sha256 (provider @ ''|'' @ resource @ ''|'' @ verb @ ''|'' @ resourceID @ ''|'' @ show_int now);
          hashPrefix = hex_encode (take 4 h)
      in provider @ ''.'' @ resource @ ''.'' @ verb @ ''.'' @ resourceID @ ''.'' @ hashPrefix)"

definition synthesizeIdempotencyKey ::
  "string \<Rightarrow> string \<Rightarrow> verb \<Rightarrow> string \<Rightarrow> 'u world \<Rightarrow> string \<times> 'u world" where
  "synthesizeIdempotencyKey provider resource verb resourceID w =
     (let (now, w') = unix_nano w in (idempotency_key provider resource verb resourceID now, w'))"

definition emit :: "'u emitContext \<Rightarrow> executeRequest \<Rightarrow> verb \<Rightarrow> string \<Rightarrow> string \<Rightarrow> 'u world \<Rightarrow> 'u world" where
  "emit ec env verb resourceID observed w =
     (case ec_emitter ec of
        None \<Rightarrow> w
      | Some em \<Rightarrow>
         (let provider = effectiveProvider ec env;
              (idempotency, w1) = (if er_Idempotency env = []
                 then synthesizeIdempotencyKey provider (ec_resource ec) verb resourceID w
                 else (er_Idempotency env, w));
              ev = \<lparr>ev_EventType = BuildEventType provider (ec_resource ec) verb,
                    ev_Provider = provider, ev_Resource = ec_resource ec, ev_Verb = verb,
                    ev_ResourceID = resourceID, ev_InstanceID = effectiveInstanceID ec env,
                    ev_Idempotency = idempotency, ev_Observed = Some observed, ev_EmittedAt = None\<rparr>;
              (err, u) = em ev (w_user w1);
              w2 = w1\<lparr>w_user := u, w_emits := w_emits w1 @ [ev]\<rparr>
          in case err of
               None \<Rightarrow> w2
             | Some e \<Rightarrow> ec_warn ec (''reconcile: emit '' @ go_quote (ev_EventType ev)
                           @ '' failed (best-effort, not blocking): '' @ error_text e) w2))"


section \<open>Resource identifiers\<close>

text \<open>\<^verbatim>\<open>v, ok := m[k].(string)\<close>, with the empty string standing for \<^verbatim>\<open>!ok\<close>: the callers test \<^verbatim>\<open>ok && v != ""\<close>.\<close>

definition str_at :: "(string \<rightharpoonup> goany) \<Rightarrow> string \<Rightarrow> string" where
  "str_at m k = (case m k of Some (AStr v) \<Rightarrow> v | _ \<Rightarrow> [])"

definition inferRefFromInput :: "string \<Rightarrow> string \<Rightarrow> string" where
  "inferRefFromInput input resource =
     (case json_any_map input of
        None \<Rightarrow> []
      | Some m \<Rightarrow>
          if str_at m ''ref'' \<noteq> [] then str_at m ''ref''
          else if resource \<noteq> [] \<and> str_at m (resource @ ''_id'') \<noteq> [] then str_at m (resource @ ''_id'')
          else if str_at m ''id'' \<noteq> [] then str_at m ''id''
          else if str_at m ''owner'' \<noteq> [] \<and> str_at m ''repo'' \<noteq> []
            then str_at m ''owner'' @ ''/'' @ str_at m ''repo''
          else if resource \<noteq> [] \<and> str_at m resource \<noteq> [] then str_at m resource
          else [])"

text \<open>
  \<^verbatim>\<open>int64(x)\<close> of a float64: truncation; outside the int64 range the result is that of amd64,
  the least int64.
\<close>

definition f64_to_int64 :: "rat \<Rightarrow> int" where
  "f64_to_int64 x =
     (let t = (if x < 0 then \<lceil>x\<rceil> else \<lfloor>x\<rfloor>) in if int64_min \<le> t \<and> t \<le> int64_max then t else int64_min)"

definition coerceToNonEmptyString :: "goany \<Rightarrow> string" where
  "coerceToNonEmptyString v = (case v of
       AStr x \<Rightarrow> x
     | AF64 x \<Rightarrow> (if x = 0 then []
                  else if x = of_int (f64_to_int64 x) then show_int (f64_to_int64 x)
                  else show_g x)
     | _ \<Rightarrow> [])"

definition coerce_at :: "(string \<rightharpoonup> goany) \<Rightarrow> string \<Rightarrow> string" where
  "coerce_at m k = (case m k of Some v \<Rightarrow> coerceToNonEmptyString v | None \<Rightarrow> [])"

fun reflect_names :: "(string \<Rightarrow> reflect_field option) \<Rightarrow> string list \<Rightarrow> string" where
  "reflect_names f [] = []"
| "reflect_names f (n # ns) = (case f n of Some (FString s) \<Rightarrow> s | _ \<Rightarrow> reflect_names f ns)"

definition reflectID :: "reflect_value \<Rightarrow> string" where
  "reflectID v =
     (case (case v of VPtr t \<Rightarrow> t | _ \<Rightarrow> v) of VStruct f \<Rightarrow> reflect_names f [''ID'', ''Id''] | _ \<Rightarrow> [])"

fun first_coerced :: "(string \<rightharpoonup> goany) \<Rightarrow> string list \<Rightarrow> string" where
  "first_coerced m [] = []"
| "first_coerced m (k # ks) = (if coerce_at m k \<noteq> [] then coerce_at m k else first_coerced m ks)"

definition inferResourceID :: "reflect_value \<Rightarrow> string \<Rightarrow> string \<Rightarrow> string" where
  "inferResourceID observed body resource =
     (if reflectID observed \<noteq> [] then reflectID observed
      else case json_any_map body of
        None \<Rightarrow> []
      | Some probe \<Rightarrow>
          if first_coerced probe [''id'', ''ID'', ''Id''] \<noteq> [] then first_coerced probe [''id'', ''ID'', ''Id'']
          else if resource \<noteq> [] \<and> coerce_at probe (resource @ ''_id'') \<noteq> []
            then coerce_at probe (resource @ ''_id'')
          else if str_at probe ''owner'' \<noteq> [] \<and> str_at probe ''repo'' \<noteq> []
            then str_at probe ''owner'' @ ''/'' @ str_at probe ''repo''
          else if coerce_at probe ''full_name'' \<noteq> [] then coerce_at probe ''full_name''
          else if resource \<noteq> [] \<and> coerce_at probe resource \<noteq> [] then coerce_at probe resource
          else [])"


section \<open>The three operations\<close>

definition parse_desired :: "('d, 'o) payload_types \<Rightarrow> executeRequest \<Rightarrow> goerr + 'd" where
  "parse_desired ty env = (if er_Input env = [] then Inr (zero_D ty) else unmarshal_D ty (er_Input env))"

definition makeEnsureFn :: "('d, 'o) payload_types \<Rightarrow> ('d, 'o, 'u) reconciler \<Rightarrow> 'u emitContext \<Rightarrow> 'u entry" where
  "makeEnsureFn ty r ec env w =
     (case parse_desired ty env of
        Inl err \<Rightarrow> (Inl (Wrap ''reconcile.Ensure: parse desired: '' err []), w)
      | Inr desired \<Rightarrow>
         (case r_Ensure r desired (w_user w) of
            (Inl err, u) \<Rightarrow> (Inl err, w\<lparr>w_user := u\<rparr>)
          | (Inr observed, u) \<Rightarrow>
             (case marshal_O ty observed of
                Inl err \<Rightarrow> (Inl (Wrap ''reconcile.Ensure: marshal observed: '' err []), w\<lparr>w_user := u\<rparr>)
              | Inr body \<Rightarrow>
                 (let resourceID = inferResourceID (reflect_O ty observed) body (ec_resource ec)
                  in (Inr body, emit ec env VerbEnsured resourceID body (w\<lparr>w_user := u\<rparr>))))))"

fun marshal_all :: "('o \<Rightarrow> goerr + string) \<Rightarrow> 'o list \<Rightarrow> goerr + string list" where
  "marshal_all m [] = Inr []"
| "marshal_all m (x # xs) = (case m x of Inl e \<Rightarrow> Inl e
     | Inr t \<Rightarrow> (case marshal_all m xs of Inl e \<Rightarrow> Inl e | Inr ts \<Rightarrow> Inr (t # ts)))"

fun comma_join :: "string list \<Rightarrow> string" where
  "comma_join [] = []"
| "comma_join [t] = t"
| "comma_join (t # ts) = t @ '','' @ comma_join ts"

text \<open>\<^verbatim>\<open>json.Marshal(map[string]any{"items": items, "cursor": cursor})\<close>: keys in order, a nil slice is \<^verbatim>\<open>null\<close>.\<close>

definition marshal_page :: "('d, 'o) payload_types \<Rightarrow> 'o list option \<Rightarrow> string \<Rightarrow> goerr + string" where
  "marshal_page ty items cursor =
     (case (case items of None \<Rightarrow> Inr ''null''
            | Some xs \<Rightarrow> (case marshal_all (marshal_O ty) xs of Inl e \<Rightarrow> Inl e
                         | Inr ts \<Rightarrow> Inr (''['' @ comma_join ts @ '']''))) of
        Inl e \<Rightarrow> Inl e
      | Inr t \<Rightarrow> Inr (''{'' @ jmember ''cursor'' (json_string True cursor) @ '','' @ jmember ''items'' t @ ''}''))"

definition parse_filter :: "executeRequest \<Rightarrow> (string \<rightharpoonup> goany) option" where
  "parse_filter env = (if er_Input env = [] then Some Map.empty else json_any_map (er_Input env))"

definition makeObserveFn :: "('d, 'o) payload_types \<Rightarrow> ('d, 'o, 'u) reconciler \<Rightarrow> 'u entry" where
  "makeObserveFn ty r env w =
     (case parse_filter env of
        None \<Rightarrow> (Inl (Wrap ''reconcile.Observe: parse filter: '' json_error []), w)
      | Some flt \<Rightarrow>
         (case r_Observe r flt (w_user w) of
            (Inl err, u) \<Rightarrow> (Inl err, w\<lparr>w_user := u\<rparr>)
          | (Inr (items, cursor), u) \<Rightarrow> (marshal_page ty items cursor, w\<lparr>w_user := u\<rparr>)))"

text \<open>The \<^verbatim>\<open>ref\<close> field of the destroy input; \<open>None\<close> is a decoding error.\<close>

definition explicit_ref :: "executeRequest \<Rightarrow> string option" where
  "explicit_ref env = (if er_Input env = [] then Some []
     else case json_fields (er_Input env) of None \<Rightarrow> None | Some fs \<Rightarrow> dec_string ''ref'' fs [])"

definition destroy_ref :: "executeRequest \<Rightarrow> string \<Rightarrow> string option" where
  "destroy_ref env resource = map_option (\<lambda>ref.
     if ref = [] \<and> er_Input env \<noteq> [] then inferRefFromInput (er_Input env) resource else ref) (explicit_ref env)"

definition destroyed_payload :: "string \<Rightarrow> string" where
  "destroyed_payload ref =
     ''{'' @ [CHR 0x22] @ ''ref'' @ [CHR 0x22] @ '':'' @ go_quote ref @ '','' @ [CHR 0x22] @ ''deleted''
     @ [CHR 0x22] @ '':true}''"

definition deleted_body :: string where
  "deleted_body = ''{'' @ [CHR 0x22] @ ''deleted'' @ [CHR 0x22] @ '':true}''"

definition run_destroy :: "('d, 'o) payload_types \<Rightarrow> ('d, 'o, 'u) reconciler \<Rightarrow> string \<Rightarrow> executeRequest
    \<Rightarrow> 'u \<Rightarrow> goerr option \<times> 'u" where
  "run_destroy ty r ref env u = (case r_DestroyWithDesired r of
       Some dwd \<Rightarrow>
         (case parse_desired ty env of
            Inl err \<Rightarrow> (Some (Wrap ''reconcile.DestroyWithDesired: parse desired: '' err []), u)
          | Inr desired \<Rightarrow> dwd ref desired u)
     | None \<Rightarrow> r_Destroy r ref u)"

definition makeDestroyFn :: "('d, 'o) payload_types \<Rightarrow> ('d, 'o, 'u) reconciler \<Rightarrow> 'u emitContext \<Rightarrow> 'u entry" where
  "makeDestroyFn ty r ec env w =
     (case destroy_ref env (ec_resource ec) of
        None \<Rightarrow> (Inl (Wrap ''reconcile.Destroy: parse ref: '' json_error []), w)
      | Some ref \<Rightarrow>
         (case run_destroy ty r ref env (w_user w) of
            (Some err, u) \<Rightarrow> (Inl err, w\<lparr>w_user := u\<rparr>)
          | (None, u) \<Rightarrow>
              (Inr deleted_body, emit ec env VerbDestroyed ref (destroyed_payload ref) (w\<lparr>w_user := u\<rparr>))))"


section \<open>Dispatch\<close>

definition decode_request :: "string \<Rightarrow> executeRequest option" where
  "decode_request body =
     (if body = [] then Some \<lparr>er_Operation = [], er_Capability = [], er_Idempotency = [], er_InstanceID = [], er_Input = []\<rparr>
      else case json_fields body of
        None \<Rightarrow> None
      | Some fs \<Rightarrow>
         (case (dec_string ''operation'' fs [], dec_string ''capability'' fs [],
                dec_string ''idempotency'' fs [], dec_string ''instance_id'' fs []) of
            (Some op, Some cap, Some idem, Some inst) \<Rightarrow>
              Some \<lparr>er_Operation = op, er_Capability = cap, er_Idempotency = idem, er_InstanceID = inst,
                    er_Input = dec_raw ''input'' fs []\<rparr>
          | _ \<Rightarrow> None))"

definition requested_op :: "executeRequest \<Rightarrow> string" where
  "requested_op req = (let op = TrimSpace (er_Operation req) in if op = [] then TrimSpace (er_Capability req) else op)"

definition buildExecuteHandler :: "'u table \<Rightarrow> 'u world adapter_handler" where
  "buildExecuteHandler t d w =
     (case decode_request (bytes_of (d_Body d)) of
        None \<Rightarrow> (Inl (Wrap ''reconcile: parse execute request: '' json_error []), w)
      | Some req \<Rightarrow>
         (let op = requested_op req
          in if op = [] then (Inl (ErrorText ''reconcile: execute request missing operation''), w)
             else case t op of
               None \<Rightarrow> (Inl (ErrorText (''reconcile: unsupported operation '' @ go_quote op)), w)
             | Some fn \<Rightarrow>
                (case fn req w of
                   (Inl err, w') \<Rightarrow> (Inl err, w')
                 | (Inr body, w') \<Rightarrow> (Inr (Some body, application_json), w'))))"

definition Dispatch :: "'u sdk \<Rightarrow> nat \<Rightarrow> 'u world adapter_handler" where
  "Dispatch sdk a d w = (case dispatchTables sdk a of
       None \<Rightarrow> (Inl (ErrorText (''reconcile: adapter has no registered Reconciler ''
                 @ ''(call reconcile.RegisterReconciler before reconcile.Dispatch)'')), w)
     | Some t \<Rightarrow> buildExecuteHandler t d w)"

definition ExecuteForTest :: "'u sdk \<Rightarrow> nat \<Rightarrow> 'u world adapter_handler" where
  "ExecuteForTest sdk a d w = Dispatch sdk a d w"

text \<open>
  What an adapter's handler does when called. The closure that \<^verbatim>\<open>tableFor\<close> registers holds the
  table by reference, so it sees the entries present at the time of the call.
\<close>

definition handler_fn :: "'u sdk \<Rightarrow> 'u ahandler \<Rightarrow> 'u world adapter_handler" where
  "handler_fn sdk h = (case h of
       UserHandler f \<Rightarrow> f
     | ExecuteHandler a \<Rightarrow> buildExecuteHandler (case dispatchTables sdk a of Some t \<Rightarrow> t | None \<Rightarrow> Map.empty))"


section \<open>Registration\<close>

definition tableFor :: "nat \<Rightarrow> 'u sdk \<Rightarrow> 'u sdk" where
  "tableFor a sdk = (case dispatchTables sdk a of
       Some t \<Rightarrow> sdk
     | None \<Rightarrow> sdk\<lparr>dispatchTables := (dispatchTables sdk)(a \<mapsto> Map.empty),
                 sdk_adapters := (sdk_adapters sdk)(a := Register ''execute'' (ExecuteHandler a) (sdk_adapters sdk a))\<rparr>)"

definition warnMissingEmitterOnce :: "nat \<Rightarrow> string \<Rightarrow> nat option \<Rightarrow> 'u sdk \<Rightarrow> 'u sdk" where
  "warnMissingEmitterOnce a resource logger sdk =
     (if missingEmitterWarned sdk a then sdk
      else let line = ''reconcile: RegisterReconciler for resource '' @ go_quote resource
                      @ '' has no emitter wired (call reconcile.WithEmitter to enable ''
                      @ [CHR 0xC2, CHR 0xA7] @ ''6.5 auto-emission)''
           in sdk\<lparr>missingEmitterWarned := (missingEmitterWarned sdk)(a := True),
                  sdk_log := sdk_log sdk @ [(case logger of Some l \<Rightarrow> (Logger l, line)
                                             | None \<Rightarrow> (Stdout, ''WARN '' @ line @ [CHR 0x0A]))]\<rparr>)"

definition install_legacy :: "'u options \<Rightarrow> string \<Rightarrow> string \<Rightarrow> string \<Rightarrow> string \<Rightarrow> 'u table \<Rightarrow> 'u table" where
  "install_legacy cfg ensureName observeName destroyName legacy0 t =
     (let legacy = norm_name legacy0
      in if legacy = [] then t
         else let canonical = pickCanonicalForLegacy legacy ensureName observeName destroyName
              in case t canonical of
                   Some canonicalFn \<Rightarrow> t(legacy \<mapsto> warnShim legacy canonical canonicalFn (o_warnLogger cfg))
                 | None \<Rightarrow> t)"

definition install :: "('d, 'o) payload_types \<Rightarrow> string \<Rightarrow> string \<Rightarrow> ('d, 'o, 'u) reconciler \<Rightarrow> 'u options
    \<Rightarrow> 'u emitContext \<Rightarrow> 'u table \<Rightarrow> 'u table" where
  "install ty resource resourceType r cfg ec t =
     (let ensureName = ''ensure_'' @ resource;
          observeName = ''observe_'' @ resourceType;
          destroyName = ''destroy_'' @ resource
      in fold (install_legacy cfg ensureName observeName destroyName) (o_legacyNames cfg)
           (t(ensureName \<mapsto> makeEnsureFn ty r ec, observeName \<mapsto> makeObserveFn ty r,
              destroyName \<mapsto> makeDestroyFn ty r ec)))"

definition emit_context :: "string \<Rightarrow> 'u options \<Rightarrow> 'u emitContext" where
  "emit_context resource cfg =
     \<lparr>ec_emitter = o_emitter cfg, ec_provider = o_provider cfg, ec_resource = resource,
      ec_instanceID = o_instanceID cfg, ec_warn = resolveWarnLogger (o_warnLogger cfg)\<rparr>"

text \<open>\<open>Inl\<close> is the panic.\<close>

definition RegisterReconciler :: "('d, 'o) payload_types \<Rightarrow> nat \<Rightarrow> string \<Rightarrow> string
    \<Rightarrow> ('d, 'o, 'u) reconciler \<Rightarrow> 'u opt list \<Rightarrow> 'u sdk \<Rightarrow> string + 'u sdk" where
  "RegisterReconciler ty a resource0 resourceType0 r opts sdk =
     (let resource = norm_name resource0;
          resourceType = norm_name resourceType0
      in if resource = [] \<or> resourceType = []
         then Inl ''reconcile.RegisterReconciler: resource and resourceType are required''
         else
          let cfg = fold apply_option opts no_options;
              ec = emit_context resource cfg;
              sdk1 = (if Option.is_none (o_emitter cfg) then warnMissingEmitterOnce a resource None sdk else sdk);
              sdk2 = tableFor a sdk1;
              t = (case dispatchTables sdk2 a of Some t \<Rightarrow> t | None \<Rightarrow> Map.empty)
          in Inr (sdk2\<lparr>dispatchTables := (dispatchTables sdk2)(a \<mapsto> install ty resource resourceType r cfg ec t)\<rparr>))"


section \<open>Emission: what changes\<close>

lemma warn_simps [simp]:
  "w_emits (warn k l w) = w_emits w" "w_user (warn k l w) = w_user w" "w_ticks (warn k l w) = w_ticks w"
  "w_clock (warn k l w) = w_clock w"
  by (simp_all add: warn_def)

lemma resolveWarnLogger_simps [simp]:
  "w_emits (resolveWarnLogger lg l w) = w_emits w" "w_user (resolveWarnLogger lg l w) = w_user w"
  by (simp_all add: resolveWarnLogger_def split: option.split)

lemma emit_context_simps [simp]:
  "ec_emitter (emit_context res cfg) = o_emitter cfg" "ec_provider (emit_context res cfg) = o_provider cfg"
  "ec_resource (emit_context res cfg) = res" "ec_instanceID (emit_context res cfg) = o_instanceID cfg"
  "ec_warn (emit_context res cfg) = resolveWarnLogger (o_warnLogger cfg)"
  by (simp_all add: emit_context_def)

lemma emit_without_emitter: "ec_emitter ec = None \<Longrightarrow> emit ec env v rid obs w = w"
  by (simp add: emit_def)

text \<open>The event an emission hands to the emitter.\<close>

definition event_of :: "string \<Rightarrow> 'u options \<Rightarrow> executeRequest \<Rightarrow> verb \<Rightarrow> string \<Rightarrow> string \<Rightarrow> 'u world \<Rightarrow> mutation_event" where
  "event_of res cfg env v rid obs w =
     \<lparr>ev_EventType = o_provider cfg @ ''.'' @ res @ ''.'' @ v, ev_Provider = o_provider cfg, ev_Resource = res,
      ev_Verb = v, ev_ResourceID = rid,
      ev_InstanceID = (if er_InstanceID env = [] then o_instanceID cfg else er_InstanceID env),
      ev_Idempotency = (if er_Idempotency env = []
         then idempotency_key (o_provider cfg) res v rid (w_clock w (w_ticks w)) else er_Idempotency env),
      ev_Observed = Some obs, ev_EmittedAt = None\<rparr>"

lemma emit_with_emitter:
  assumes "o_emitter cfg = Some em"
  shows "w_emits (emit (emit_context res cfg) env v rid obs w) = w_emits w @ [event_of res cfg env v rid obs w]"
    and "w_user (emit (emit_context res cfg) env v rid obs w) = snd (em (event_of res cfg env v rid obs w) (w_user w))"
  using assms
  by (simp_all add: emit_def event_of_def effectiveProvider_def effectiveInstanceID_def BuildEventType_def
      synthesizeIdempotencyKey_def unix_nano_def Let_def split: prod.split option.split)

lemma emit_warns:
  assumes "o_emitter cfg = Some em"
  shows "\<exists>x. w_warns (emit (emit_context res cfg) env v rid obs w) = w_warns w
    @ (if fst (em (event_of res cfg env v rid obs w) (w_user w)) = None then [] else [x])"
  using assms
  by (auto simp: emit_def event_of_def effectiveProvider_def effectiveInstanceID_def BuildEventType_def
      synthesizeIdempotencyKey_def unix_nano_def resolveWarnLogger_def warn_def Let_def split: prod.split option.split)

lemma emit_at_most_one:
  "length (w_emits (emit (emit_context res cfg) env v rid obs w)) \<le> Suc (length (w_emits w))
   \<and> prefix (w_emits w) (w_emits (emit (emit_context res cfg) env v rid obs w))"
  by (cases "o_emitter cfg") (simp_all add: emit_without_emitter emit_with_emitter)

lemma emit_after_call:
  "prefix (w_emits w) (w_emits (emit (emit_context res cfg) env v rid obs (w\<lparr>w_user := u\<rparr>)))"
  "length (w_emits (emit (emit_context res cfg) env v rid obs (w\<lparr>w_user := u\<rparr>))) \<le> Suc (length (w_emits w))"
  using emit_at_most_one [where w = "w\<lparr>w_user := u\<rparr>"] by simp_all

lemma idempotency_key_nonempty [simp]: "idempotency_key p r v i n \<noteq> []"
  by (simp add: idempotency_key_def Let_def)

lemma event_of_idempotency [simp]: "ev_Idempotency (event_of res cfg env v rid obs w) \<noteq> []"
  by (simp add: event_of_def)


section \<open>Dispatch tables\<close>

text \<open>
  A well-behaved entry: it never rewrites the history of events, adds at most one, and
  adds none when it fails. Every entry of every table is well-behaved.
\<close>

definition tame :: "'u entry \<Rightarrow> bool" where
  "tame fn = (\<forall>env w. prefix (w_emits w) (w_emits (snd (fn env w)))
     \<and> length (w_emits (snd (fn env w))) \<le> Suc (length (w_emits w))
     \<and> (\<forall>e. fst (fn env w) = Inl e \<longrightarrow> w_emits (snd (fn env w)) = w_emits w))"

definition sdk_inv :: "'u sdk \<Rightarrow> bool" where
  "sdk_inv sdk = (\<forall>a t op fn. dispatchTables sdk a = Some t \<longrightarrow> t op = Some fn \<longrightarrow> tame fn)"

definition table_of :: "'u sdk \<Rightarrow> nat \<Rightarrow> 'u table" where
  "table_of sdk a = (case dispatchTables sdk a of Some t \<Rightarrow> t | None \<Rightarrow> Map.empty)"

lemma tame_ensure: "tame (makeEnsureFn ty r (emit_context res cfg))"
  unfolding tame_def makeEnsureFn_def
  by (auto simp: Let_def emit_after_call split: sum.split prod.split)

lemma observe_world: "w_emits (snd (makeObserveFn ty r env w)) = w_emits w"
  "w_warns (snd (makeObserveFn ty r env w)) = w_warns w" "w_ticks (snd (makeObserveFn ty r env w)) = w_ticks w"
  by (simp_all add: makeObserveFn_def split: sum.split prod.split option.split)

lemma tame_observe: "tame (makeObserveFn ty r)"
  by (simp add: tame_def observe_world)

lemma tame_destroy: "tame (makeDestroyFn ty r (emit_context res cfg))"
  unfolding tame_def makeDestroyFn_def
  by (auto simp: emit_after_call split: option.split prod.split)

lemma tame_shim: "tame fn \<Longrightarrow> tame (warnShim l c fn lg)"
proof -
  assume fn: "tame fn"
  have "\<exists>k line. warnShim l c fn lg env w = fn env (warn k line w)" for env w
    by (cases lg) (auto simp: warnShim_def Let_def)
  then have "\<exists>w'. warnShim l c fn lg env w = fn env w' \<and> w_emits w' = w_emits w" for env w
    by (metis warn_simps(1))
  then show ?thesis using fn unfolding tame_def by metis
qed

interpretation table: registry "\<lambda>t. t" "\<lambda>op fn (t :: 'u table). t(op \<mapsto> fn)" "\<lambda>op. op"
  by unfold_locales simp

lemma install_legacy_other:
  "op \<noteq> norm_name l \<Longrightarrow> install_legacy cfg e ob d l t op = t op"
  by (simp add: install_legacy_def Let_def table.bind_other split: option.split)

lemma fold_install_legacy_other:
  "op \<notin> norm_name ` set ls \<Longrightarrow> fold (install_legacy cfg e ob d) ls t op = t op"
  by (induction ls arbitrary: t) (simp_all add: install_legacy_other)

lemma install_legacy_tame:
  assumes "\<forall>op fn. t op = Some fn \<longrightarrow> tame fn"
  shows "\<forall>op fn. install_legacy cfg e ob d l t op = Some fn \<longrightarrow> tame fn"
  using assms by (auto simp: install_legacy_def Let_def tame_shim split: option.splits if_splits)

lemma fold_install_legacy_tame:
  assumes "\<forall>op fn. t op = Some fn \<longrightarrow> tame fn"
  shows "\<forall>op fn. fold (install_legacy cfg e ob d) ls t op = Some fn \<longrightarrow> tame fn"
  using assms
proof (induction ls arbitrary: t)
  case (Cons l ls)
  from Cons.IH [OF install_legacy_tame [OF Cons.prems]] show ?case by simp
qed simp

lemma install_tame:
  assumes "\<forall>op fn. t op = Some fn \<longrightarrow> tame fn"
  shows "\<forall>op fn. install ty res rty r cfg (emit_context res cfg) t op = Some fn \<longrightarrow> tame fn"
  unfolding install_def Let_def
  by (rule fold_install_legacy_tame)
    (use assms in \<open>auto simp: tame_ensure tame_observe tame_destroy\<close>)

lemma install_canonical:
  "''ensure_'' @ res \<notin> norm_name ` set (o_legacyNames cfg) \<Longrightarrow>
     install ty res rty r cfg ec t (''ensure_'' @ res) = Some (makeEnsureFn ty r ec)"
  "''observe_'' @ rty \<notin> norm_name ` set (o_legacyNames cfg) \<Longrightarrow>
     install ty res rty r cfg ec t (''observe_'' @ rty) = Some (makeObserveFn ty r)"
  "''destroy_'' @ res \<notin> norm_name ` set (o_legacyNames cfg) \<Longrightarrow>
     install ty res rty r cfg ec t (''destroy_'' @ res) = Some (makeDestroyFn ty r ec)"
  by (simp_all add: install_def Let_def fold_install_legacy_other)

lemma install_table:
  assumes "op \<notin> norm_name ` set (o_legacyNames cfg)"
  shows "install ty res rty r cfg ec t op =
    (if op = ''ensure_'' @ res then Some (makeEnsureFn ty r ec) else if op = ''observe_'' @ rty then Some (makeObserveFn ty r)
     else if op = ''destroy_'' @ res then Some (makeDestroyFn ty r ec) else t op)"
  using assms by (auto simp: install_def Let_def fold_install_legacy_other)


section \<open>Registration\<close>

lemma tableFor_table [simp]: "table_of (tableFor a sdk) = table_of sdk"
  by (auto simp: tableFor_def table_of_def split: option.split)

lemma warnMissing_simps [simp]:
  "dispatchTables (warnMissingEmitterOnce a res lg sdk) = dispatchTables sdk"
  "sdk_adapters (warnMissingEmitterOnce a res lg sdk) = sdk_adapters sdk"
  by (simp_all add: warnMissingEmitterOnce_def Let_def)

text \<open>Registration in one equation: the table of the adapter is extended, all others are kept.\<close>

lemma RegisterReconciler_Inr:
  assumes "RegisterReconciler ty a res rty r opts sdk = Inr sdk'" and "cfg = fold apply_option opts no_options"
  shows "norm_name res \<noteq> []" and "norm_name rty \<noteq> []"
    and "dispatchTables sdk' = (dispatchTables sdk)(a \<mapsto>
           install ty (norm_name res) (norm_name rty) r cfg (emit_context (norm_name res) cfg) (table_of sdk a))"
    and "sdk_adapters sdk' = (if dispatchTables sdk a = None
           then (sdk_adapters sdk)(a := Register ''execute'' (ExecuteHandler a) (sdk_adapters sdk a))
           else sdk_adapters sdk)"
  using assms
  by (auto simp: RegisterReconciler_def Let_def tableFor_def table_of_def split: if_splits option.splits)

lemma Dispatch_table:
  "dispatchTables sdk a = Some t \<Longrightarrow> Dispatch sdk a d w = buildExecuteHandler t d w"
  by (simp add: Dispatch_def)

lemma buildExecuteHandler_entry:
  assumes "decode_request (bytes_of (d_Body d)) = Some req" "requested_op req = op" "op \<noteq> []" "t op = Some fn"
  shows "fst (buildExecuteHandler t d w) = map_sum id (\<lambda>b. (Some b, application_json)) (fst (fn req w))"
    and "snd (buildExecuteHandler t d w) = snd (fn req w)"
  using assms by (simp_all add: buildExecuteHandler_def Let_def split: prod.split sum.split)

lemma Dispatch_entry:
  assumes "decode_request (bytes_of (d_Body d)) = Some req" "requested_op req = op" "op \<noteq> []"
    and "dispatchTables sdk a = Some t" "t op = Some fn"
  shows "fst (Dispatch sdk a d w) = map_sum id (\<lambda>b. (Some b, application_json)) (fst (fn req w))"
    and "snd (Dispatch sdk a d w) = snd (fn req w)"
  using buildExecuteHandler_entry [where t = t and op = op and fn = fn, OF assms(1-3,5)] by (simp_all add: Dispatch_table [OF assms(4)])

lemma buildExecuteHandler_tame:
  assumes "\<forall>op fn. t op = Some fn \<longrightarrow> tame fn"
  shows "prefix (w_emits w) (w_emits (snd (buildExecuteHandler t d w)))
    \<and> length (w_emits (snd (buildExecuteHandler t d w))) \<le> Suc (length (w_emits w))
    \<and> (\<forall>e. fst (buildExecuteHandler t d w) = Inl e \<longrightarrow> w_emits (snd (buildExecuteHandler t d w)) = w_emits w)"
proof (cases "\<exists>req fn. decode_request (bytes_of (d_Body d)) = Some req \<and> requested_op req \<noteq> []
    \<and> t (requested_op req) = Some fn")
  case True
  then obtain req fn where r: "decode_request (bytes_of (d_Body d)) = Some req" "requested_op req \<noteq> []"
      "t (requested_op req) = Some fn" by blast
  have "tame fn" using assms r(3) by blast
  then show ?thesis
    using buildExecuteHandler_entry [where t = t and fn = fn, OF r(1) refl r(2,3)]
    by (auto simp: tame_def map_sum_def split: sum.splits)
next
  case False
  then have "snd (buildExecuteHandler t d w) = w"
    by (auto simp: buildExecuteHandler_def Let_def split: option.split)
  then show ?thesis by simp
qed


lemma registered_entry:
  assumes "RegisterReconciler ty a res rty r opts sdk = Inr sdk'"
    and "cfg = fold apply_option opts no_options" "op \<notin> norm_name ` set (o_legacyNames cfg)"
  shows "\<exists>t. dispatchTables sdk' a = Some t
    \<and> (op = ''ensure_'' @ norm_name res \<longrightarrow> t op = Some (makeEnsureFn ty r (emit_context (norm_name res) cfg)))
    \<and> (op = ''observe_'' @ norm_name rty \<longrightarrow> t op = Some (makeObserveFn ty r))
    \<and> (op = ''destroy_'' @ norm_name res \<longrightarrow> t op = Some (makeDestroyFn ty r (emit_context (norm_name res) cfg)))"
  using RegisterReconciler_Inr(3) [OF assms(1,2)] assms(3) by (auto simp: install_canonical [simplified])

text \<open>A whole successful \<^verbatim>\<open>ensure_X\<close>, up to the emission.\<close>

lemma Dispatch_ensure_run:
  assumes "RegisterReconciler ty a res rty r opts sdk = Inr sdk'"
    and "cfg = fold apply_option opts no_options"
    and "''ensure_'' @ norm_name res \<notin> norm_name ` set (o_legacyNames cfg)"
    and "decode_request (bytes_of (d_Body d)) = Some req" and "requested_op req = ''ensure_'' @ norm_name res"
    and "parse_desired ty req = Inr desired" and "r_Ensure r desired (w_user w) = (Inr observed, u)"
    and "marshal_O ty observed = Inr body"
  shows "Dispatch sdk' a d w = (Inr (Some body, application_json), emit (emit_context (norm_name res) cfg) req VerbEnsured
      (inferResourceID (reflect_O ty observed) body (norm_name res)) body (w\<lparr>w_user := u\<rparr>))"
proof -
  let ?fn = "makeEnsureFn ty r (emit_context (norm_name res) cfg)"
  obtain t where t: "dispatchTables sdk' a = Some t" "t (''ensure_'' @ norm_name res) = Some ?fn"
    using registered_entry [OF assms(1-3)] by auto
  have ne: "''ensure_'' @ norm_name res \<noteq> []" by simp
  have run: "?fn req w = (Inr body, emit (emit_context (norm_name res) cfg) req VerbEnsured
      (inferResourceID (reflect_O ty observed) body (norm_name res)) body (w\<lparr>w_user := u\<rparr>))"
    using assms(6-8) by (simp add: makeEnsureFn_def Let_def)
  note eq = Dispatch_entry [where op = "''ensure_'' @ norm_name res" and fn = ?fn, OF assms(4,5) ne t]
  show ?thesis by (rule prod_eqI) (unfold eq run, simp_all)
qed

text \<open>A whole successful \<^verbatim>\<open>destroy_X\<close>, up to the emission.\<close>

lemma Dispatch_destroy_run:
  assumes "RegisterReconciler ty a res rty r opts sdk = Inr sdk'"
    and "cfg = fold apply_option opts no_options"
    and "''destroy_'' @ norm_name res \<notin> norm_name ` set (o_legacyNames cfg)"
    and "decode_request (bytes_of (d_Body d)) = Some req" and "requested_op req = ''destroy_'' @ norm_name res"
    and "destroy_ref req (norm_name res) = Some ref" and "run_destroy ty r ref req (w_user w) = (None, u)"
  shows "Dispatch sdk' a d w = (Inr (Some deleted_body, application_json), emit (emit_context (norm_name res) cfg) req
      VerbDestroyed ref (destroyed_payload ref) (w\<lparr>w_user := u\<rparr>))"
proof -
  let ?fn = "makeDestroyFn ty r (emit_context (norm_name res) cfg)"
  obtain t where t: "dispatchTables sdk' a = Some t" "t (''destroy_'' @ norm_name res) = Some ?fn"
    using registered_entry [OF assms(1-3)] by auto
  have ne: "''destroy_'' @ norm_name res \<noteq> []" by simp
  have run: "?fn req w = (Inr deleted_body, emit (emit_context (norm_name res) cfg) req
      VerbDestroyed ref (destroyed_payload ref) (w\<lparr>w_user := u\<rparr>))"
    using assms(6,7) by (simp add: makeDestroyFn_def)
  note eq = Dispatch_entry [where op = "''destroy_'' @ norm_name res" and fn = ?fn, OF assms(4,5) ne t]
  show ?thesis by (rule prod_eqI) (unfold eq run, simp_all)
qed


section \<open>Concrete instances\<close>

text \<open>A small adapter on which the properties are exercised: payloads are the raw JSON texts.\<close>

definition ex_types :: "(string, string) payload_types" where
  "ex_types = \<lparr>zero_D = [], unmarshal_D = Inr, marshal_O = Inr, reflect_O = (\<lambda>_. VOther)\<rparr>"

definition ex_reconciler :: "(string, string, unit) reconciler" where
  "ex_reconciler = \<lparr>r_Ensure = (\<lambda>d u. (Inr ''{}'', u)), r_Observe = (\<lambda>f u. (Inr (Some [], []), u)),
     r_Destroy = (\<lambda>ref u. (None, u)), r_DestroyWithDesired = None\<rparr>"

definition ex_sdk :: "unit sdk" where
  "ex_sdk = \<lparr>sdk_adapters = (\<lambda>_. New \<lparr>cfg_Provider = ''okta'', cfg_IntegrationType = [], cfg_Version = [],
      cfg_DefaultTimeout = 0, cfg_Concurrency = 0\<rparr>),
     dispatchTables = Map.empty, missingEmitterWarned = (\<lambda>_. False), sdk_log = []\<rparr>"

definition ex_world :: "unit world" where
  "ex_world = \<lparr>w_user = (), w_clock = (\<lambda>i. int i), w_ticks = 0, w_emits = [], w_warns = []\<rparr>"

definition ex_opts :: "unit opt list" where
  "ex_opts = [WithEmitter (Some (\<lambda>ev u. (Some (ErrorText ''bus down''), u))), WithProvider ''okta'',
     WithLegacyNames [''create_user'']]"

definition op_body :: "string \<Rightarrow> string" where
  "op_body op = ''{'' @ [CHR 0x22] @ ''operation'' @ [CHR 0x22] @ '':'' @ [CHR 0x22] @ op @ [CHR 0x22] @ ''}''"

definition ex_delivery :: "string \<Rightarrow> unit world delivery" where
  "ex_delivery body = \<lparr>d_Endpoint = ''execute'', d_Body = Some body, d_ContentType = application_json, d_Headers = [],
     d_CorrelationID = [], d_ReplyTo = [], d_AckFn = None, d_NackFn = None, d_ReplyFn = None\<rparr>"

definition ex_request :: "string \<Rightarrow> executeRequest" where
  "ex_request op = \<lparr>er_Operation = op, er_Capability = [], er_Idempotency = [], er_InstanceID = [], er_Input = []\<rparr>"

lemma ex_norm: "norm_name ''user'' = ''user''" "norm_name ''users'' = ''users''" 
  "norm_name ''create_user'' = ''create_user''"
  by code_simp+

lemma ex_cfg: "o_legacyNames (fold apply_option ex_opts no_options) = [''create_user'']"
  "o_emitter (fold apply_option ex_opts no_options) = Some (\<lambda>ev u. (Some (ErrorText ''bus down''), u))"
  by (simp_all add: ex_opts_def no_options_def)

lemma ex_reg: "\<exists>sdk'. RegisterReconciler ex_types 0 ''user'' ''users'' ex_reconciler ex_opts ex_sdk = Inr sdk'"
  by (simp add: RegisterReconciler_def Let_def ex_norm)

lemma ex_decode: "decode_request (op_body ''ensure_user'') = Some (ex_request ''ensure_user'')"
   "decode_request (op_body ''destroy_user'') = Some (ex_request ''destroy_user'')"
   "decode_request (op_body ''observe_users'') = Some (ex_request ''observe_users'')"
  by code_simp+


lemma ex_op:
  "requested_op (ex_request ''ensure_user'') = ''ensure_user''"
  "requested_op (ex_request ''destroy_user'') = ''destroy_user''"
  "requested_op (ex_request ''observe_users'') = ''observe_users''"
  by code_simp+

lemma ex_payload [simp]:
  "d_Body (ex_delivery b) = Some b" "parse_desired ex_types (ex_request op) = Inr []"
  "r_Ensure ex_reconciler d u = (Inr ''{}'', u)" "marshal_O ex_types t = Inr t" "w_emits ex_world = []"
  "destroy_ref (ex_request op) res = Some []" "run_destroy ex_types ex_reconciler ref env u = (None, u)"
  "parse_filter (ex_request op) = Some Map.empty"
  by (simp_all add: ex_delivery_def parse_desired_def ex_types_def ex_request_def ex_reconciler_def ex_world_def
      destroy_ref_def explicit_ref_def run_destroy_def parse_filter_def)


section \<open>Properties\<close>

text \<open>
  \<^bold>\<open>C3\<close>: a successful \<^verbatim>\<open>ensure_X\<close>. After \<^verbatim>\<open>RegisterReconciler\<close> with an emitter, a request that names the
  operation, whose payload decodes and on which the reconciler and the encoder succeed, is
  answered with the encoded observed state, and exactly one event was handed to the
  emitter: type \<^verbatim>\<open>provider.resource.ensured\<close>, the inferred resource id, the request's own
  instance and idempotency key where it has them, a key that is never empty, and the very
  body returned. All this holds whatever the emitter does: emission is best-effort.
\<close>

theorem Dispatch_ensure:
  assumes "RegisterReconciler ty a res rty r opts sdk = Inr sdk'"
    and "cfg = fold apply_option opts no_options" and "o_emitter cfg = Some em"
    and "''ensure_'' @ norm_name res \<notin> norm_name ` set (o_legacyNames cfg)"
    and "decode_request (bytes_of (d_Body d)) = Some req" and "requested_op req = ''ensure_'' @ norm_name res"
    and "parse_desired ty req = Inr desired" and "r_Ensure r desired (w_user w) = (Inr observed, u)"
    and "marshal_O ty observed = Inr body"
  shows "fst (Dispatch sdk' a d w) = Inr (Some body, application_json)
    \<and> (\<exists>ev. w_emits (snd (Dispatch sdk' a d w)) = w_emits w @ [ev]
        \<and> ev_EventType ev = o_provider cfg @ ''.'' @ norm_name res @ ''.ensured''
        \<and> ev_ResourceID ev = inferResourceID (reflect_O ty observed) body (norm_name res)
        \<and> ev_InstanceID ev = (if er_InstanceID req = [] then o_instanceID cfg else er_InstanceID req)
        \<and> ev_Idempotency ev \<noteq> [] \<and> (er_Idempotency req \<noteq> [] \<longrightarrow> ev_Idempotency ev = er_Idempotency req)
        \<and> ev_Observed ev = Some body)"
proof -
  note eq = Dispatch_ensure_run [OF assms(1,2,4-9)]
  have ev: "w_emits (snd (Dispatch sdk' a d w)) = w_emits w @ [event_of (norm_name res) cfg req VerbEnsured
      (inferResourceID (reflect_O ty observed) body (norm_name res)) body (w\<lparr>w_user := u\<rparr>)]" (is "_ = _ @ [?ev]")
    unfolding eq using emit_with_emitter(1) [OF assms(3)] by simp
  have "fst (Dispatch sdk' a d w) = Inr (Some body, application_json)" unfolding eq by simp
  moreover have "ev_Idempotency ?ev \<noteq> []" by simp
  ultimately show ?thesis
    using ev by (intro conjI exI [of _ ?ev]) (simp_all add: event_of_def VerbEnsured_def)
qed

theorem Dispatch_ensure_witness:
  "\<exists>sdk'. RegisterReconciler ex_types 0 ''user'' ''users'' ex_reconciler ex_opts ex_sdk = Inr sdk'
     \<and> fst (Dispatch sdk' 0 (ex_delivery (op_body ''ensure_user'')) ex_world) = Inr (Some ''{}'', application_json)"
proof -
  obtain sdk' where reg: "RegisterReconciler ex_types 0 ''user'' ''users'' ex_reconciler ex_opts ex_sdk = Inr sdk'"
    using ex_reg by blast
  have "fst (Dispatch sdk' 0 (ex_delivery (op_body ''ensure_user'')) ex_world) = Inr (Some ''{}'', application_json)"
    using Dispatch_ensure [OF reg refl ex_cfg(2), of "ex_delivery (op_body ''ensure_user'')" "ex_request ''ensure_user''"
        "[]" ex_world "''{}''" "()" "''{}''"]
    by (simp add: ex_norm ex_cfg ex_decode ex_op ex_payload)
  then show ?thesis using reg by blast
qed

text \<open>
  \<^bold>\<open>C4\<close>: a successful \<^verbatim>\<open>destroy_X\<close> calls the author's reconciler (\<^verbatim>\<open>DestroyWithDesired\<close>, with the decoded desired state,
  when it has that, and \<^verbatim>\<open>Destroy\<close> otherwise) once, with the reference the request
  carries; the answer is \<^verbatim>\<open>{"deleted":true}\<close> and exactly one event was handed to the emitter,
  of type \<^verbatim>\<open>provider.resource.destroyed\<close>, whose resource id is that same reference. The author's state
  afterwards is what the reconciler's call left, followed by that one call of the emitter.
\<close>

theorem Dispatch_destroy:
  assumes "RegisterReconciler ty a res rty r opts sdk = Inr sdk'"
    and "cfg = fold apply_option opts no_options" and "o_emitter cfg = Some em"
    and "''destroy_'' @ norm_name res \<notin> norm_name ` set (o_legacyNames cfg)"
    and "decode_request (bytes_of (d_Body d)) = Some req" and "requested_op req = ''destroy_'' @ norm_name res"
    and "destroy_ref req (norm_name res) = Some ref"
    and "r_DestroyWithDesired r = None \<or> parse_desired ty req = Inr desired"
    and "(case r_DestroyWithDesired r of None \<Rightarrow> r_Destroy r ref (w_user w) | Some dwd \<Rightarrow> dwd ref desired (w_user w)) = (None, u)"
  shows "fst (Dispatch sdk' a d w) = Inr (Some deleted_body, application_json)
    \<and> (\<exists>ev. w_emits (snd (Dispatch sdk' a d w)) = w_emits w @ [ev]
        \<and> w_user (snd (Dispatch sdk' a d w)) = snd (em ev u)
        \<and> ev_EventType ev = o_provider cfg @ ''.'' @ norm_name res @ ''.destroyed''
        \<and> ev_ResourceID ev = ref \<and> ev_Idempotency ev \<noteq> []
        \<and> (er_Idempotency req \<noteq> [] \<longrightarrow> ev_Idempotency ev = er_Idempotency req)
        \<and> ev_Observed ev = Some (destroyed_payload ref))"
proof -
  have "run_destroy ty r ref req (w_user w) = (None, u)"
    using assms(8,9) by (auto simp: run_destroy_def split: option.splits)
  note eq = Dispatch_destroy_run [OF assms(1,2,4-7) this]
  have ev: "w_emits (snd (Dispatch sdk' a d w)) = w_emits w @ [event_of (norm_name res) cfg req VerbDestroyed
      ref (destroyed_payload ref) (w\<lparr>w_user := u\<rparr>)]" (is "_ = _ @ [?ev]")
    unfolding eq using emit_with_emitter(1) [OF assms(3)] by simp
  have us: "w_user (snd (Dispatch sdk' a d w)) = snd (em ?ev u)"
    unfolding eq using emit_with_emitter(2) [OF assms(3)] by simp
  have "fst (Dispatch sdk' a d w) = Inr (Some deleted_body, application_json)" unfolding eq by simp
  moreover have "ev_Idempotency ?ev \<noteq> []" by simp
  ultimately show ?thesis
    using ev us by (intro conjI exI [of _ ?ev]) (simp_all add: event_of_def VerbDestroyed_def)
qed

text \<open>A reconciler that records the references it is asked to destroy, and an emitter that adds the event's.\<close>

definition recording :: "(string, string, string list) reconciler" where
  "recording = \<lparr>r_Ensure = (\<lambda>d u. (Inr d, u)), r_Observe = (\<lambda>_ u. (Inr (None, []), u)), r_Destroy = (\<lambda>ref u. (None, u @ [ref])),
     r_DestroyWithDesired = None\<rparr>"

definition recording_opts :: "string list opt list" where
  "recording_opts = [WithEmitter (Some (\<lambda>ev u. (None, u @ [ev_EventType ev]))), WithProvider ''okta'']"

definition recording_sdk :: "string list sdk" where
  "recording_sdk = \<lparr>sdk_adapters = (\<lambda>_. New \<lparr>cfg_Provider = ''okta'', cfg_IntegrationType = [], cfg_Version = [],
      cfg_DefaultTimeout = 0, cfg_Concurrency = 0\<rparr>),
     dispatchTables = Map.empty, missingEmitterWarned = (\<lambda>_. False), sdk_log = []\<rparr>"

definition recording_world :: "string list world" where
  "recording_world = \<lparr>w_user = [], w_clock = (\<lambda>i. int i), w_ticks = 0, w_emits = [], w_warns = []\<rparr>"

definition destroy_delivery :: "string list world delivery" where
  "destroy_delivery = \<lparr>d_Endpoint = ''execute'', d_Body = Some (op_body ''destroy_user''), d_ContentType = application_json,
     d_Headers = [], d_CorrelationID = [], d_ReplyTo = [], d_AckFn = None, d_NackFn = None, d_ReplyFn = None\<rparr>"

theorem Dispatch_destroy_witness:
  "\<exists>sdk'. RegisterReconciler ex_types 0 ''user'' ''users'' recording recording_opts recording_sdk = Inr sdk'
     \<and> fst (Dispatch sdk' 0 destroy_delivery recording_world) = Inr (Some deleted_body, application_json)
     \<and> w_user (snd (Dispatch sdk' 0 destroy_delivery recording_world)) = [[], ''okta.user.destroyed'']"
proof -
  obtain sdk' where reg: "RegisterReconciler ex_types 0 ''user'' ''users'' recording recording_opts recording_sdk = Inr sdk'"
    by (simp add: RegisterReconciler_def Let_def ex_norm)
  have cfg: "o_emitter (fold apply_option recording_opts no_options) = Some (\<lambda>ev u. (None, u @ [ev_EventType ev]))"
    "o_legacyNames (fold apply_option recording_opts no_options) = []" "o_provider (fold apply_option recording_opts no_options) = ''okta''"
    by (simp_all add: recording_opts_def no_options_def)
  have "decode_request (bytes_of (d_Body destroy_delivery)) = Some (ex_request ''destroy_user'')"
    by (simp add: destroy_delivery_def ex_decode)
  from Dispatch_destroy [OF reg refl cfg(1) _ this, of "[]" "[]" recording_world "[[]]"] show ?thesis
    using reg by (auto simp: cfg ex_norm ex_op recording_def recording_world_def)
qed

text \<open>
  \<^bold>\<open>C5\<close>: events follow success. Every dispatch, on any adapter and any request, keeps the
  events already handed over, adds at most one and adds none when it returns an error; the
  invariant that gives this is kept by every registration, legacy names included.
\<close>

theorem Dispatch_events_follow_success:
  assumes "sdk_inv sdk" and "RegisterReconciler ty a res rty r opts sdk = Inr sdk'"
  shows "sdk_inv sdk'
    \<and> prefix (w_emits w) (w_emits (snd (Dispatch sdk' b d w)))
    \<and> length (w_emits (snd (Dispatch sdk' b d w))) \<le> Suc (length (w_emits w))
    \<and> (\<forall>e. fst (Dispatch sdk' b d w) = Inl e \<longrightarrow> w_emits (snd (Dispatch sdk' b d w)) = w_emits w)"
proof -
  define cfg where "cfg = fold apply_option opts no_options"
  note reg = RegisterReconciler_Inr(3) [OF assms(2) cfg_def]
  have "\<forall>op fn. table_of sdk a op = Some fn \<longrightarrow> tame fn"
    using assms(1) by (auto simp: sdk_inv_def table_of_def split: option.splits)
  from install_tame [OF this] have inv: "sdk_inv sdk'"
    using assms(1) unfolding sdk_inv_def reg fun_upd_apply by (metis option.inject)
  show ?thesis
  proof (cases "dispatchTables sdk' b")
    case None
    then show ?thesis using inv by (simp add: Dispatch_def)
  next
    case (Some t)
    then have "\<forall>op fn. t op = Some fn \<longrightarrow> tame fn" using inv by (auto simp: sdk_inv_def)
    from buildExecuteHandler_tame [OF this] show ?thesis
      using inv unfolding Dispatch_table [OF Some] by blast
  qed
qed

theorem Dispatch_events_follow_success_witness:
  "\<exists>sdk'. RegisterReconciler ex_types 0 ''user'' ''users'' ex_reconciler ex_opts ex_sdk = Inr sdk' \<and> sdk_inv sdk'"
proof -
  obtain sdk' where reg: "RegisterReconciler ex_types 0 ''user'' ''users'' ex_reconciler ex_opts ex_sdk = Inr sdk'"
    using ex_reg by blast
  have "sdk_inv ex_sdk" by (simp add: sdk_inv_def ex_sdk_def)
  from Dispatch_events_follow_success [OF this reg] show ?thesis using reg by blast
qed

text \<open>
  \<^verbatim>\<open>observe_X\<close> is read-only for the SDK: whatever the reconciler returns, a dispatched
  observe emits no event, logs nothing and does not read the clock; its body is the page's
  JSON object and its errors are passed on.
\<close>

theorem Dispatch_observe:
  assumes "RegisterReconciler ty a res rty r opts sdk = Inr sdk'"
    and "cfg = fold apply_option opts no_options"
    and "''observe_'' @ norm_name rty \<notin> norm_name ` set (o_legacyNames cfg)"
    and "decode_request (bytes_of (d_Body d)) = Some req" and "requested_op req = ''observe_'' @ norm_name rty"
    and "parse_filter req = Some flt"
  shows "w_emits (snd (Dispatch sdk' a d w)) = w_emits w \<and> w_warns (snd (Dispatch sdk' a d w)) = w_warns w
    \<and> w_ticks (snd (Dispatch sdk' a d w)) = w_ticks w
    \<and> w_user (snd (Dispatch sdk' a d w)) = snd (r_Observe r flt (w_user w))
    \<and> fst (Dispatch sdk' a d w) = (case fst (r_Observe r flt (w_user w)) of Inl e \<Rightarrow> Inl e
         | Inr (items, cursor) \<Rightarrow> map_sum id (\<lambda>b. (Some b, application_json)) (marshal_page ty items cursor))"
proof -
  let ?fn = "makeObserveFn ty r"
  obtain t where t: "dispatchTables sdk' a = Some t" "t (''observe_'' @ norm_name rty) = Some ?fn"
    using registered_entry [OF assms(1-3)] by auto
  have ne: "''observe_'' @ norm_name rty \<noteq> []" by simp
  note eq = Dispatch_entry [where op = "''observe_'' @ norm_name rty" and fn = ?fn, OF assms(4,5) ne t]
  have "w_user (snd (?fn req w)) = snd (r_Observe r flt (w_user w))
    \<and> fst (?fn req w) = (case fst (r_Observe r flt (w_user w)) of Inl e \<Rightarrow> Inl e
         | Inr (items, cursor) \<Rightarrow> marshal_page ty items cursor)"
    using assms(6) by (auto simp: makeObserveFn_def split: sum.split prod.split)
  then show ?thesis
    unfolding eq by (auto simp: observe_world split: sum.split)
qed

theorem Dispatch_observe_witness:
  "\<exists>sdk'. RegisterReconciler ex_types 0 ''user'' ''users'' ex_reconciler ex_opts ex_sdk = Inr sdk'
     \<and> w_emits (snd (Dispatch sdk' 0 (ex_delivery (op_body ''observe_users'')) ex_world)) = []"
proof -
  obtain sdk' where reg: "RegisterReconciler ex_types 0 ''user'' ''users'' ex_reconciler ex_opts ex_sdk = Inr sdk'"
    using ex_reg by blast
  have "w_emits (snd (Dispatch sdk' 0 (ex_delivery (op_body ''observe_users'')) ex_world)) = []"
    using Dispatch_observe [OF reg refl, of "ex_delivery (op_body ''observe_users'')" "ex_request ''observe_users''"
        Map.empty ex_world]
    by (simp add: ex_norm ex_cfg ex_decode ex_op ex_payload)
  then show ?thesis using reg by blast
qed

text \<open>
  \<^bold>\<open>C30\<close>: registrations compose. Registering a resource adds its own three operations, each with the
  function built on the given reconciler (unless one of its legacy names takes the name), and
  leaves every other operation of the same
  adapter and every other adapter's table untouched; the \<^verbatim>\<open>execute\<close> capability is installed by
  the first registration only (later ones keep whatever the author put there), and the
  installed handler is \<^verbatim>\<open>Dispatch\<close> over the table as it is at the time of the call.
\<close>

theorem RegisterReconciler_composes:
  assumes "RegisterReconciler ty a res rty r opts sdk = Inr sdk'"
    and "cfg = fold apply_option opts no_options" and "ec = emit_context (norm_name res) cfg"
    and "op \<notin> norm_name ` set (o_legacyNames cfg)"
  shows "table_of sdk' a op =
        (if op = ''ensure_'' @ norm_name res then Some (makeEnsureFn ty r ec)
         else if op = ''observe_'' @ norm_name rty then Some (makeObserveFn ty r)
         else if op = ''destroy_'' @ norm_name res then Some (makeDestroyFn ty r ec)
         else table_of sdk a op)
    \<and> (b \<noteq> a \<longrightarrow> dispatchTables sdk' b = dispatchTables sdk b)
    \<and> map_of (a_handlers (sdk_adapters sdk' a)) ''execute'' =
        (if dispatchTables sdk a = None then Some (ExecuteHandler a)
         else map_of (a_handlers (sdk_adapters sdk a)) ''execute'')
    \<and> handler_fn sdk' (ExecuteHandler a) = Dispatch sdk' a"
proof -
  note reg = RegisterReconciler_Inr(3,4) [OF assms(1,2)]
  have tab: "table_of sdk' a = install ty (norm_name res) (norm_name rty) r cfg ec (table_of sdk a)"
    unfolding assms(3) by (simp add: table_of_def reg(1))
  note own = fun_cong [OF this, of op, unfolded install_table [OF assms(4)]]
  have "norm_name ''execute'' = ''execute''" by code_simp
  then have "map_of (a_handlers (sdk_adapters sdk' a)) ''execute'' =
        (if dispatchTables sdk a = None then Some (ExecuteHandler a)
         else map_of (a_handlers (sdk_adapters sdk a)) ''execute'')"
    by (simp add: reg(2) handlers.look_bind)
  moreover have "handler_fn sdk' (ExecuteHandler a) = Dispatch sdk' a"
    by (intro ext) (simp add: handler_fn_def Dispatch_def reg(1))
  moreover have "b \<noteq> a \<longrightarrow> dispatchTables sdk' b = dispatchTables sdk b" by (simp add: reg(1))
  ultimately show ?thesis using own by blast
qed

theorem RegisterReconciler_composes_witness:
  "\<exists>sdk'. RegisterReconciler ex_types 0 ''user'' ''users'' ex_reconciler ex_opts ex_sdk = Inr sdk'
     \<and> table_of sdk' 0 ''observe_users'' = Some (makeObserveFn ex_types ex_reconciler)
     \<and> map_of (a_handlers (sdk_adapters sdk' 0)) ''execute'' = Some (ExecuteHandler 0)"
proof -
  obtain sdk' where reg: "RegisterReconciler ex_types 0 ''user'' ''users'' ex_reconciler ex_opts ex_sdk = Inr sdk'"
    using ex_reg by blast
  have "table_of sdk' 0 ''observe_users'' = Some (makeObserveFn ex_types ex_reconciler)
      \<and> map_of (a_handlers (sdk_adapters sdk' 0)) ''execute'' = Some (ExecuteHandler 0)"
    using RegisterReconciler_composes [OF reg refl refl, of "''observe_users''"]
    by (simp add: ex_norm ex_cfg ex_sdk_def)
  then show ?thesis using reg by blast
qed

text \<open>
  \<^bold>\<open>C31\<close>: legacy names. A legacy name answers exactly as the canonical operation its verb prefix
  selects, and every call of it (not only the first) logs one deprecation warning.
\<close>

theorem legacy_name_is_canonical:
  assumes "RegisterReconciler ty a res rty r opts sdk = Inr sdk'"
    and "cfg = fold apply_option opts no_options" and "o_legacyNames cfg = ls @ l # ls'"
    and "norm_name l \<noteq> []" and "norm_name l \<notin> norm_name ` set ls'"
    and "canonical = pickCanonicalForLegacy (norm_name l) (''ensure_'' @ norm_name res)
                       (''observe_'' @ norm_name rty) (''destroy_'' @ norm_name res)"
    and "canonical \<notin> norm_name ` set (o_legacyNames cfg)"
  shows "\<exists>fn k line. table_of sdk' a canonical = Some fn
    \<and> (\<exists>shim. table_of sdk' a (norm_name l) = Some shim
         \<and> (\<forall>env w. shim env w = fn env (w\<lparr>w_warns := w_warns w @ [(k, line)]\<rparr>)))"
proof -
  let ?e = "''ensure_'' @ norm_name res" and ?o = "''observe_'' @ norm_name rty" and ?d = "''destroy_'' @ norm_name res"
  let ?ec = "emit_context (norm_name res) cfg"
  let ?t0 = "(table_of sdk a)(?e \<mapsto> makeEnsureFn ty r ?ec, ?o \<mapsto> makeObserveFn ty r, ?d \<mapsto> makeDestroyFn ty r ?ec)"
  let ?t1 = "fold (install_legacy cfg ?e ?o ?d) ls ?t0"
  have "canonical \<in> {?e, ?o, ?d}" using assms(6) by (simp add: pickCanonicalForLegacy_def)
  then obtain fn where fn0: "?t0 canonical = Some fn" by (cases "?t0 canonical") auto
  then have fn1: "?t1 canonical = Some fn"
    using assms(3,7) by (subst fold_install_legacy_other) auto
  have tab: "table_of sdk' a = fold (install_legacy cfg ?e ?o ?d) ls' (install_legacy cfg ?e ?o ?d l ?t1)"
    using RegisterReconciler_Inr(3) [OF assms(1,2)] assms(3) by (simp add: table_of_def install_def Let_def)
  have "table_of sdk' a (norm_name l) = Some (warnShim (norm_name l) canonical fn (o_warnLogger cfg))"
    unfolding tab using assms(4-6) fn1 by (simp add: fold_install_legacy_other install_legacy_def Let_def)
  moreover have c: "canonical \<noteq> norm_name l" "canonical \<notin> norm_name ` set ls'" using assms(3,7) by auto
  have "table_of sdk' a canonical = Some fn"
    unfolding tab fold_install_legacy_other [OF c(2)] install_legacy_other [OF c(1)] by (rule fn1)
  moreover have "\<exists>k line. \<forall>env w. warnShim (norm_name l) canonical fn (o_warnLogger cfg) env w
      = fn env (w\<lparr>w_warns := w_warns w @ [(k, line)]\<rparr>)"
    by (cases "o_warnLogger cfg") (auto simp: warnShim_def warn_def Let_def)
  ultimately show ?thesis by blast
qed

theorem legacy_name_is_canonical_witness:
  "\<exists>sdk' fn. RegisterReconciler ex_types 0 ''user'' ''users'' ex_reconciler ex_opts ex_sdk = Inr sdk'
     \<and> table_of sdk' 0 ''create_user'' = Some fn"
proof -
  obtain sdk' where reg: "RegisterReconciler ex_types 0 ''user'' ''users'' ex_reconciler ex_opts ex_sdk = Inr sdk'"
    using ex_reg by blast
  have "pickCanonicalForLegacy ''create_user'' ''ensure_user'' ''observe_users'' ''destroy_user'' = ''ensure_user''"
    by code_simp
  then have "\<exists>fn. table_of sdk' 0 ''create_user'' = Some fn"
    using legacy_name_is_canonical [OF reg refl, of "[]" "''create_user''" "[]" "''ensure_user''"]
    by (auto simp: ex_norm ex_cfg)
  then show ?thesis using reg by blast
qed

text \<open>
  requests that reach no operation are refused without side effects: an adapter without
  reconcilers, a body that does not decode, a missing operation name and an unknown one
  each return their own error and leave the world as it was.
\<close>

theorem Dispatch_refuses:
  assumes "\<And>t req. dispatchTables sdk a = Some t \<Longrightarrow> decode_request (bytes_of (d_Body d)) = Some req \<Longrightarrow>
      requested_op req = [] \<or> t (requested_op req) = None"
  shows "Dispatch sdk a d w = (Inl (case dispatchTables sdk a of
      None \<Rightarrow> ErrorText (''reconcile: adapter has no registered Reconciler ''
                 @ ''(call reconcile.RegisterReconciler before reconcile.Dispatch)'')
    | Some t \<Rightarrow> (case decode_request (bytes_of (d_Body d)) of
        None \<Rightarrow> Wrap ''reconcile: parse execute request: '' json_error []
      | Some req \<Rightarrow> if requested_op req = [] then ErrorText ''reconcile: execute request missing operation''
                   else ErrorText (''reconcile: unsupported operation '' @ go_quote (requested_op req)))), w)"
proof (cases "\<exists>t req. dispatchTables sdk a = Some t \<and> decode_request (bytes_of (d_Body d)) = Some req")
  case True
  then obtain t req where t: "dispatchTables sdk a = Some t" "decode_request (bytes_of (d_Body d)) = Some req"
    by blast
  show ?thesis using assms [OF t] t by (auto simp: Dispatch_def buildExecuteHandler_def Let_def)
next
  case False
  then show ?thesis by (auto simp: Dispatch_def buildExecuteHandler_def split: option.splits)
qed

theorem Dispatch_refuses_witness:
  "\<exists>e. Dispatch ex_sdk 0 (ex_delivery (op_body ''ensure_user'')) ex_world = (Inl e, ex_world)"
  using Dispatch_refuses [of ex_sdk 0 "ex_delivery (op_body ''ensure_user'')" ex_world]
  by (simp add: ex_sdk_def)

end
