(* ===== verification/ReconcileIds.thy ===== *)
theory ReconcileIds
  imports Reconcile JsonText
begin

text \<open>
  The identifiers of \<^verbatim>\<open>sdk/reconcile\<close> on the wire: which reference a destroy request yields,
  how a numeric id of an ensure response becomes text, and when the hand-written payload of
  a destroyed event is JSON. The definitions are those of theory \<open>Reconcile\<close>.
\<close>

section \<open>float64 is exact on integers below 2 to the 53\<close>

lemma bit_len_1 [simp]: "bit_len 1 = 1" "bit_len (Suc 0) = 1"
  by (simp_all add: bit_len.simps)

lemma bit_len_bounds: "0 < n \<Longrightarrow> 2 ^ (bit_len n - 1) \<le> n \<and> n < 2 ^ bit_len n"
proof (induction n rule: bit_len.induct)
  case (1 n)
  have L: "bit_len n = Suc (bit_len (n div 2))" using "1.prems" by (subst bit_len.simps) simp
  show ?case
  proof (cases "n = 1")
    case True
    then show ?thesis by simp
  next
    case False
    then have pos: "0 < n div 2" using "1.prems" by auto
    then have IH: "2 ^ (bit_len (n div 2) - 1) \<le> n div 2" "n div 2 < 2 ^ bit_len (n div 2)"
      using "1.IH" "1.prems" by auto
    have "bit_len (n div 2) \<noteq> 0" using pos IH(2) by (cases "bit_len (n div 2)") auto
    then obtain k where k: "bit_len (n div 2) = Suc k" using not0_implies_Suc by blast
    show ?thesis using IH unfolding L k by auto
  qed
qed

lemma bit_len_le: "0 < n \<Longrightarrow> n < 2 ^ k \<Longrightarrow> bit_len n \<le> k"
proof (rule ccontr)
  assume a: "0 < n" "n < 2 ^ k" "\<not> bit_len n \<le> k"
  then have "(2::nat) ^ k \<le> 2 ^ (bit_len n - 1)" by (intro power_increasing) auto
  then show False using bit_len_bounds [OF a(1)] a(2) by linarith
qed

lemma round_even_int [simp]: "round_even (of_int k) = k"
  by (simp add: round_even_def)

lemma pow2_inverse: "pow2 e * pow2 (- e) = 1"
  by (auto simp: pow2_def)

lemma pow2_nonneg: "0 \<le> e \<Longrightarrow> pow2 e = of_int (2 ^ nat e)"
  by (simp add: pow2_def)

lemma round_f64_nat:
  assumes "0 < n" "n < 2 ^ 53"
  shows "round_f64 (of_nat n) = Some (of_nat n)"
proof -
  let ?L = "bit_len n"
  have q: "quotient_of (of_nat n) = (int n, 1)"
    using quotient_of_int [of "int n"] by (simp add: Rat.of_int_def)
  have b: "2 ^ (?L - 1) \<le> n" "?L \<le> 53" "?L \<noteq> 0"
    using bit_len_bounds [OF assms(1)] bit_len_le [OF assms] assms(1) by (auto intro: ccontr)
  have "pow2 (int ?L - 1) = of_nat (2 ^ (?L - 1))"
    using b(3) by (simp add: pow2_def nat_diff_distrib)
  also have "\<dots> \<le> of_nat n" by (rule of_nat_mono [OF b(1)])
  finally have lo: "pow2 (int ?L - 1) \<le> of_nat n" .
  let ?e = "int ?L - 53"
  have "of_nat n * pow2 (- ?e) = of_int (int n * 2 ^ nat (53 - int ?L))"
    using b(2) pow2_nonneg [of "53 - int ?L"] by simp
  then have "round_even (of_nat n * pow2 (- ?e)) = int n * 2 ^ nat (53 - int ?L)"
    by (metis round_even_int)
  then have "of_int (round_even (of_nat n * pow2 (- ?e))) * pow2 ?e = of_nat n * (pow2 (- ?e) * pow2 ?e)"
    using b(2) pow2_nonneg [of "53 - int ?L"] by simp
  also have "\<dots> = of_nat n" using pow2_inverse [of ?e] by (simp add: mult.commute)
  finally have v: "of_int (round_even (of_nat n * pow2 (- ?e))) * pow2 ?e = (of_nat n :: rat)" .
  have "(of_nat n :: rat) < of_nat (2 ^ 53)" using assms(2) by (simp only: of_nat_less_iff)
  moreover have "(of_nat (2 ^ 53) :: rat) \<le> pow2 1024" by (simp add: pow2_def)
  ultimately have ovf: "\<not> pow2 1024 \<le> (of_nat n :: rat)" by linarith
  have m: "max ?e (- 1074) = ?e" using b(3) by simp
  show ?thesis
    using assms(1) lo v ovf m by (simp add: round_f64_def q Let_def)
qed


section \<open>Keys that are not the ref field\<close>

lemma fold_name_snoc:
  assumes "byte c < 128"
  shows "fold_name (s @ [c]) = fold_name s @ [upper_char c]"
proof (induction s rule: fold_name.induct)
  case 1
  have "\<not> prefix [CHR 0xE2, CHR 0x84, CHR 0xAA] [c]" "\<not> prefix [CHR 0xC5, CHR 0xBF] [c]" by auto
  then show ?case by simp
next
  case (2 d ds)
  have c: "c \<noteq> CHR 0x84" "c \<noteq> CHR 0xAA" "c \<noteq> CHR 0xBF" using assms by (auto simp: byte_def)
  have p1: "prefix [CHR 0xE2, CHR 0x84, CHR 0xAA] (d # ds @ [c]) = prefix [CHR 0xE2, CHR 0x84, CHR 0xAA] (d # ds)"
    using c by (cases ds; cases "tl ds") (auto simp: prefix_Cons)
  have p2: "prefix [CHR 0xC5, CHR 0xBF] (d # ds @ [c]) = prefix [CHR 0xC5, CHR 0xBF] (d # ds)"
    using c by (cases ds) (auto simp: prefix_Cons)
  have len: "prefix [CHR 0xE2, CHR 0x84, CHR 0xAA] (d # ds) \<Longrightarrow> drop 2 (ds @ [c]) = drop 2 ds @ [c]"
    "prefix [CHR 0xC5, CHR 0xBF] (d # ds) \<Longrightarrow> drop 1 (ds @ [c]) = drop 1 ds @ [c]"
    by (auto dest: prefix_length_le)
  consider "prefix [CHR 0xE2, CHR 0x84, CHR 0xAA] (d # ds)"
    | "\<not> prefix [CHR 0xE2, CHR 0x84, CHR 0xAA] (d # ds)" "prefix [CHR 0xC5, CHR 0xBF] (d # ds)"
    | "\<not> prefix [CHR 0xE2, CHR 0x84, CHR 0xAA] (d # ds)" "\<not> prefix [CHR 0xC5, CHR 0xBF] (d # ds)" by blast
  then show ?case
  proof cases
    case 1
    show ?thesis unfolding append_Cons fold_name.simps p1 p2 if_P [OF 1] len(1) [OF 1]
      using "2.IH"(1) [OF 1] by simp
  next
    case 2
    show ?thesis unfolding append_Cons fold_name.simps p1 p2 if_not_P [OF 2(1)] if_P [OF 2(2)] len(2) [OF 2(2)]
      using "2.IH"(2) [OF 2] by simp
  next
    case 3
    show ?thesis unfolding append_Cons fold_name.simps p1 p2 if_not_P [OF 3(1)] if_not_P [OF 3(2)]
      using "2.IH"(3) [OF 3] by simp
  qed
qed

lemma id_key_is_not_ref: "\<not> key_matches (s @ ''_id'') ''ref''"
proof -
  have u: "upper_char (CHR ''d'') = CHR ''D''" by code_simp
  have "fold_name (s @ ''_id'') = fold_name (s @ ''_i'') @ [CHR ''D'']"
    using fold_name_snoc [of "CHR ''d''" "s @ ''_i''"] by (simp add: byte_def u)
  moreover have "fold_name ''ref'' = ''REF''" by code_simp
  ultimately show ?thesis by (simp add: key_matches_def)
qed


section \<open>One-member objects\<close>

lemma valid_utf8_append: "valid_utf8 s \<Longrightarrow> valid_utf8 t \<Longrightarrow> valid_utf8 (s @ t)"
proof (induction s rule: valid_utf8.induct)
  case (2 c cs)
  let ?n = "utf8_size (c # cs)"
  have n: "?n \<noteq> 0" "valid_utf8 (drop (?n - 1) cs)" using "2.prems"(1) by (simp_all add: valid_utf8.simps)
  have n': "utf8_size (c # cs @ t) = ?n" using utf8_size_append [OF n(1), of t] by simp
  have "?n - 1 \<le> length cs" using utf8_size_le [of "c # cs"] by simp
  then have "drop (?n - 1) (cs @ t) = drop (?n - 1) cs @ t" by simp
  then show ?case using 2 n n' by (simp add: valid_utf8.simps)
qed simp

lemma json_depth_single: "json_depth (JObj [(k, JStr v)]) \<le> max_nesting_depth"
  "json_depth (JObj [(k, JNum a b c d)]) \<le> max_nesting_depth"
  by (simp_all add: max_nesting_depth_def)

lemma single_string_object:
  assumes "valid_utf8 k" "valid_utf8 v"
  shows "json_fields (object_text [(k, json_string True v)]) = Some [(k, JStr v, json_string True v)]"
    and "json_any_map (object_text [(k, json_string True v)]) = Some [k \<mapsto> AStr v]"
proof -
  let ?m = "(k, json_string True v, JStr v)"
  have g: "list_all good_member [?m]" using assms by (simp add: denotes_string)
  show "json_fields (object_text [(k, json_string True v)]) = Some [(k, JStr v, json_string True v)]"
    using json_fields_object [OF g] json_depth_single(1) [of k v] by (simp add: field_of_def)
  have "json_parse (object_text [(k, json_string True v)]) = Some (JObj [(k, JStr v)])"
    using denotes_parse [OF denotes_object [OF g]] json_depth_single(1) [of k v] by simp
  then show "json_any_map (object_text [(k, json_string True v)]) = Some [k \<mapsto> AStr v]"
    by (simp add: json_any_map_def)
qed

lemma single_number_object:
  assumes "valid_utf8 k" "0 < n" "n < 2 ^ 53"
  shows "json_any_map (object_text [(k, show_nat n)]) = Some [k \<mapsto> AF64 (of_nat n)]"
proof -
  have g: "list_all good_member [(k, show_nat n, JNum False (show_nat n) [] None)]"
    using assms by (simp add: denotes_nat)
  have "json_parse (object_text [(k, show_nat n)]) = Some (JObj [(k, JNum False (show_nat n) [] None)])"
    using denotes_parse [OF denotes_object [OF g]]
      json_depth_single(2) [of k False "show_nat n" "[]" None] by simp
  then show ?thesis
    using round_f64_nat [OF assms(2,3)] by (simp add: json_any_map_def num_value_def)
qed


section \<open>Go quoting inside JSON\<close>

definition json_safe :: "char \<Rightarrow> bool" where
  "json_safe c = ((32 \<le> byte c \<and> byte c < 127) \<or> c \<in> {CHR 0x08, CHR 0x09, CHR 0x0A, CHR 0x0C, CHR 0x0D})"

lemma quote_char_escapes:
  "quote_char (CHR 0x22) = [CHR 0x5C, CHR 0x22]"
  "quote_char (CHR 0x5C) = [CHR 0x5C, CHR 0x5C]"
  "quote_char (CHR 0x07) = [CHR 0x5C, CHR ''a'']"
  "quote_char (CHR 0x08) = [CHR 0x5C, CHR ''b'']"
  "quote_char (CHR 0x0C) = [CHR 0x5C, CHR ''f'']"
  "quote_char (CHR 0x0A) = [CHR 0x5C, CHR ''n'']"
  "quote_char (CHR 0x0D) = [CHR 0x5C, CHR ''r'']"
  "quote_char (CHR 0x09) = [CHR 0x5C, CHR ''t'']"
  "quote_char (CHR 0x0B) = [CHR 0x5C, CHR ''v'']"
  by code_simp+

lemma esc_char_values:
  "esc_char (CHR 0x22) = Some (CHR 0x22)"
  "esc_char (CHR 0x5C) = Some (CHR 0x5C)"
  "esc_char (CHR ''a'') = None"
  "esc_char (CHR ''b'') = Some (CHR 0x08)"
  "esc_char (CHR ''f'') = Some (CHR 0x0C)"
  "esc_char (CHR ''n'') = Some (CHR 0x0A)"
  "esc_char (CHR ''r'') = Some (CHR 0x0D)"
  "esc_char (CHR ''t'') = Some (CHR 0x09)"
  "esc_char (CHR ''v'') = None"
  "esc_char (CHR ''x'') = None"
  by code_simp+

lemma json_safe_values:
  "json_safe (CHR 0x22) = True"
  "json_safe (CHR 0x5C) = True"
  "json_safe (CHR 0x07) = False"
  "json_safe (CHR 0x08) = True"
  "json_safe (CHR 0x0C) = True"
  "json_safe (CHR 0x0A) = True"
  "json_safe (CHR 0x0D) = True"
  "json_safe (CHR 0x09) = True"
  "json_safe (CHR 0x0B) = False"
  by code_simp+

lemma unq_escape:
  "e \<noteq> CHR ''u'' \<Longrightarrow>
   unq (CHR 0x5C # e # t) = (case esc_char e of None \<Rightarrow> None | Some x \<Rightarrow> map_option (apfst (Cons x)) (unq t))"
  by (simp add: unq.simps(2))

lemma unq_quote_char:
  assumes "byte c < 128"
  shows "unq (quote_char c @ t) = (if json_safe c then map_option (apfst (Cons c)) (unq t) else None)"
proof (cases "c \<in> {CHR 0x22, CHR 0x5C, CHR 0x07, CHR 0x08, CHR 0x0C, CHR 0x0A, CHR 0x0D, CHR 0x09, CHR 0x0B}")
  case True
  then show ?thesis
    by (elim insertE emptyE) (simp_all add: quote_char_escapes json_safe_values unq_escape esc_char_values)
next
  case False
  then have c: "c \<noteq> CHR 0x22" "c \<noteq> CHR 0x5C" and q: "quote_char c = (if byte c < 32 \<or> 127 \<le> byte c
      then [CHR 0x5C, CHR ''x'', hex_digit (byte c div 16), hex_digit (byte c mod 16)] else [c])"
    by (simp_all add: quote_char_def)
  have s: "json_safe c \<longleftrightarrow> \<not> (byte c < 32 \<or> 127 \<le> byte c)"
    using False by (auto simp: json_safe_def)
  show ?thesis
  proof (cases "byte c < 32 \<or> 127 \<le> byte c")
    case True
    then show ?thesis unfolding q s by (simp add: unq_escape esc_char_values)
  next
    case False
    then show ?thesis unfolding q s using c assms by (simp add: unq_plain)
  qed
qed

lemma quote_chars_ascii:
  "\<forall>c \<in> set s. byte c < 128 \<Longrightarrow> quote_chars s = concat (map quote_char s)"
  by (induction s) (auto simp: quote_chars.simps utf8_size_ascii Let_def)

lemma unq_quote_chars:
  assumes "\<forall>c \<in> set s. byte c < 128"
  shows "unq (quote_chars s @ CHR 0x22 # r) = (if \<forall>c \<in> set s. json_safe c then Some (s, r) else None)"
  unfolding quote_chars_ascii [OF assms] using assms
proof (induction s)
  case Nil
  then show ?case by (simp add: unq.simps)
next
  case (Cons c s)
  then show ?case by (simp add: unq_quote_char)
qed


lemma unq_ref_key: "unq (''ref'' @ CHR 0x22 # r) = Some (''ref'', r)"
  "unq (''deleted'' @ CHR 0x22 # r) = Some (''deleted'', r)"
  by (simp_all add: unq.simps byte_def utf8_size_ascii)

lemma destroyed_payload_text:
  "destroyed_payload ref = CHR ''{'' # CHR 0x22 # ''ref'' @ CHR 0x22 # CHR '':'' # CHR 0x22 #
     quote_chars ref @ CHR 0x22 # CHR '','' # CHR 0x22 # ''deleted'' @ CHR 0x22 # '':true}''"
  by (simp add: destroyed_payload_def go_quote_def)

lemma destroyed_payload_parse:
  assumes "\<forall>c \<in> set ref. byte c < 128"
  shows "json_parse (destroyed_payload ref) =
    (if \<forall>c \<in> set ref. json_safe c then Some (JObj [(''ref'', JStr ref), (''deleted'', JBool True)]) else None)"
proof -
  have q: "unq (quote_chars ref @ CHR 0x22 # r) = (if \<forall>c \<in> set ref. json_safe c then Some (ref, r) else None)" for r
    by (rule unq_quote_chars [OF assms])
  show ?thesis
    unfolding destroyed_payload_text
    by (simp add: json_parse_unfold skip_ws_Cons q unq_ref_key [simplified] plit_def max_nesting_depth_def)
qed


section \<open>Properties\<close>

text \<open>
  a provider-shaped destroy request. A payload whose only member is \<^verbatim>\<open><resource>_id\<close>, as the
  adapters in tree send it, yields exactly that identifier as the reference, for every
  non-empty UTF-8 identifier; the resource id of the event is then never empty.
\<close>

theorem destroy_ref_from_resource_id:
  assumes "valid_utf8 resource" and "resource \<noteq> []" and "valid_utf8 v" and "v \<noteq> []"
    and "er_Input env = object_text [(resource @ ''_id'', json_string True v)]"
  shows "destroy_ref env resource = Some v"
proof -
  have k: "valid_utf8 (resource @ ''_id'')"
    by (rule valid_utf8_append [OF assms(1) valid_utf8_ascii]) (simp add: byte_def)
  note obj = single_string_object [OF k assms(3)]
  have ne: "er_Input env \<noteq> []" unfolding assms(5) by (simp add: json_object_def)
  have "explicit_ref env = Some []"
    using ne id_key_is_not_ref [of resource] obj(1) by (simp add: explicit_ref_def assms(5))
  moreover have "resource @ ''_id'' \<noteq> ''ref''" using id_key_is_not_ref [of resource] by (auto simp: key_matches_def)
  then have "inferRefFromInput (er_Input env) resource = v"
    using assms(2,4) obj(2) by (simp add: inferRefFromInput_def assms(5) str_at_def)
  ultimately show ?thesis using ne by (simp add: destroy_ref_def)
qed

theorem destroy_ref_from_resource_id_witness:
  "destroy_ref \<lparr>er_Operation = ''destroy_channel'', er_Capability = [], er_Idempotency = [], er_InstanceID = [],
      er_Input = object_text [(''channel_id'', json_string True ''C123'')]\<rparr> ''channel'' = Some ''C123''"
  by (rule destroy_ref_from_resource_id) (simp_all add: valid_utf8_ascii byte_def)

text \<open>
  numeric ids survive the trip through float64. When the observed state has no reflected
  id and its JSON is an object with a positive integer \<^verbatim>\<open>id\<close> below 2 to the 53, the resource id
  of the event is the decimal text of that integer, and it reads back as the same number.
\<close>

theorem inferResourceID_numeric:
  assumes "reflectID observed = []" and "0 < n" and "n < 2 ^ 53"
  shows "inferResourceID observed (object_text [(''id'', show_nat n)]) resource = show_nat n
    \<and> ParseInt64 (show_nat n) = Some (int n)"
proof -
  have v: "valid_utf8 ''id''" by (rule valid_utf8_ascii) (simp add: byte_def)
  have lim: "int n \<le> int64_max" using assms(3) by (simp add: int64_max_def)
  have si: "show_int (int n) = show_nat n" by (simp add: show_int_def)
  have "f64_to_int64 (of_nat n) = int n"
    using lim by (simp add: f64_to_int64_def int64_min_def)
  then have "coerceToNonEmptyString (AF64 (of_nat n)) = show_nat n"
    using assms(2) si by (simp add: coerceToNonEmptyString_def)
  then have "inferResourceID observed (object_text [(''id'', show_nat n)]) resource = show_nat n"
    using assms(1) single_number_object [OF v assms(2,3)] by (simp add: inferResourceID_def coerce_at_def)
  moreover have "ParseInt64 (show_nat n) = Some (int n)"
    using ParseInt64_show_int [of "int n"] lim si by (simp add: int64_min_def)
  ultimately show ?thesis by blast
qed

theorem inferResourceID_numeric_witness:
  "inferResourceID VOther (object_text [(''id'', show_nat 1234567890)]) ''repository'' = show_nat 1234567890"
  using inferResourceID_numeric [of VOther 1234567890 "''repository''"] by (simp add: reflectID_def)

text \<open>
  the payload of a destroyed event is written with Go's \<^verbatim>\<open>%q\<close>. For an ASCII reference it is
  the intended JSON object exactly when the reference is printable (or has only the
  controls both syntaxes share); with any other control character, or DEL, it is not JSON,
  and the event then fails to marshal.
\<close>

theorem destroyed_payload_json:
  assumes "\<forall>c \<in> set ref. byte c < 128"
  shows "json_parse (destroyed_payload ref) =
      (if \<forall>c \<in> set ref. json_safe c then Some (JObj [(''ref'', JStr ref), (''deleted'', JBool True)]) else None)
    \<and> ((\<exists>e. marshal_raw (Some (destroyed_payload ref)) = Inl e) \<longleftrightarrow> (\<exists>c \<in> set ref. \<not> json_safe c))"
  using destroyed_payload_parse [OF assms] by (auto simp: marshal_raw_def)

theorem destroyed_payload_json_witness:
  "json_parse (destroyed_payload ''C123'') = Some (JObj [(''ref'', JStr ''C123''), (''deleted'', JBool True)])
   \<and> json_parse (destroyed_payload [CHR ''a'', CHR 0x01]) = None"
  using destroyed_payload_json [of "''C123''"] destroyed_payload_json [of "[CHR ''a'', CHR 0x01]"]
  by (simp add: byte_def json_safe_def)

end
