(* ===== verification/Hmac.thy ===== *)
theory Hmac
  imports Digest
begin

text \<open>
  Package \<^verbatim>\<open>sig/hmac\<close> (\<^verbatim>\<open>stripe.go\<close>, \<^verbatim>\<open>github.go\<close>): verification of Stripe and GitHub style
  webhook signatures over the HMAC-SHA256 of theory \<open>Digest\<close>. The clock is an argument, and
  the skew is computed at the width the code uses.
\<close>

section \<open>Stripe signatures\<close>

definition ErrTimestampExpired :: goerr where
  "ErrTimestampExpired = Sentinel ''stripe sig: timestamp beyond tolerance window''"
definition ErrSignatureMismatch :: goerr where
  "ErrSignatureMismatch = Sentinel ''stripe sig: v1 HMAC mismatch''"
definition ErrMissingTimestamp :: goerr where
  "ErrMissingTimestamp = Sentinel ''stripe sig: missing t= component''"
definition ErrMissingV1 :: goerr where "ErrMissingV1 = Sentinel ''stripe sig: missing v1= component''"
definition ErrMalformedHeader :: goerr where
  "ErrMalformedHeader = Sentinel ''stripe sig: malformed header value''"

text \<open>The value an int64 operation leaves in the register.\<close>

definition wrap64 :: "int \<Rightarrow> int" where
  "wrap64 i = (i + 2 ^ 63) mod 2 ^ 64 - 2 ^ 63"

text \<open>The loop over the comma-separated parts: the last \<^verbatim>\<open>t\<close> and all \<^verbatim>\<open>v1\<close> values.\<close>

fun stripe_parts :: "string list \<Rightarrow> string \<Rightarrow> string list \<Rightarrow> string \<times> string list" where
  "stripe_parts [] tsStr sigs = (tsStr, sigs)"
| "stripe_parts (part # parts) tsStr sigs =
     (case SplitN2 (CHR ''='') (TrimSpace part) of
        [k, v] \<Rightarrow>
          if k = ''t'' then stripe_parts parts v sigs
          else if k = ''v1'' then stripe_parts parts tsStr (sigs @ [v])
          else stripe_parts parts tsStr sigs
      | _ \<Rightarrow> stripe_parts parts tsStr sigs)"

definition skew_exceeds :: "int \<Rightarrow> int \<Rightarrow> int \<Rightarrow> bool" where
  "skew_exceeds now ts tolerance =
     (let skew = wrap64 (now - ts); skew' = (if skew < 0 then wrap64 (- skew) else skew) in skew' > tolerance)"

definition sig_matches :: "string \<Rightarrow> string \<Rightarrow> bool" where
  "sig_matches expected sig = (case hex_decode sig of None \<Rightarrow> False
     | Some got \<Rightarrow> ConstantTimeCompare got expected = 1)"

text \<open>The text of the error of \<^verbatim>\<open>strconv.ParseInt(s, 10, 64)\<close>.\<close>

definition parse_int_text :: "string \<Rightarrow> string" where
  "parse_int_text s =
     (let ds = (case s of [] \<Rightarrow> [] | c # cs \<Rightarrow> if c = CHR ''-'' \<or> c = CHR ''+'' then cs else s)
      in ''strconv.ParseInt: parsing '' @ go_quote s
         @ (if ds \<noteq> [] \<and> list_all is_digit ds then '': value out of range'' else '': invalid syntax''))"

definition VerifyStripe :: "int \<Rightarrow> string \<Rightarrow> string \<Rightarrow> string \<Rightarrow> int \<Rightarrow> int \<times> goerr option" where
  "VerifyStripe now payload header secret toleranceSecs =
     (if header = [] then (0, Some ErrMalformedHeader)
      else
       let (tsStr, sigs) = stripe_parts (SplitChar (CHR '','') header) [] []
       in if tsStr = [] then (0, Some ErrMissingTimestamp)
          else if sigs = [] then (0, Some ErrMissingV1)
          else case ParseInt64 tsStr of
            None \<Rightarrow> (0, Some (Wrap [] ErrMalformedHeader ('': parse t=: '' @ parse_int_text tsStr)))
          | Some ts \<Rightarrow>
             if 0 < toleranceSecs \<and> skew_exceeds now ts toleranceSecs then (ts, Some ErrTimestampExpired)
             else let expected = hmac_sha256 secret (show_int ts @ ''.'' @ payload)
                  in if list_ex (sig_matches expected) sigs then (ts, None) else (ts, Some ErrSignatureMismatch))"


section \<open>GitHub signatures\<close>

definition ErrMalformedHubSig :: goerr where
  "ErrMalformedHubSig = Sentinel ''hub sig: malformed header, want sha256=<hex>''"

definition hub_prefix :: string where "hub_prefix = ''sha256=''"

definition VerifyHubSignature256 :: "string \<Rightarrow> string \<Rightarrow> string \<Rightarrow> goerr option" where
  "VerifyHubSignature256 payload header0 secret =
     (let header = TrimSpace header0
      in if \<not> HasPrefix header hub_prefix then Some ErrMalformedHubSig
         else let sigHex = drop (length hub_prefix) header
              in if length sigHex \<noteq> 64 then Some ErrMalformedHubSig
                 else case hex_decode sigHex of
                   None \<Rightarrow> Some ErrMalformedHubSig
                 | Some got \<Rightarrow>
                     if ConstantTimeCompare got (hmac_sha256 secret payload) \<noteq> 1 then Some ErrSignatureMismatch
                     else None)"


section \<open>Strings without white space, commas or equals signs\<close>

lemma TrimSpace_plain:
  assumes "\<forall>c \<in> set s. 33 \<le> byte c \<and> byte c < 127"
  shows "TrimSpace s = s"
proof (rule TrimSpace_id)
  fix p assume p: "p \<in> set space_seqs"
  have ne: "p \<noteq> []" using p by (auto simp: space_seqs_def)
  have bad: "byte (hd p) \<le> 32 \<or> 127 < byte (hd p)" "byte (last p) \<le> 32 \<or> 127 < byte (last p)"
    using p by (auto simp: space_seqs_def byte_def)
  have "hd p \<in> set s" if "prefix p s"
    using set_mono_prefix [OF that] hd_in_set [OF ne] by blast
  moreover have "last p \<in> set s" if "suffix p s"
    using set_mono_suffix [OF that] last_in_set [OF ne] by blast
  ultimately show "\<not> prefix p s \<and> \<not> suffix p s" using assms bad by force
qed

lemma SplitChar_none: "sep \<notin> set s \<Longrightarrow> SplitChar sep s = [s]"
  by (induction s) auto

lemma SplitChar_append: "sep \<notin> set a \<Longrightarrow> SplitChar sep (a @ sep # b) = a # SplitChar sep b"
  by (induction a) auto

lemma SplitN2_append: "sep \<notin> set a \<Longrightarrow> SplitN2 sep (a @ sep # b) = [a, b]"
  by (induction a) (auto split: list.splits)

lemma hex_encode_chars: "c \<in> set (hex_encode s) \<Longrightarrow> (48 \<le> byte c \<and> byte c \<le> 57) \<or> (97 \<le> byte c \<and> byte c \<le> 102)"
proof -
  assume "c \<in> set (hex_encode s)"
  then obtain x where x: "c = hex_digit (byte x div 16) \<or> c = hex_digit (byte x mod 16)"
    by (auto simp: hex_encode_def)
  have "byte x div 16 < 16" using byte_less [of x] by (simp add: less_mult_imp_div_less)
  then obtain n where n: "c = hex_digit n" "n < 16" using x by auto
  then show ?thesis by (cases "n < 10") (simp_all add: hex_digit_def)
qed

lemma show_int_chars: "c \<in> set (show_int i) \<Longrightarrow> c = CHR ''-'' \<or> is_digit c"
  using show_nat_digits by (auto simp: show_int_def list_all_iff split: if_splits)

lemma hex_decode_length: "hex_decode s = Some t \<Longrightarrow> length s = 2 * length t"
  by (induction s arbitrary: t rule: hex_decode.induct) (auto split: option.splits)

lemma sig_matches_iff: "sig_matches expected sig \<longleftrightarrow> hex_decode sig = Some expected"
  by (simp add: sig_matches_def ConstantTimeCompare_eq split: option.split)

text \<open>The header Stripe sends for one signature.\<close>

definition stripe_header :: "int \<Rightarrow> string \<Rightarrow> string" where
  "stripe_header ts sig = ''t='' @ show_int ts @ '',v1='' @ sig"

lemma stripe_parts_header:
  assumes "sig = hex_encode m"
  shows "stripe_parts (SplitChar (CHR '','') (stripe_header ts sig)) [] [] = (show_int ts, [sig])"
proof -
  have d: "33 \<le> byte c \<and> byte c < 127 \<and> c \<noteq> CHR '',''" if "c \<in> set (show_int ts)" for c
    using show_int_chars [OF that] by (auto simp: is_digit_def byte_def)
  have h: "33 \<le> byte c \<and> byte c < 127 \<and> c \<noteq> CHR '',''" if "c \<in> set sig" for c
    using hex_encode_chars [of c m] that assms by (auto simp: byte_def)
  have split: "SplitChar (CHR '','') (stripe_header ts sig) = [''t='' @ show_int ts, ''v1='' @ sig]"
  proof -
    have "CHR '','' \<notin> set (''t='' @ show_int ts)" "CHR '','' \<notin> set (''v1='' @ sig)" using d h by auto
    note this [THEN SplitChar_append] this [THEN SplitChar_none]
    moreover have "stripe_header ts sig = (''t='' @ show_int ts) @ CHR '','' # (''v1='' @ sig)"
      by (simp add: stripe_header_def)
    ultimately show ?thesis by (simp only:)
  qed
  have "TrimSpace (''t='' @ show_int ts) = ''t='' @ show_int ts" "TrimSpace (''v1='' @ sig) = ''v1='' @ sig"
    using d h by (intro TrimSpace_plain; auto simp: byte_def)+
  moreover have "SplitN2 (CHR ''='') (''t='' @ show_int ts) = [''t'', show_int ts]"
    "SplitN2 (CHR ''='') (''v1='' @ sig) = [''v1'', sig]"
    using SplitN2_append [of "CHR ''=''" "''t''"] SplitN2_append [of "CHR ''=''" "''v1''"] by simp_all
  ultimately show ?thesis unfolding split by (simp del: SplitN2.simps)
qed

lemma show_int_nonempty [simp]: "show_int i \<noteq> []"
  by (simp add: show_int_def)


section \<open>The skew at 64 bits\<close>

lemma wrap64_id: "int64_min \<le> i \<Longrightarrow> i \<le> int64_max \<Longrightarrow> wrap64 i = i"
  by (simp add: wrap64_def int64_min_def int64_max_def)

lemma wrap64_above:
  assumes "2 ^ 63 \<le> i" "i < 2 ^ 64"
  shows "wrap64 i = i - 2 ^ 64"
proof -
  have "(i + 2 ^ 63) mod 2 ^ 64 = (i + 2 ^ 63 - 2 ^ 64) mod 2 ^ 64" by (simp only: minus_mod_self2)
  also have "\<dots> = i + 2 ^ 63 - 2 ^ 64" using assms by (intro mod_pos_pos_trivial) simp_all
  finally show ?thesis by (simp add: wrap64_def)
qed

lemma skew_exceeds_exact:
  assumes "0 \<le> now" "now < 2 ^ 62" "int64_min \<le> ts" "ts \<le> int64_max" "0 < tol" "tol < 2 ^ 62"
  shows "skew_exceeds now ts tol \<longleftrightarrow> \<bar>now - ts\<bar> > tol \<and> ts \<noteq> now - 2 ^ 63"
proof (cases "now - ts < 2 ^ 63")
  case True
  have r: "int64_min < now - ts" "now - ts \<le> int64_max"
    using True assms by (simp_all add: int64_min_def int64_max_def)
  then have w: "wrap64 (now - ts) = now - ts" by (intro wrap64_id) simp_all
  have n: "wrap64 (- (now - ts)) = - (now - ts)" if "now - ts < 0"
    using r that by (intro wrap64_id) (simp_all add: int64_min_def int64_max_def)
  show ?thesis using True n unfolding skew_exceeds_def w Let_def by auto
next
  case False
  have b: "2 ^ 63 \<le> now - ts" "now - ts < 2 ^ 64"
    using False assms by (simp_all add: int64_min_def int64_max_def)
  then have w: "wrap64 (now - ts) = now - ts - 2 ^ 64" by (intro wrap64_above) simp_all
  show ?thesis
  proof (cases "now - ts = 2 ^ 63")
    case True
    have "wrap64 (2 ^ 63) = - (2 ^ 63)" by (simp add: wrap64_def)
    then show ?thesis using True assms(5) unfolding skew_exceeds_def w Let_def by simp
  next
    case ne: False
    have "wrap64 (- (now - ts - 2 ^ 64)) = 2 ^ 64 - (now - ts)"
      using b ne by (subst wrap64_id) (simp_all add: int64_min_def int64_max_def)
    then have "skew_exceeds now ts tol \<longleftrightarrow> 2 ^ 64 - (now - ts) > tol"
      using b unfolding skew_exceeds_def w Let_def by simp
    moreover have "tol < 2 ^ 64 - (now - ts)" using assms by (simp add: int64_min_def)
    ultimately show ?thesis using b ne assms(6) by simp
  qed
qed



lemma verify_hub_iff:
  "VerifyHubSignature256 payload header secret = None \<longleftrightarrow>
     (\<exists>sig. TrimSpace header = ''sha256='' @ sig \<and> hex_decode sig = Some (hmac_sha256 secret payload))"
proof -
  have len: "length sig = 64" if "hex_decode sig = Some (hmac_sha256 secret payload)" for sig
    using hex_decode_length [OF that] by simp
  show ?thesis
    using len
    by (auto simp: VerifyHubSignature256_def hub_prefix_def HasPrefix_def prefix_def Let_def ConstantTimeCompare_eq
        split: option.splits if_splits)
qed


section \<open>Properties\<close>

text \<open>
  \<^bold>\<open>C12\<close>: soundness of the Stripe check. When \<^verbatim>\<open>VerifyStripe\<close> accepts, the header carried a timestamp
  that parses to the returned one and a \<^verbatim>\<open>v1\<close> value that is the hex form of the HMAC-SHA256,
  under the secret, of that timestamp, a dot and the payload; and where a tolerance is set
  the timestamp is within it of the clock (on either side), but for the one value \<open>now - 2^63\<close>
  at which the code's subtraction overflows.
\<close>

theorem VerifyStripe_sound:
  assumes "VerifyStripe now payload header secret tol = (ts, None)"
    and "0 \<le> now" and "now < 2 ^ 62" and "tol < 2 ^ 62"
  shows "\<exists>tsStr sigs sig. stripe_parts (SplitChar (CHR '','') header) [] [] = (tsStr, sigs)
    \<and> ParseInt64 tsStr = Some ts \<and> sig \<in> set sigs
    \<and> hex_decode sig = Some (hmac_sha256 secret (show_int ts @ ''.'' @ payload))
    \<and> (0 < tol \<longrightarrow> \<bar>now - ts\<bar> \<le> tol \<or> ts = now - 2 ^ 63)"
proof -
  obtain tsStr sigs where p: "stripe_parts (SplitChar (CHR '','') header) [] [] = (tsStr, sigs)" by force
  have acc: "ParseInt64 tsStr = Some ts" "list_ex (sig_matches (hmac_sha256 secret (show_int ts @ ''.'' @ payload))) sigs"
      "\<not> (0 < tol \<and> skew_exceeds now ts tol)"
    using assms(1) p by (auto simp: VerifyStripe_def Let_def split: if_splits option.splits)
  have "\<bar>now - ts\<bar> \<le> tol \<or> ts = now - 2 ^ 63" if "0 < tol"
    using acc(3) that ParseInt64_range [OF acc(1)] skew_exceeds_exact [OF assms(2,3) _ _ that assms(4), of ts] by auto
  moreover obtain sig where "sig \<in> set sigs" "hex_decode sig = Some (hmac_sha256 secret (show_int ts @ ''.'' @ payload))"
    using acc(2) by (auto simp: list_ex_iff sig_matches_iff)
  ultimately show ?thesis using p acc(1) by blast
qed

text \<open>
  \<^bold>\<open>C13\<close>: completeness of the Stripe check, with the tolerance window at the width of the code. A
  payload signed with the secret is accepted under the header Stripe sends exactly when the
  timestamp is within the tolerance of the clock, or is the single value \<open>now - 2^63\<close> whose
  difference to the clock overflows to the least int64, which is its own negation.
\<close>

theorem VerifyStripe_complete:
  assumes "0 \<le> now" and "now < 2 ^ 62" and "int64_min \<le> ts" and "ts \<le> int64_max" and "0 < tol" and "tol < 2 ^ 62"
  shows "VerifyStripe now payload
      (stripe_header ts (hex_encode (hmac_sha256 secret (show_int ts @ ''.'' @ payload)))) secret tol
    = (ts, if \<bar>now - ts\<bar> \<le> tol \<or> ts = now - 2 ^ 63 then None else Some ErrTimestampExpired)"
proof -
  let ?m = "hmac_sha256 secret (show_int ts @ ''.'' @ payload)"
  have ne: "stripe_header ts (hex_encode ?m) \<noteq> []" by (simp add: stripe_header_def)
  have "sig_matches ?m (hex_encode ?m)" by (simp add: sig_matches_iff)
  then show ?thesis
    using ne ParseInt64_show_int [OF assms(3,4)] skew_exceeds_exact [OF assms] assms(5)
    by (auto simp: VerifyStripe_def stripe_parts_header [OF refl] Let_def)
qed

theorem VerifyStripe_complete_witness:
  "VerifyStripe 1729012345 ''{}''
      (stripe_header 1729012000 (hex_encode (hmac_sha256 ''whsec'' (show_int 1729012000 @ ''.'' @ ''{}'')))) ''whsec'' 300
    = (1729012000, Some ErrTimestampExpired)
   \<and> VerifyStripe 1729012345 ''{}''
      (stripe_header 1729012300 (hex_encode (hmac_sha256 ''whsec'' (show_int 1729012300 @ ''.'' @ ''{}'')))) ''whsec'' 300
    = (1729012300, None)"
  using VerifyStripe_complete [of 1729012345 1729012000 300 "''{}''" "''whsec''"]
    VerifyStripe_complete [of 1729012345 1729012300 300 "''{}''" "''whsec''"]
  by (simp add: int64_min_def int64_max_def)

theorem VerifyStripe_sound_witness:
  "\<exists>tsStr sigs. stripe_parts (SplitChar (CHR '','')
      (stripe_header 7 (hex_encode (hmac_sha256 ''k'' (show_int 7 @ ''.'' @ ''p''))))) [] [] = (tsStr, sigs)
    \<and> ParseInt64 tsStr = Some 7"
proof -
  let ?m = "hmac_sha256 ''k'' (show_int 7 @ ''.'' @ ''p'')"
  have "sig_matches ?m (hex_encode ?m)" by (simp add: sig_matches_iff)
  then have "VerifyStripe 0 ''p'' (stripe_header 7 (hex_encode ?m)) ''k'' 300 = (7, None)"
    using ParseInt64_show_int [of 7] stripe_parts_header [of "hex_encode ?m" ?m 7] skew_exceeds_exact [of 0 7 300]
    by (simp add: VerifyStripe_def Let_def int64_min_def int64_max_def stripe_header_def)
  from VerifyStripe_sound [OF this] show ?thesis by auto
qed

text \<open>
  the GitHub style check decides exactly whether the header, up to surrounding white space,
  is \<^verbatim>\<open>sha256=\<close> followed by a hex form of the HMAC-SHA256 of the payload under the secret.
\<close>

theorem VerifyHubSignature256_iff:
  "VerifyHubSignature256 payload header secret = None \<longleftrightarrow>
     (\<exists>sig. TrimSpace header = ''sha256='' @ sig \<and> hex_decode sig = Some (hmac_sha256 secret payload))"
  by (rule verify_hub_iff)

end
