(* ===== verification/EventBus.thy ===== *)
theory EventBus
  imports ReconcileIds Hmac
begin

text \<open>
  The reconcile SDK with the HTTP emitter of \<^verbatim>\<open>sdk/events\<close> behind it: \<^verbatim>\<open>RegisterReconciler\<close> with
  \<^verbatim>\<open>WithEmitter(events.NewHTTPEmitter(...))\<close>. The author's state is paired with the requests that
  reached the event endpoint of the core, so that the properties say what a successful
  operation puts on the wire.
\<close>

section \<open>The HTTP emitter as an emitter of the SDK\<close>

text \<open>What the emitter meets on an emission (\<open>env\<close>) may depend on the requests sent before.\<close>

definition http_bus :: "http_emitter \<Rightarrow> (nat \<Rightarrow> emit_env) \<Rightarrow> ('u \<times> post_request list) emitter" where
  "http_bus h env ev us = (let (err, reqs) = Emit h (env (length (snd us))) ev in (err, fst us, snd us @ reqs))"

definition bus_url :: "http_emitter \<Rightarrow> string" where
  "bus_url h = TrimRightSlash (he_coreURL h) @ he_eventsPath h"

text \<open>A synthesized idempotency key is text when its parts are.\<close>

lemma hex_encode_utf8: "valid_utf8 (hex_encode s)"
  by (rule valid_utf8_ascii) (use hex_encode_chars in fastforce)

lemma dot_utf8: "valid_utf8 ''.''"
  by (rule valid_utf8_ascii) (simp add: byte_def)

lemma idempotency_key_utf8:
  "valid_utf8 p \<Longrightarrow> valid_utf8 r \<Longrightarrow> valid_utf8 v \<Longrightarrow> valid_utf8 i \<Longrightarrow> valid_utf8 (idempotency_key p r v i now)"
  unfolding idempotency_key_def Let_def by (intro valid_utf8_append hex_encode_utf8 dot_utf8)

lemma event_of_utf8:
  assumes "valid_utf8 (o_provider cfg)" "valid_utf8 res" "valid_utf8 v" "valid_utf8 rid" "valid_utf8 (o_instanceID cfg)"
    "valid_utf8 (er_InstanceID env)" "valid_utf8 (er_Idempotency env)"
  shows "valid_utf8 (ev_EventType (event_of res cfg env v rid obs w))" "valid_utf8 (ev_Provider (event_of res cfg env v rid obs w))"
    "valid_utf8 (ev_Resource (event_of res cfg env v rid obs w))" "valid_utf8 (ev_Verb (event_of res cfg env v rid obs w))"
    "valid_utf8 (ev_ResourceID (event_of res cfg env v rid obs w))" "valid_utf8 (ev_InstanceID (event_of res cfg env v rid obs w))"
    "valid_utf8 (ev_Idempotency (event_of res cfg env v rid obs w))"
  using assms by (auto simp: event_of_def intro!: valid_utf8_append dot_utf8 idempotency_key_utf8 simp del: append.simps)

text \<open>The body that the emitter posts for an event whose observed text is the JSON value \<open>v\<close>.\<close>

definition wire_event :: "mutation_event \<Rightarrow> string \<Rightarrow> json \<Rightarrow> json" where
  "wire_event ev now v = JObj
    [(''event_type'', JStr (ev_EventType ev)), (''provider'', JStr (ev_Provider ev)), (''resource'', JStr (ev_Resource ev)),
     (''verb'', JStr (ev_Verb ev)), (''resource_id'', JStr (ev_ResourceID ev)), (''instance_id'', JStr (ev_InstanceID ev)),
     (''idempotency'', JStr (ev_Idempotency ev)), (''observed'', v), (''emitted_at'', JStr now)]"


lemma Emit_posts:
  assumes "ev_EmittedAt ev = None" and "marshal_raw (ev_Observed ev) = Inr obs" and "denotes obs v" and "json_depth v < max_nesting_depth"
    and "valid_utf8 (ev_EventType ev)" "valid_utf8 (ev_Provider ev)" "valid_utf8 (ev_Resource ev)" "valid_utf8 (ev_Verb ev)"
      "valid_utf8 (ev_ResourceID ev)" "valid_utf8 (ev_InstanceID ev)" "valid_utf8 (ev_Idempotency ev)" "valid_utf8 (ee_now E)"
    and "ee_build E (bus_url h) = None" and "\<forall>k. ee_cancelled E k = None"
    and "int n < he_maxRetries h" and "\<not> transient (ee_post E n)" and "\<forall>j < n. transient (ee_post E j)"
  shows "\<exists>post. snd (Emit h E ev) = replicate (Suc n) (emit_request h (bus_url h) post)
      \<and> json_parse post = Some (wire_event ev (ee_now E) v)"
    and "fst (Emit h E ev) = None \<longleftrightarrow> accepted (ee_post E n)"
proof -
  let ?e = "ev\<lparr>ev_EmittedAt := Some (ee_now E)\<rparr>"
  obtain post where post: "marshal_event ?e = Inr post" "json_parse post = Some (wire_event ev (ee_now E) v)"
    using marshal_event_json [of ?e "ee_now E" obs v] assms(2-12) by (auto simp: wire_event_def)
  then have "marshal_event (if ev_EmittedAt ev = None then ?e else ev) = Inr post" using assms(1) by simp
  from Emit_retry_policy [OF this assms(13) [unfolded bus_url_def] assms(14-17)]
  show "\<exists>post. snd (Emit h E ev) = replicate (Suc n) (emit_request h (bus_url h) post)
      \<and> json_parse post = Some (wire_event ev (ee_now E) v)" "fst (Emit h E ev) = None \<longleftrightarrow> accepted (ee_post E n)"
    using post(2) by (auto simp: bus_url_def)
qed

lemma event_of_fields [simp]:
  "ev_EmittedAt (event_of res cfg env v rid obs w) = None" "ev_Observed (event_of res cfg env v rid obs w) = Some obs"
  by (simp_all add: event_of_def)

lemma verbs_utf8: "valid_utf8 VerbEnsured" "valid_utf8 VerbDestroyed"
  by (rule valid_utf8_ascii, simp add: VerbEnsured_def VerbDestroyed_def byte_def)+


section \<open>Properties\<close>

text \<open>
  \<^bold>\<open>C6\<close>: from the reconciler to the event bus. After \<^verbatim>\<open>RegisterReconciler\<close> with an HTTP emitter, a
  successful \<^verbatim>\<open>ensure_X\<close> is answered with the encoded observed state, and it posted to the
  core's event endpoint, with the emitter's token, the same request once per attempt up to the
  first attempt whose outcome is not transient: its body is the JSON object of the one event, with
  the observed state as a JSON value. If that attempt was not a 2xx, one warning was logged;
  the answer is the same.
\<close>

theorem ensured_event_reaches_core:
  assumes "RegisterReconciler ty a res rty r opts sdk = Inr sdk'"
    and "cfg = fold apply_option opts no_options" and "o_emitter cfg = Some (http_bus h env)"
    and "''ensure_'' @ norm_name res \<notin> norm_name ` set (o_legacyNames cfg)"
    and "decode_request (bytes_of (d_Body d)) = Some req" and "requested_op req = ''ensure_'' @ norm_name res"
    and "parse_desired ty req = Inr desired" and "r_Ensure r desired (w_user w) = (Inr observed, u)"
    and "marshal_O ty observed = Inr body"
    and "rid = inferResourceID (reflect_O ty observed) body (norm_name res)"
    and "ev = event_of (norm_name res) cfg req VerbEnsured rid body (w\<lparr>w_user := u\<rparr>)" and "E = env (length (snd u))"
    and "marshal_raw (Some body) = Inr obs" and "denotes obs v" and "json_depth v < max_nesting_depth"
    and "valid_utf8 (o_provider cfg)" and "valid_utf8 (norm_name res)" and "valid_utf8 rid" and "valid_utf8 (o_instanceID cfg)"
    and "valid_utf8 (er_InstanceID req)" and "valid_utf8 (er_Idempotency req)" and "valid_utf8 (ee_now E)"
    and "ee_build E (bus_url h) = None" and "\<forall>k. ee_cancelled E k = None"
    and "int n < he_maxRetries h" and "\<not> transient (ee_post E n)" and "\<forall>j < n. transient (ee_post E j)"
  shows "\<exists>w' post x. Dispatch sdk' a d w = (Inr (Some body, application_json), w')
    \<and> w_user w' = (fst u, snd u @ replicate (Suc n) (emit_request h (bus_url h) post))
    \<and> json_parse post = Some (wire_event ev (ee_now E) v)
    \<and> w_warns w' = w_warns w @ (if accepted (ee_post E n) then [] else [x])"
proof -
  let ?w = "w\<lparr>w_user := u\<rparr>" and ?ec = "emit_context (norm_name res) cfg"
  let ?w' = "emit ?ec req VerbEnsured rid body ?w"
  have run: "Dispatch sdk' a d w = (Inr (Some body, application_json), ?w')"
    using Dispatch_ensure_run [OF assms(1,2,4-9)] assms(10) by simp
  have obs: "marshal_raw (ev_Observed ev) = Inr obs" "ev_EmittedAt ev = None" using assms(11,13) by simp_all
  note utf8 = event_of_utf8 [OF assms(16,17) verbs_utf8(1) assms(18-21), of body ?w, folded assms(11)]
  note posts = Emit_posts [OF obs(2,1) assms(14,15) utf8 assms(22-27)]
  obtain post where post: "snd (Emit h E ev) = replicate (Suc n) (emit_request h (bus_url h) post)"
      "json_parse post = Some (wire_event ev (ee_now E) v)" using posts(1) by blast
  have em: "http_bus h env ev u = (fst (Emit h E ev), fst u, snd u @ snd (Emit h E ev))"
    by (simp add: http_bus_def assms(12) split: prod.split)
  have "w_user ?w' = (fst u, snd u @ snd (Emit h E ev))"
    using emit_with_emitter(2) [OF assms(3), of "norm_name res" req VerbEnsured rid body ?w] em by (simp add: assms(11) [symmetric])
  moreover obtain x where "w_warns ?w' = w_warns w @ (if accepted (ee_post E n) then [] else [x])"
    using emit_warns [OF assms(3), of "norm_name res" req VerbEnsured rid body ?w] em posts(2) by (auto simp: assms(11) [symmetric])
  ultimately show ?thesis using run post by (intro exI [of _ ?w'] exI [of _ post] exI [of _ x]) simp
qed

text \<open>An adapter whose events go to a core that answers 503 once and then accepts.\<close>

definition bus_emitter :: http_emitter where
  "bus_emitter = NewHTTPEmitter (\<lambda>_. ''http://core'') []"

definition bus_env :: emit_env where
  "bus_env = \<lparr>ee_now = ''2025-01-01T00:00:00Z'', ee_build = (\<lambda>_. None), ee_cancelled = (\<lambda>_. None),
     ee_post = (\<lambda>k. if k = 0 then Response 503 [] else Response 202 [])\<rparr>"

definition bus_opts :: "(unit \<times> post_request list) opt list" where
  "bus_opts = [WithEmitter (Some (http_bus bus_emitter (\<lambda>_. bus_env))), WithProvider ''okta'']"

definition bus_reconciler :: "(string, string, unit \<times> post_request list) reconciler" where
  "bus_reconciler = \<lparr>r_Ensure = (\<lambda>d u. (Inr ''{}'', u)), r_Observe = (\<lambda>f u. (Inr (Some [], []), u)),
     r_Destroy = (\<lambda>ref u. (None, u)), r_DestroyWithDesired = None\<rparr>"

definition bus_sdk :: "(unit \<times> post_request list) sdk" where
  "bus_sdk = \<lparr>sdk_adapters = (\<lambda>_. New \<lparr>cfg_Provider = ''okta'', cfg_IntegrationType = [], cfg_Version = [],
      cfg_DefaultTimeout = 0, cfg_Concurrency = 0\<rparr>),
     dispatchTables = Map.empty, missingEmitterWarned = (\<lambda>_. False), sdk_log = []\<rparr>"

definition bus_world :: "(unit \<times> post_request list) world" where
  "bus_world = \<lparr>w_user = ((), []), w_clock = (\<lambda>i. int i), w_ticks = 0, w_emits = [], w_warns = []\<rparr>"

definition bus_delivery :: "string \<Rightarrow> (unit \<times> post_request list) world delivery" where
  "bus_delivery body = \<lparr>d_Endpoint = ''execute'', d_Body = Some body, d_ContentType = application_json, d_Headers = [],
     d_CorrelationID = [], d_ReplyTo = [], d_AckFn = None, d_NackFn = None, d_ReplyFn = None\<rparr>"

lemma bus_reg: "\<exists>sdk'. RegisterReconciler ex_types 0 ''user'' ''users'' bus_reconciler bus_opts bus_sdk = Inr sdk'"
  by (simp add: RegisterReconciler_def Let_def ex_norm)

lemma bus_cfg:
  "o_legacyNames (fold apply_option bus_opts no_options) = []" "o_provider (fold apply_option bus_opts no_options) = ''okta''"
  "o_instanceID (fold apply_option bus_opts no_options) = []"
  "o_emitter (fold apply_option bus_opts no_options) = Some (http_bus bus_emitter (\<lambda>_. bus_env))"
  by (simp_all add: bus_opts_def no_options_def)

lemma empty_object: "marshal_raw (Some ''{}'') = Inr ''{}''" "denotes ''{}'' (JObj [])"
proof -
  show "marshal_raw (Some ''{}'') = Inr ''{}''" by code_simp
  show "denotes ''{}'' (JObj [])" using denotes_object [of "[]"] by (simp add: json_object_def)
qed

theorem ensured_event_reaches_core_witness:
  "\<exists>sdk' w' post. RegisterReconciler ex_types 0 ''user'' ''users'' bus_reconciler bus_opts bus_sdk = Inr sdk'
    \<and> Dispatch sdk' 0 (bus_delivery (op_body ''ensure_user'')) bus_world = (Inr (Some ''{}'', application_json), w')
    \<and> w_user w' = ((), replicate 2 (emit_request bus_emitter (bus_url bus_emitter) post)) \<and> w_warns w' = []"
proof -
  obtain sdk' where reg: "RegisterReconciler ex_types 0 ''user'' ''users'' bus_reconciler bus_opts bus_sdk = Inr sdk'"
    using bus_reg by blast
  have rid: "inferResourceID (reflect_O ex_types t) ''{}'' ''user'' = []" for t
    by (simp add: ex_types_def) code_simp
  have body: "bytes_of (d_Body (bus_delivery b)) = b" for b by (simp add: bus_delivery_def)
  have req: "er_InstanceID (ex_request op) = []" "er_Idempotency (ex_request op) = []" for op by (simp_all add: ex_request_def)
  have ascii: "valid_utf8 ''okta''" "valid_utf8 ''user''" "valid_utf8 (ee_now bus_env)"
    by (rule valid_utf8_ascii, simp add: bus_env_def byte_def)+
  have env: "ee_build bus_env url = None" "ee_cancelled bus_env k = None" "accepted (ee_post bus_env 1)"
    "\<not> transient (ee_post bus_env 1)" "transient (ee_post bus_env 0)" for url k
    by (simp_all add: bus_env_def accepted_def transient_def)
  have tries: "int (Suc 0) < he_maxRetries bus_emitter"
    by (simp add: bus_emitter_def NewHTTPEmitter_def Let_def DefaultMaxRetries_def DefaultRetryBackoff_def DefaultEventsPath_def)
  have start: "w_user bus_world = ((), [])" "w_warns bus_world = []" by (simp_all add: bus_world_def)
  have ens: "r_Ensure bus_reconciler x u = (Inr ''{}'', u)" for x u by (simp add: bus_reconciler_def)
  have "Suc 0 < max_nesting_depth" by (simp add: max_nesting_depth_def)
  note facts = this env [unfolded One_nat_def] tries [simplified]
  show ?thesis
    using ensured_event_reaches_core [where r = bus_reconciler and d = "bus_delivery (op_body ''ensure_user'')" and n = "Suc 0"
        and w = bus_world and observed = "''{}''" and u = "((), [])" and req = "ex_request ''ensure_user''" and E = bus_env
        and desired = "[]" and body = "''{}''", OF reg refl bus_cfg(4) _ _ _ _ _ _ refl refl _ empty_object] reg
    by (simp add: bus_cfg ex_norm ex_decode ex_op ex_payload body req rid ascii facts start ens valid_utf8_ascii numeral_2_eq_2) blast
qed

text \<open>
  \<^bold>\<open>C32\<close>: a destroyed event that is lost. When the reference of a destroyed resource is ASCII with a
  control character other than backspace, tab, newline, form feed and carriage return (Go's \<^verbatim>\<open>%q\<close> writes
  those as JSON does, the others, DEL among them, not), the operation is answered as deleted but
  the HTTP emitter refuses the event that the SDK built: not a single request is sent,
  whatever the bus would have answered, and all that remains is one warning.
\<close>

theorem destroyed_event_lost:
  assumes "RegisterReconciler ty a res rty r opts sdk = Inr sdk'"
    and "cfg = fold apply_option opts no_options" and "o_emitter cfg = Some (http_bus h env)"
    and "''destroy_'' @ norm_name res \<notin> norm_name ` set (o_legacyNames cfg)"
    and "decode_request (bytes_of (d_Body d)) = Some req" and "requested_op req = ''destroy_'' @ norm_name res"
    and "destroy_ref req (norm_name res) = Some ref" and "run_destroy ty r ref req (w_user w) = (None, u)"
    and "\<forall>c \<in> set ref. byte c < 128" and "\<exists>c \<in> set ref. \<not> json_safe c"
  shows "\<exists>w' x. Dispatch sdk' a d w = (Inr (Some deleted_body, application_json), w') \<and> w_user w' = u
    \<and> w_warns w' = w_warns w @ [x]"
proof -
  let ?w = "w\<lparr>w_user := u\<rparr>"
  let ?ev = "event_of (norm_name res) cfg req VerbDestroyed ref (destroyed_payload ref) ?w"
  have "json_parse (destroyed_payload ref) = None" using destroyed_payload_parse [OF assms(9)] assms(10) by auto
  then obtain e where "marshal_raw (Some (destroyed_payload ref)) = Inl e" by (auto simp: marshal_raw_def)
  then obtain err where "Emit h (env (length (snd u))) ?ev = (Some err, [])"
    by (auto simp: Emit_def marshal_event_def event_of_def)
  then have em: "http_bus h env ?ev u = (Some err, u)" by (simp add: http_bus_def)
  note run = Dispatch_destroy_run [OF assms(1,2,4-8)]
  obtain x where "w_warns (emit (emit_context (norm_name res) cfg) req VerbDestroyed ref (destroyed_payload ref) ?w)
      = w_warns w @ [x]"
    using emit_warns [OF assms(3), of "norm_name res" req VerbDestroyed ref "destroyed_payload ref" ?w] em by auto
  then show ?thesis
    using run emit_with_emitter(2) [OF assms(3), of "norm_name res" req VerbDestroyed ref "destroyed_payload ref" ?w] em by simp
qed

text \<open>A destroy request whose reference has a control character, written as a JSON escape.\<close>

definition lost_input :: string where
  "lost_input = ''{'' @ [CHR 0x22] @ ''ref'' @ [CHR 0x22] @ '':'' @ [CHR 0x22] @ ''a'' @ [CHR 0x5C] @ ''u0001'' @ [CHR 0x22] @ ''}''"

definition lost_body :: string where
  "lost_body = ''{'' @ [CHR 0x22] @ ''operation'' @ [CHR 0x22] @ '':'' @ [CHR 0x22] @ ''destroy_user'' @ [CHR 0x22] @ '',''
     @ [CHR 0x22] @ ''input'' @ [CHR 0x22] @ '':'' @ lost_input @ ''}''"

definition lost_request :: executeRequest where
  "lost_request = (ex_request ''destroy_user'')\<lparr>er_Input := lost_input\<rparr>"

lemma lost_decode: "decode_request lost_body = Some lost_request"
  by code_simp

lemma lost_ref: "destroy_ref lost_request ''user'' = Some [CHR ''a'', CHR 0x01]"
  by code_simp

lemma lost_op: "requested_op lost_request = ''destroy_user''"
  using ex_op(2) by (simp add: lost_request_def requested_op_def Let_def split: if_splits)

theorem destroyed_event_lost_witness:
  "\<exists>sdk' w' x. RegisterReconciler ex_types 0 ''user'' ''users'' bus_reconciler bus_opts bus_sdk = Inr sdk'
    \<and> Dispatch sdk' 0 (bus_delivery lost_body) bus_world = (Inr (Some deleted_body, application_json), w')
    \<and> w_user w' = ((), []) \<and> w_warns w' = [x]"
proof -
  obtain sdk' where reg: "RegisterReconciler ex_types 0 ''user'' ''users'' bus_reconciler bus_opts bus_sdk = Inr sdk'"
    using bus_reg by blast
  have "run_destroy ex_types bus_reconciler ref req u = (None, u)" for ref req u by (simp add: run_destroy_def bus_reconciler_def)
  then show ?thesis
    using destroyed_event_lost [where r = bus_reconciler and d = "bus_delivery lost_body" and w = bus_world and u = "((), [])"
        and ref = "[CHR ''a'', CHR 0x01]", OF reg refl bus_cfg(4) _ _ _ _ _ _ _, of lost_request] reg
    by (simp add: bus_cfg ex_norm lost_decode lost_op lost_ref bus_delivery_def bus_world_def byte_def json_safe_def)
qed

end
