(* ===== verification/Webhook.thy ===== *)
theory Webhook
  imports Rpc Hmac "HOL-Library.AList"
begin

text \<open>
  Package \<^verbatim>\<open>webhookhttp\<close> (\<^verbatim>\<open>server.go\<close>, \<^verbatim>\<open>helpers.go\<close>): the route table of the webhook server, the
  processing of one delivery, \<^verbatim>\<open>ListenAndServe\<close> (the regrouping of the table by path, the mux with
  its dispatch by method, the server it starts and how it ends), and the signature helpers.
  Route paths are exact (no ServeMux wildcards or subtrees); the author's handler works on a
  state \<open>'u\<close>. A Go map is an association list with distinct keys, whose order stands for the
  order in which \<^verbatim>\<open>range\<close> visits it.
\<close>

section \<open>Configuration and routes\<close>

definition DefaultMaxBodyBytes :: int where "DefaultMaxBodyBytes = 65536"

definition ErrDuplicate :: goerr where "ErrDuplicate = Sentinel ''webhookhttp: duplicate delivery''"

definition ErrServerClosed :: goerr where "ErrServerClosed = Sentinel ''http: Server closed''"

record server_config =
  sc_Addr :: string
  sc_TLS :: bool
  sc_MaxBodyBytes :: int
  sc_ReadTimeout :: int
  sc_WriteTimeout :: int
  sc_IdleTimeout :: int

record web_request =
  wr_method :: string
  wr_path :: string
  wr_header :: "string \<Rightarrow> string"
  wr_body :: "goerr + string"

record web_delivery =
  wd_Body :: string
  wd_Headers :: "string \<Rightarrow> string"
  wd_IdempotencyKey :: string

type_synonym 'u web_handler = "web_delivery \<Rightarrow> 'u \<Rightarrow> goerr option \<times> 'u"

record handlerConfig =
  hc_verify :: "(web_request \<Rightarrow> string \<Rightarrow> goerr option) option"
  hc_idempotencyFn :: "(web_request \<Rightarrow> string \<Rightarrow> string) option"
  hc_maxBodyBytes :: int

datatype handler_option =
    WithVerifyFunc "(web_request \<Rightarrow> string \<Rightarrow> goerr option) option"
  | WithIdempotencyKey "(web_request \<Rightarrow> string \<Rightarrow> string) option"
  | WithMaxBodyBytes int

fun apply_handler_option :: "handler_option \<Rightarrow> handlerConfig \<Rightarrow> handlerConfig" where
  "apply_handler_option (WithVerifyFunc f) c = c\<lparr>hc_verify := f\<rparr>"
| "apply_handler_option (WithIdempotencyKey f) c = c\<lparr>hc_idempotencyFn := f\<rparr>"
| "apply_handler_option (WithMaxBodyBytes n) c = c\<lparr>hc_maxBodyBytes := n\<rparr>"

record 'u route =
  rt_handler :: "'u web_handler"
  rt_opts :: handlerConfig

text \<open>Routes by method, then path.\<close>

record 'u server =
  srv_cfg :: server_config
  srv_routes :: "(string \<times> (string \<times> 'u route) list) list"

definition config_defaults :: "server_config \<Rightarrow> server_config" where
  "config_defaults cfg =
     (let c1 = (if sc_MaxBodyBytes cfg \<le> 0 then cfg\<lparr>sc_MaxBodyBytes := DefaultMaxBodyBytes\<rparr> else cfg);
          c2 = (if sc_ReadTimeout c1 = 0 then c1\<lparr>sc_ReadTimeout := 10 * second\<rparr> else c1);
          c3 = (if sc_WriteTimeout c2 = 0 then c2\<lparr>sc_WriteTimeout := 10 * second\<rparr> else c2)
      in if sc_IdleTimeout c3 = 0 then c3\<lparr>sc_IdleTimeout := 30 * second\<rparr> else c3)"

definition New_server :: "server_config \<Rightarrow> 'u server" where
  "New_server cfg = \<lparr>srv_cfg = config_defaults cfg, srv_routes = []\<rparr>"

definition make_route :: "server_config \<Rightarrow> 'u web_handler \<Rightarrow> handler_option list \<Rightarrow> 'u route" where
  "make_route cfg h opts =
     (let hc = fold apply_handler_option opts
                 \<lparr>hc_verify = None, hc_idempotencyFn = None, hc_maxBodyBytes = sc_MaxBodyBytes cfg\<rparr>;
          hc' = (if hc_maxBodyBytes hc \<le> 0 then hc\<lparr>hc_maxBodyBytes := sc_MaxBodyBytes cfg\<rparr> else hc)
      in \<lparr>rt_handler = h, rt_opts = hc'\<rparr>)"

text \<open>\<^verbatim>\<open>m[a][b] = r\<close> on a map of maps, with the inner map made when it is missing.\<close>

definition inner :: "'a \<Rightarrow> ('a \<times> ('b \<times> 'r) list) list \<Rightarrow> ('b \<times> 'r) list" where
  "inner a m = (case map_of m a of None \<Rightarrow> [] | Some x \<Rightarrow> x)"

definition put2 :: "'a \<Rightarrow> 'b \<Rightarrow> 'r \<Rightarrow> ('a \<times> ('b \<times> 'r) list) list \<Rightarrow> ('a \<times> ('b \<times> 'r) list) list" where
  "put2 a b r m = AList.update a (AList.update b r (inner a m)) m"

definition put_route :: "string \<times> string \<Rightarrow> 'u route \<Rightarrow> 'u server \<Rightarrow> 'u server" where
  "put_route mp r s = s\<lparr>srv_routes := put2 (fst mp) (snd mp) r (srv_routes s)\<rparr>"

definition Handle :: "string \<Rightarrow> string \<Rightarrow> 'u web_handler \<Rightarrow> handler_option list \<Rightarrow> 'u server \<Rightarrow> 'u server" where
  "Handle method path h opts s = put_route (method, path) (make_route (srv_cfg s) h opts) s"

definition look_route :: "'u server \<Rightarrow> string \<times> string \<Rightarrow> 'u route option" where
  "look_route s mp = map_of (inner (fst mp) (srv_routes s)) (snd mp)"

lemma inner_put2: "map_of (inner a' (put2 a b r m)) b' = (if a' = a \<and> b' = b then Some r else map_of (inner a' m) b')"
  by (simp add: inner_def put2_def update_conv')

interpretation routes: registry look_route put_route "\<lambda>mp. mp"
  by unfold_locales (auto simp: look_route_def put_route_def inner_put2)

text \<open>Go maps have one entry per key, on both levels.\<close>

definition proper :: "('a \<times> ('b \<times> 'r) list) list \<Rightarrow> bool" where
  "proper m \<longleftrightarrow> distinct (map fst m) \<and> (\<forall>(a, x) \<in> set m. distinct (map fst x))"

lemma update_members: "(k, x) \<in> set (AList.update a v m) \<Longrightarrow> (k, x) = (a, v) \<or> (k, x) \<in> set m"
  by (induction m) (auto split: if_splits)

lemma proper_put2: "proper m \<Longrightarrow> proper (put2 a b r m)"
proof -
  assume m: "proper m"
  have "distinct (map fst (inner a m))"
    using m by (auto simp: inner_def proper_def dest: map_of_SomeD split: option.split)
  then show ?thesis
    using m by (auto simp: put2_def proper_def distinct_update dest!: update_members)
qed


section \<open>One delivery\<close>

record response =
  resp_status :: nat
  resp_headers :: headers
  resp_body :: string

text \<open>\<^verbatim>\<open>http.Error\<close>, and \<^verbatim>\<open>w.WriteHeader\<close> alone.\<close>

definition http_error :: "string \<Rightarrow> nat \<Rightarrow> response" where
  "http_error msg code = \<lparr>resp_status = code, resp_headers = [(''Content-Type'', ''text/plain; charset=utf-8''),
     (''X-Content-Type-Options'', ''nosniff'')], resp_body = msg @ [CHR 0x0A]\<rparr>"

definition write_header :: "nat \<Rightarrow> response" where
  "write_header code = \<lparr>resp_status = code, resp_headers = [], resp_body = []\<rparr>"

text \<open>\<^verbatim>\<open>io.ReadAll(http.MaxBytesReader(w, req.Body, limit))\<close>.\<close>

definition read_limited :: "int \<Rightarrow> web_request \<Rightarrow> string option" where
  "read_limited limit req = (case wr_body req of Inl _ \<Rightarrow> None
     | Inr b \<Rightarrow> if int (length b) \<le> limit then Some b else None)"

definition serveRoute :: "web_request \<Rightarrow> 'u route \<Rightarrow> 'u \<Rightarrow> response \<times> 'u" where
  "serveRoute req r u =
     (case read_limited (hc_maxBodyBytes (rt_opts r)) req of
        None \<Rightarrow> (http_error ''body too large or unreadable'' 413, u)
      | Some body \<Rightarrow>
         (case (case hc_verify (rt_opts r) of None \<Rightarrow> None | Some v \<Rightarrow> v req body) of
            Some err \<Rightarrow> (http_error ''signature verification failed'' 401, u)
          | None \<Rightarrow>
             (let d = \<lparr>wd_Body = body, wd_Headers = wr_header req,
                       wd_IdempotencyKey = (case hc_idempotencyFn (rt_opts r) of None \<Rightarrow> [] | Some f \<Rightarrow> f req body)\<rparr>
              in case rt_handler r d u of
                   (None, u1) \<Rightarrow> (write_header 202, u1)
                 | (Some err, u1) \<Rightarrow>
                     if errors_is err ErrDuplicate then (write_header 200, u1)
                     else (case errors_as_terminal err of
                             Some te \<Rightarrow> (http_error (error_text te) 400, u1)
                           | None \<Rightarrow> (http_error ''internal'' 500, u1)))))"


section \<open>ListenAndServe\<close>

text \<open>The routes regrouped: path, then method.\<close>

fun group_path :: "string \<Rightarrow> (string \<times> 'u route) list \<Rightarrow> (string \<times> (string \<times> 'u route) list) list
    \<Rightarrow> (string \<times> (string \<times> 'u route) list) list" where
  "group_path method [] paths = paths"
| "group_path method ((path, r) # byPath) paths = group_path method byPath (put2 path method r paths)"

fun group_paths :: "(string \<times> (string \<times> 'u route) list) list \<Rightarrow> (string \<times> (string \<times> 'u route) list) list
    \<Rightarrow> (string \<times> (string \<times> 'u route) list) list" where
  "group_paths [] paths = paths"
| "group_paths ((method, byPath) # routes) paths = group_paths routes (group_path method byPath paths)"

fun allow_header :: "string \<Rightarrow> string list \<Rightarrow> string" where
  "allow_header allow [] = allow"
| "allow_header allow (m # ms) = allow_header ((if allow \<noteq> [] then allow @ '', '' else allow) @ m) ms"

definition serve_path :: "(string \<times> 'u route) list \<Rightarrow> web_request \<Rightarrow> 'u \<Rightarrow> response \<times> 'u" where
  "serve_path byMethod req u =
     (case map_of byMethod (wr_method req) of
        None \<Rightarrow>
          (let e = http_error ''method not allowed'' 405
           in (e\<lparr>resp_headers := (''Allow'', allow_header [] (map fst byMethod)) # resp_headers e\<rparr>, u))
      | Some r \<Rightarrow> serveRoute req r u)"

text \<open>The \<^verbatim>\<open>http.Server\<close> that is started; its handler is the mux on the regrouped routes.\<close>

record 'u http_server =
  ws_Addr :: string
  ws_Handler :: "web_request \<Rightarrow> 'u \<Rightarrow> response \<times> 'u"
  ws_TLS :: bool
  ws_ReadTimeout :: int
  ws_WriteTimeout :: int
  ws_IdleTimeout :: int

definition serve_request :: "'u server \<Rightarrow> web_request \<Rightarrow> 'u \<Rightarrow> response \<times> 'u" where
  "serve_request s req u =
     (case map_of (group_paths (srv_routes s) []) (wr_path req) of
        None \<Rightarrow> (http_error ''404 page not found'' 404, u)
      | Some byMethod \<Rightarrow> serve_path byMethod req u)"

definition build_server :: "'u server \<Rightarrow> 'u http_server" where
  "build_server s = \<lparr>ws_Addr = sc_Addr (srv_cfg s), ws_Handler = serve_request s, ws_TLS = sc_TLS (srv_cfg s),
     ws_ReadTimeout = sc_ReadTimeout (srv_cfg s), ws_WriteTimeout = sc_WriteTimeout (srv_cfg s),
     ws_IdleTimeout = sc_IdleTimeout (srv_cfg s)\<rparr>"

text \<open>
  What ends the server first: the context, after which the serving goroutine may or may not
  end within the time it is given, or the goroutine's error. The result is the returned error
  with what was done: the server started, with or without TLS, shut down with a deadline, and
  the goroutine waited for.
\<close>

datatype serve_end = CtxEnded "goerr option" | ServeErr goerr

datatype 'u serve_action = ServeTLS "'u http_server" | ServePlain "'u http_server" | Shutdown int | Drained goerr | GaveUp int

definition ListenAndServe :: "'u server \<Rightarrow> serve_end \<Rightarrow> goerr option \<times> 'u serve_action list" where
  "ListenAndServe s e =
     (let srv = build_server s; serve = (if sc_TLS (srv_cfg s) then ServeTLS srv else ServePlain srv)
      in case e of
           CtxEnded late \<Rightarrow>
             (None, [serve, Shutdown (5 * second), case late of Some err \<Rightarrow> Drained err | None \<Rightarrow> GaveUp (6 * second)])
         | ServeErr err \<Rightarrow>
             (if errors_is err ErrServerClosed then None else Some (Wrap ''webhookhttp: serve: '' err []), [serve]))"


section \<open>Signature helpers\<close>

definition ParseHMACSHA256Signature :: "string \<Rightarrow> string \<times> bool" where
  "ParseHMACSHA256Signature header0 =
     (let header = TrimSpace header0
      in if \<not> HasPrefix header hub_prefix then ([], False)
         else let hexPart = drop (length hub_prefix) header
              in if length hexPart \<noteq> 64 then ([], False) else (hexPart, True))"

definition VerifyHMACSHA256Header :: "string \<Rightarrow> string \<Rightarrow> string \<Rightarrow> goerr option" where
  "VerifyHMACSHA256Header body header secret = VerifyHubSignature256 body header secret"


section \<open>Regrouping\<close>

lemma group_path_lookup:
  assumes "distinct (map fst byPath)"
  shows "map_of (inner p (group_path m byPath paths)) m' =
    (if m' = m \<and> map_of byPath p \<noteq> None then map_of byPath p else map_of (inner p paths) m')"
  using assms
proof (induction m byPath paths rule: group_path.induct)
  case (2 m path r byPath paths)
  have "map_of byPath path = None" "distinct (map fst byPath)" using "2.prems" by (auto simp: map_of_eq_None_iff)
  then show ?case using "2.IH" by (cases "p = path") (auto simp: inner_put2)
qed simp

lemma group_paths_lookup:
  assumes "proper routes"
  shows "map_of (inner p (group_paths routes paths)) m =
    (case map_of (inner m routes) p of Some r \<Rightarrow> Some r | None \<Rightarrow> map_of (inner p paths) m)"
  using assms
proof (induction routes paths rule: group_paths.induct)
  case (2 meth byPath routes paths)
  have d: "distinct (map fst byPath)" "proper routes" "map_of routes meth = None"
    using "2.prems" by (auto simp: proper_def map_of_eq_None_iff)
  have "inner meth routes = []" "inner m ((meth, byPath) # routes) = (if m = meth then byPath else inner m routes)"
    using d(3) by (simp_all add: inner_def)
  then show ?case using "2.IH" [OF d(2)] group_path_lookup [OF d(1), of p meth paths m] by (auto split: option.split)
qed (simp add: inner_def)

lemma group_path_inhabited: "(\<forall>(p, x) \<in> set paths. x \<noteq> []) \<Longrightarrow> \<forall>(p, x) \<in> set (group_path m byPath paths). x \<noteq> []"
proof (induction m byPath paths rule: group_path.induct)
  case (2 meth path r byPath paths)
  have "x \<noteq> []" if "(p, x) \<in> set (put2 path meth r paths)" for p x
  proof -
    have "x = AList.update meth r (inner path paths) \<or> (p, x) \<in> set paths"
      using update_members [OF that [unfolded put2_def]] by blast
    then show ?thesis using "2.prems" by (elim disjE) (simp, blast)
  qed
  then have "\<forall>(p, x) \<in> set (put2 path meth r paths). x \<noteq> []" by blast
  then show ?case using "2.IH" by simp
qed simp

lemma group_paths_inhabited: "(\<forall>(p, x) \<in> set paths. x \<noteq> []) \<Longrightarrow> \<forall>(p, x) \<in> set (group_paths routes paths). x \<noteq> []"
proof (induction routes paths rule: group_paths.induct)
  case (2 meth byPath routes paths)
  show ?case using "2.IH" [OF group_path_inhabited [OF "2.prems"]] by simp
qed simp

lemma group_path_proper: "proper paths \<Longrightarrow> proper (group_path m byPath paths)"
  by (induction m byPath paths rule: group_path.induct) (simp_all add: proper_put2)

lemma group_paths_proper: "proper paths \<Longrightarrow> proper (group_paths routes paths)"
  by (induction routes paths rule: group_paths.induct) (simp_all add: group_path_proper)

text \<open>A server as \<^verbatim>\<open>New\<close> and \<^verbatim>\<open>Handle\<close> build it.\<close>

inductive built :: "'u server \<Rightarrow> bool" where
  built_new: "built (New_server cfg)"
| built_handle: "built s \<Longrightarrow> built (Handle method path h opts s)"

lemma built_proper: "built s \<Longrightarrow> proper (srv_routes s)"
  by (induction rule: built.induct) (simp_all add: New_server_def proper_def Handle_def put_route_def proper_put2 [unfolded proper_def])

lemma built_limit: "built s \<Longrightarrow> 0 < sc_MaxBodyBytes (srv_cfg s)"
  by (induction rule: built.induct)
    (simp_all add: New_server_def config_defaults_def DefaultMaxBodyBytes_def Handle_def put_route_def Let_def)


text \<open>The mux follows the route table.\<close>

lemma table_is_routed:
  assumes "built s"
  shows "\<exists>methods. distinct methods \<and> set methods = {m. look_route s (m, wr_path req) \<noteq> None}
    \<and> ws_Handler (build_server s) req u = (case look_route s (wr_method req, wr_path req) of
         Some r \<Rightarrow> serveRoute req r u
       | None \<Rightarrow> if methods = [] then (http_error ''404 page not found'' 404, u)
           else ((http_error ''method not allowed'' 405)\<lparr>resp_headers := (''Allow'', allow_header [] methods)
                    # resp_headers (http_error ''method not allowed'' 405)\<rparr>, u))"
proof -
  let ?G = "group_paths (srv_routes s) []"
  have look: "map_of (inner (wr_path req) ?G) m = look_route s (m, wr_path req)" for m
    using group_paths_lookup [OF built_proper [OF assms], of "wr_path req" "[]" m]
    by (simp add: look_route_def inner_def split: option.splits)
  show ?thesis
  proof (cases "map_of ?G (wr_path req)")
    case None
    then have "look_route s (m, wr_path req) = None" for m using look [of m] by (simp add: inner_def)
    then show ?thesis using None by (intro exI [of _ "[]"]) (simp add: build_server_def serve_request_def)
  next
    case (Some byMethod)
    then have mem: "(wr_path req, byMethod) \<in> set ?G" by (rule map_of_SomeD)
    have ne: "byMethod \<noteq> []" using group_paths_inhabited [of "[]" "srv_routes s"] mem by auto
    have "distinct (map fst byMethod)" using group_paths_proper [of "[]" "srv_routes s"] mem by (auto simp: proper_def)
    moreover have eq: "map_of byMethod m = look_route s (m, wr_path req)" for m using look [of m] Some by (simp add: inner_def)
    then have "set (map fst byMethod) = {m. look_route s (m, wr_path req) \<noteq> None}"
      by (simp flip: eq add: dom_map_of_conv_image_fst [symmetric] dom_def)
    ultimately show ?thesis
      using Some ne eq by (intro exI [of _ "map fst byMethod"])
        (simp add: build_server_def serve_request_def serve_path_def Let_def split: option.split)
  qed
qed

text \<open>A sequence of calls of \<^verbatim>\<open>Handle\<close>, each with method, path, handler and options, and the last for a key.\<close>

type_synonym 'u registration = "(string \<times> string) \<times> 'u web_handler \<times> handler_option list"

definition handle_all :: "'u registration list \<Rightarrow> 'u server \<Rightarrow> 'u server" where
  "handle_all regs s = fold (\<lambda>((m, p), h, opts). Handle m p h opts) regs s"

definition last_call :: "'u registration list \<Rightarrow> string \<times> string \<Rightarrow> ('u web_handler \<times> handler_option list) option" where
  "last_call regs = map_of (rev regs)"

lemma handle_all_built: "built (handle_all regs (New_server cfg))"
proof -
  have "built s \<Longrightarrow> built (handle_all regs s)" for s :: "'a server"
    by (induction regs arbitrary: s) (auto simp: handle_all_def intro: built_handle)
  then show ?thesis by (simp add: built_new)
qed

lemma handle_all_look:
  "look_route (handle_all regs (New_server cfg)) mp
     = map_option (\<lambda>(h, opts). make_route (config_defaults cfg) h opts) (last_call regs mp)"
proof -
  have cfg: "srv_cfg (handle_all rs s) = srv_cfg s" for rs and s :: "'a server"
    by (induction rs arbitrary: s) (auto simp: handle_all_def Handle_def put_route_def)
  show ?thesis
  proof (induction regs rule: rev_induct)
    case Nil
    show ?case by (simp add: handle_all_def last_call_def look_route_def New_server_def inner_def)
  next
    case (snoc x regs)
    obtain m p h opts where x: "x = ((m, p), h, opts)" by (metis surj_pair)
    have "handle_all (regs @ [x]) s = Handle m p h opts (handle_all regs s)" for s :: "'a server"
      by (simp add: handle_all_def x)
    then show ?case
      using snoc cfg [of regs "New_server cfg"] by (simp add: Handle_def routes.look_bind last_call_def x New_server_def)
  qed
qed


section \<open>Properties\<close>

text \<open>
  gatekeeping. Every route of a server has a positive body limit, whatever options and
  configuration it was given. The response is 413 or 401 exactly when the request is not
  admitted (its body is unreadable, over the limit, or refused by the verifier), and then
  the handler did not run: its state is untouched.
\<close>

theorem serveRoute_gatekeeps:
  assumes "r = make_route (config_defaults cfg) h opts"
    and "admitted \<longleftrightarrow> (\<exists>body. wr_body req = Inr body \<and> int (length body) \<le> hc_maxBodyBytes (rt_opts r)
            \<and> (\<forall>v. hc_verify (rt_opts r) = Some v \<longrightarrow> v req body = None))"
  shows "0 < hc_maxBodyBytes (rt_opts r)
    \<and> (resp_status (fst (serveRoute req r u)) \<in> {413, 401} \<longleftrightarrow> \<not> admitted)
    \<and> (\<not> admitted \<longrightarrow> snd (serveRoute req r u) = u)"
proof -
  have "0 < sc_MaxBodyBytes (config_defaults cfg)"
    by (simp add: config_defaults_def DefaultMaxBodyBytes_def Let_def)
  then have lim: "0 < hc_maxBodyBytes (rt_opts r)" unfolding assms(1) make_route_def Let_def by simp
  show ?thesis
  proof (cases admitted)
    case True
    then obtain body where b: "wr_body req = Inr body" "int (length body) \<le> hc_maxBodyBytes (rt_opts r)"
        "\<forall>v. hc_verify (rt_opts r) = Some v \<longrightarrow> v req body = None" using assms(2) by blast
    then have "(case hc_verify (rt_opts r) of None \<Rightarrow> None | Some v \<Rightarrow> v req body) = None" by (simp split: option.split)
    then have "resp_status (fst (serveRoute req r u)) \<notin> {413, 401}"
      using b by (auto simp: serveRoute_def read_limited_def Let_def http_error_def write_header_def split: prod.splits option.splits)
    then show ?thesis using True lim by blast
  next
    case False
    have "resp_status (fst (serveRoute req r u)) \<in> {413, 401} \<and> snd (serveRoute req r u) = u"
    proof (cases "read_limited (hc_maxBodyBytes (rt_opts r)) req")
      case None
      then show ?thesis by (simp add: serveRoute_def http_error_def)
    next
      case (Some body)
      then have "wr_body req = Inr body" "int (length body) \<le> hc_maxBodyBytes (rt_opts r)"
        by (auto simp: read_limited_def split: sum.splits if_splits)
      then obtain v e where "hc_verify (rt_opts r) = Some v" "v req body = Some e"
        using False assms(2) by (metis option.exhaust)
      then show ?thesis using Some by (simp add: serveRoute_def http_error_def)
    qed
    then show ?thesis using False lim by blast
  qed
qed

text \<open>A request and a server configuration for the examples.\<close>

definition ex_request :: "string \<Rightarrow> web_request" where
  "ex_request b = \<lparr>wr_method = ''POST'', wr_path = ''/hook'', wr_header = (\<lambda>_. []), wr_body = Inr b\<rparr>"

definition ex_config :: server_config where
  "ex_config = \<lparr>sc_Addr = [], sc_TLS = False, sc_MaxBodyBytes = 0, sc_ReadTimeout = 0, sc_WriteTimeout = 0, sc_IdleTimeout = 0\<rparr>"

theorem serveRoute_gatekeeps_witness:
  "resp_status (fst (serveRoute (ex_request ''xyz'')
     (make_route (config_defaults ex_config) (\<lambda>d u. (None, Suc u)) [WithMaxBodyBytes 2]) 0)) \<in> {413, 401}"
  using serveRoute_gatekeeps [OF refl refl, of ex_config "\<lambda>d u. (None, Suc u)" "[WithMaxBodyBytes 2]" "ex_request ''xyz''" 0]
  by (simp add: ex_request_def make_route_def)

text \<open>
  what the handler's error means to the provider: success is 202, an error that wraps
  \<^verbatim>\<open>ErrDuplicate\<close> at any depth is 200, otherwise one that wraps a \<^verbatim>\<open>TerminalError\<close> is 400 with
  that error's text, and any other error is 500. A plain wrapping never changes the class.
\<close>

theorem serveRoute_status:
  assumes "wr_body req = Inr body" and "int (length body) \<le> hc_maxBodyBytes (rt_opts r)" and "hc_verify (rt_opts r) = None"
    and "rt_handler r = (\<lambda>d u. (Some (Wrap pre err post), u))"
  shows "serveRoute req r u = serveRoute req (r\<lparr>rt_handler := (\<lambda>d u. (Some err, u))\<rparr>) u
    \<and> resp_status (fst (serveRoute req r u)) = (if errors_is err ErrDuplicate then 200
         else if errors_as_terminal err \<noteq> None then 400 else 500)"
proof -
  have "errors_is (Wrap pre err post) ErrDuplicate = errors_is err ErrDuplicate" by (simp add: ErrDuplicate_def)
  then show ?thesis
    using assms by (auto simp: serveRoute_def read_limited_def Let_def http_error_def write_header_def split: option.split)
qed

theorem serveRoute_status_witness:
  "resp_status (fst (serveRoute (ex_request []) (make_route (config_defaults ex_config)
     (\<lambda>d u. (Some (Wrap ''hook: '' (TerminalErr None) []), u)) []) ())) = 400"
  using serveRoute_status [of "ex_request []" "[]" "make_route (config_defaults ex_config)
     (\<lambda>d u. (Some (Wrap ''hook: '' (TerminalErr None) []), u)) []" "''hook: ''" "TerminalErr None" "[]" "()"]
  by (auto simp: ex_request_def make_route_def config_defaults_def ex_config_def DefaultMaxBodyBytes_def ErrDuplicate_def Let_def)

text \<open>
  \<^bold>\<open>C15\<close>: routing. On a server built with \<^verbatim>\<open>New\<close> and any sequence of calls of \<^verbatim>\<open>Handle\<close>, the mux that \<^verbatim>\<open>ListenAndServe\<close>
  makes from the regrouped table serves a request exactly by the handler and options of the
  last call of \<^verbatim>\<open>Handle\<close> for its method and path; a path that was registered for other methods only is
  answered 405 with exactly those methods in \<^verbatim>\<open>Allow\<close>, each once, and a path that was not registered
  404, without running any handler.
\<close>

theorem requests_are_routed:
  "\<exists>methods. distinct methods \<and> set methods = {m. last_call regs (m, wr_path req) \<noteq> None}
    \<and> ws_Handler (build_server (handle_all regs (New_server cfg))) req u = (case last_call regs (wr_method req, wr_path req) of
         Some (h, opts) \<Rightarrow> serveRoute req (make_route (config_defaults cfg) h opts) u
       | None \<Rightarrow> if methods = [] then (http_error ''404 page not found'' 404, u)
           else ((http_error ''method not allowed'' 405)\<lparr>resp_headers := (''Allow'', allow_header [] methods)
                    # resp_headers (http_error ''method not allowed'' 405)\<rparr>, u))"
  using table_is_routed [OF handle_all_built, of regs cfg req u]
  unfolding handle_all_look map_option_is_None by (cases "last_call regs (wr_method req, wr_path req)") (auto split: prod.splits)

text \<open>
  the end of \<^verbatim>\<open>ListenAndServe\<close>: it returns no error after its context ended, having shut the server
  down with five seconds to finish, nor when the server was closed, and otherwise the wrapped
  error of the listener.
\<close>

lemma ListenAndServe_ends:
  "fst (ListenAndServe s (CtxEnded late)) = None \<and> Shutdown (5 * second) \<in> set (snd (ListenAndServe s (CtxEnded late)))
   \<and> (fst (ListenAndServe s (ServeErr err)) = None \<longleftrightarrow> errors_is err ErrServerClosed)"
  by (simp add: ListenAndServe_def Let_def)

text \<open>
  \<^bold>\<open>C14\<close>: a route protected by \<^verbatim>\<open>VerifyHMACSHA256Header\<close> is authentic: for a body within the limit the
  handler runs exactly when the header carries the HMAC-SHA256 of the very bytes received,
  and any other header is answered 401.
\<close>

theorem signed_route_is_authentic:
  assumes "read_limited (hc_maxBodyBytes (rt_opts r)) req = Some body"
    and "hc_verify (rt_opts r) = Some (\<lambda>q b. VerifyHMACSHA256Header b (wr_header q name) secret)"
  shows "(resp_status (fst (serveRoute req r u)) = 401 \<and> snd (serveRoute req r u) = u)
      \<longleftrightarrow> \<not> (\<exists>sig. TrimSpace (wr_header req name) = ''sha256='' @ sig
              \<and> hex_decode sig = Some (hmac_sha256 secret body))"
proof -
  let ?ok = "\<exists>sig. TrimSpace (wr_header req name) = ''sha256='' @ sig \<and> hex_decode sig = Some (hmac_sha256 secret body)"
  have v: "VerifyHMACSHA256Header body (wr_header req name) secret = None \<longleftrightarrow> ?ok"
    unfolding VerifyHMACSHA256Header_def by (rule verify_hub_iff)
  show ?thesis
  proof (cases "VerifyHMACSHA256Header body (wr_header req name) secret")
    case (Some e)
    then show ?thesis using v assms by (simp add: serveRoute_def http_error_def)
  next
    case None
    have "resp_status (fst (serveRoute req r u)) \<noteq> 401"
      using None assms by (simp add: serveRoute_def Let_def http_error_def write_header_def split: prod.split option.split)
    then show ?thesis using None v by simp
  qed
qed


theorem signed_route_is_authentic_witness:
  "resp_status (fst (serveRoute (ex_request ''x'') (make_route (config_defaults ex_config) (\<lambda>d u. (None, u))
     [WithVerifyFunc (Some (\<lambda>q b. VerifyHMACSHA256Header b (wr_header q ''X-Hub-Signature-256'') ''s''))]) ())) = 401"
proof -
  let ?r = "make_route (config_defaults ex_config) (\<lambda>d (u::unit). (None, u))
     [WithVerifyFunc (Some (\<lambda>q b. VerifyHMACSHA256Header b (wr_header q ''X-Hub-Signature-256'') ''s''))]"
  have "read_limited (hc_maxBodyBytes (rt_opts ?r)) (ex_request ''x'') = Some ''x''"
    "hc_verify (rt_opts ?r) = Some (\<lambda>q b. VerifyHMACSHA256Header b (wr_header q ''X-Hub-Signature-256'') ''s'')"
    by (simp_all add: make_route_def config_defaults_def ex_config_def DefaultMaxBodyBytes_def ex_request_def read_limited_def Let_def)
  note auth = signed_route_is_authentic [OF this, of "()"]
  have "TrimSpace [] = []" by code_simp
  then show ?thesis using auth by (simp add: ex_request_def)
qed

end
