(* ===== verification/Surface.thy ===== *)
theory Surface
  imports Rpc JsonText
begin

text \<open>
  Package \<^verbatim>\<open>surface\<close> (\<^verbatim>\<open>types.go\<close>, \<^verbatim>\<open>views.go\<close>, \<^verbatim>\<open>validate.go\<close>, \<^verbatim>\<open>loader.go\<close>, \<^verbatim>\<open>handler.go\<close>,
  \<^verbatim>\<open>handler_helpers.go\<close>, \<^verbatim>\<open>caller.go\<close>): the manifest an adapter exposes, its validation, the three
  HTTP endpoints and the verified caller id. The YAML parser, the file system and the JSON
  encoding of the author's own values are arguments.
\<close>

section \<open>The manifest\<close>

text \<open>
  \<open>'y\<close> are the dynamic values that the YAML library puts into an \<^verbatim>\<open>interface{}\<close>; \<open>None\<close> is the nil
  interface. A Go map is a list of entries with distinct keys.
\<close>

record permission =
  pm_ID :: string
  pm_Label :: string

record empty_state =
  es_Title :: string
  es_Body :: string

record data_source =
  src_Endpoint :: string
  src_RefreshIntervalS :: int

record column =
  col_Field :: string
  col_Label :: string
  col_Format :: string
  col_Suffix :: string

record 'y view_filter =
  flt_ID :: string
  flt_Kind :: string
  flt_Field :: string
  flt_Label :: string
  flt_Placeholder :: string
  flt_Options :: "string list"
  flt_Applies :: "(string \<times> 'y option) list"

record 'y form_field =
  ff_Field :: string
  ff_Label :: string
  ff_Kind :: string
  ff_Required :: bool
  ff_Options :: "string list"
  ff_Default :: "'y option"

record confirm =
  cf_Title :: string
  cf_Body :: string

record 'y view_action =
  va_ID :: string
  va_Label :: string
  va_Endpoint :: string
  va_Requires :: "string list"
  va_Confirm :: "confirm option"
  va_OnSuccess :: "(string \<times> 'y option) list"
  va_ShowWhen :: string

record 'y timeline_item =
  ti_TimestampField :: string
  ti_TitleField :: string
  ti_BodyField :: string
  ti_Badges :: "column list"
  ti_Click :: "(string \<times> 'y option) list"

record detail_field =
  df_Field :: string
  df_Label :: string
  df_Format :: string

text \<open>A nil slice is \<open>None\<close> where the encoder tells it from an empty one.\<close>

record detail_section =
  sec_Title :: string
  sec_Fields :: "detail_field list option"

record metric =
  mt_Label :: string
  mt_Field :: string
  mt_AlertWhen :: string

text \<open>A view may hold drawers, which hold views: \<open>'v\<close> is the type of the view in a drawer.\<close>

datatype 'v drawer = Drawer (dr_ID: string) (dr_Fetch: string) (dr_View: 'v)

datatype 'y view = View
    (v_Kind: string) (v_Component: string) (v_DataSource: "data_source option") (v_Columns: "column list")
    (v_Filters: "'y view_filter list") (v_RowActions: "'y view_action list") (v_Item: "'y timeline_item option")
    (v_Drawers: "'y view drawer list") (v_Sections: "detail_section list") (v_Metrics: "metric list")
    (v_Endpoint: string) (v_Method: string) (v_Fields: "'y form_field list") (v_SubmitLabel: string)
    (v_Title: string) (v_Link: string) (v_URLField: string) (v_Filter: "'y view_filter option")
    (v_Extras: "(string \<times> 'y option) list")

record 'y page =
  pg_ID :: string
  pg_Path :: string
  pg_Title :: string
  pg_Requires :: "string list"
  pg_View :: "'y view"
  pg_EmptyState :: "empty_state option"

record 'y widget =
  wg_ID :: string
  wg_Target :: string
  wg_Section :: string
  wg_Priority :: int
  wg_View :: "'y view"

record 'y manifest =
  mf_Surface :: string
  mf_SurfaceVersion :: string
  mf_SchemaVersion :: int
  mf_DisplayName :: string
  mf_Icon :: string
  mf_Description :: string
  mf_Permissions :: "permission list"
  mf_Pages :: "'y page list"
  mf_Widgets :: "'y widget list"

definition SchemaVersionCurrent :: int where "SchemaVersionCurrent = 1"

definition ViewKindTable :: string where "ViewKindTable = ''table''"
definition ViewKindDetail :: string where "ViewKindDetail = ''detail''"
definition ViewKindForm :: string where "ViewKindForm = ''form''"
definition ViewKindTimeline :: string where "ViewKindTimeline = ''timeline''"
definition ViewKindStatusGrid :: string where "ViewKindStatusGrid = ''status-grid''"
definition ViewKindJSONInspector :: string where "ViewKindJSONInspector = ''json-inspector''"
definition ViewKindChart :: string where "ViewKindChart = ''chart''"
definition ViewKindEmbed :: string where "ViewKindEmbed = ''embed''"
definition ViewKindCustom :: string where "ViewKindCustom = ''custom''"
definition ViewKindStatCard :: string where "ViewKindStatCard = ''stat-card''"
definition ViewKindFilterContrib :: string where "ViewKindFilterContrib = ''filter-contribution''"

definition FormFieldKindString :: string where "FormFieldKindString = ''string''"
definition FormFieldKindSecret :: string where "FormFieldKindSecret = ''secret''"
definition FormFieldKindNumber :: string where "FormFieldKindNumber = ''number''"
definition FormFieldKindBoolean :: string where "FormFieldKindBoolean = ''boolean''"
definition FormFieldKindSelect :: string where "FormFieldKindSelect = ''select''"
definition FormFieldKindJSON :: string where "FormFieldKindJSON = ''json''"

definition SupportedViewKinds :: "string list" where
  "SupportedViewKinds =
     [ViewKindTable, ViewKindDetail, ViewKindForm, ViewKindTimeline, ViewKindStatusGrid, ViewKindJSONInspector,
      ViewKindChart, ViewKindEmbed, ViewKindCustom, ViewKindStatCard, ViewKindFilterContrib]"

definition SupportedFormFieldKinds :: "string list" where
  "SupportedFormFieldKinds =
     [FormFieldKindString, FormFieldKindSecret, FormFieldKindNumber, FormFieldKindBoolean, FormFieldKindSelect,
      FormFieldKindJSON]"


section \<open>Validate\<close>

definition blank :: "string \<Rightarrow> bool" where "blank s = (TrimSpace s = [])"

definition fail :: "string \<Rightarrow> goerr option" where "fail msg = Some (ErrorText (''manifest: '' @ msg))"

fun check_fields :: "string \<Rightarrow> nat \<Rightarrow> 'y form_field list \<Rightarrow> goerr option" where
  "check_fields pid j [] = None"
| "check_fields pid j (f # fs) =
     (if blank (ff_Field f) then
        fail (''page '' @ go_quote pid @ '' form field['' @ show_nat j @ ''] field is required'')
      else if blank (ff_Label f) then
        fail (''page '' @ go_quote pid @ '' form field '' @ go_quote (ff_Field f) @ '' label is required'')
      else if ff_Kind f \<notin> set SupportedFormFieldKinds then
        fail (''page '' @ go_quote pid @ '' form field '' @ go_quote (ff_Field f) @ '' has unknown kind '' @ go_quote (ff_Kind f))
      else if ff_Kind f = FormFieldKindSelect \<and> ff_Options f = [] then
        fail (''page '' @ go_quote pid @ '' form field '' @ go_quote (ff_Field f) @ '' kind=select requires options'')
      else check_fields pid (Suc j) fs)"

definition check_page_view :: "'y page \<Rightarrow> goerr option" where
  "check_page_view p =
     (if v_Kind (pg_View p) \<notin> set SupportedViewKinds then
        fail (''page '' @ go_quote (pg_ID p) @ '' has unknown view kind '' @ go_quote (v_Kind (pg_View p)))
      else if v_Kind (pg_View p) = ViewKindCustom \<and> blank (v_Component (pg_View p)) then
        fail (''page '' @ go_quote (pg_ID p) @ '' kind=custom requires a component name'')
      else if v_Kind (pg_View p) = ViewKindForm then
        (if v_Fields (pg_View p) = [] then
           fail (''page '' @ go_quote (pg_ID p) @ '' kind=form requires at least one field'')
         else check_fields (pg_ID p) 0 (v_Fields (pg_View p)))
      else None)"

fun check_pages :: "nat \<Rightarrow> string list \<Rightarrow> 'y page list \<Rightarrow> goerr option" where
  "check_pages i seen [] = None"
| "check_pages i seen (p # ps) =
     (if blank (pg_ID p) then fail (''page['' @ show_nat i @ ''] id is required'')
      else if pg_ID p \<in> set seen then fail (''duplicate page id '' @ go_quote (pg_ID p))
      else if \<not> HasPrefix (pg_Path p) ''/'' then fail (''page '' @ go_quote (pg_ID p) @ '' path must start with /'')
      else if blank (pg_Title p) then fail (''page '' @ go_quote (pg_ID p) @ '' title is required'')
      else case check_page_view p of
        Some e \<Rightarrow> Some e
      | None \<Rightarrow> check_pages (Suc i) (pg_ID p # seen) ps)"

fun check_widgets :: "nat \<Rightarrow> string list \<Rightarrow> 'y widget list \<Rightarrow> goerr option" where
  "check_widgets i seen [] = None"
| "check_widgets i seen (w # ws) =
     (if blank (wg_ID w) then fail (''widget['' @ show_nat i @ ''] id is required'')
      else if wg_ID w \<in> set seen then fail (''duplicate widget id '' @ go_quote (wg_ID w))
      else if blank (wg_Target w) then fail (''widget '' @ go_quote (wg_ID w) @ '' target is required'')
      else if v_Kind (wg_View w) \<notin> set SupportedViewKinds then
        fail (''widget '' @ go_quote (wg_ID w) @ '' has unknown view kind '' @ go_quote (v_Kind (wg_View w)))
      else check_widgets (Suc i) (wg_ID w # seen) ws)"

fun check_permissions :: "nat \<Rightarrow> string list \<Rightarrow> permission list \<Rightarrow> goerr option" where
  "check_permissions i seen [] = None"
| "check_permissions i seen (p # ps) =
     (if blank (pm_ID p) then fail (''permission['' @ show_nat i @ ''] id is required'')
      else if pm_ID p \<in> set seen then fail (''duplicate permission id '' @ go_quote (pm_ID p))
      else check_permissions (Suc i) (pm_ID p # seen) ps)"

definition Validate :: "'y manifest \<Rightarrow> goerr option" where
  "Validate m =
     (if blank (mf_Surface m) then fail ''surface field is required''
      else if mf_SchemaVersion m \<le> 0 then fail ''schema_version is required and must be > 0''
      else if mf_SchemaVersion m > SchemaVersionCurrent then
        fail (''unsupported schema_version '' @ show_int (mf_SchemaVersion m) @ '' (this SDK supports up to ''
              @ show_int SchemaVersionCurrent @ '')'')
      else if blank (mf_SurfaceVersion m) then fail ''surface_version is required''
      else if blank (mf_DisplayName m) then fail ''display_name is required''
      else if mf_Pages m = [] then fail ''at least one page is required''
      else case check_pages 0 [] (mf_Pages m) of
        Some e \<Rightarrow> Some e
      | None \<Rightarrow> (case check_widgets 0 [] (mf_Widgets m) of
          Some e \<Rightarrow> Some e
        | None \<Rightarrow> check_permissions 0 [] (mf_Permissions m)))"


section \<open>Loading\<close>

definition LoadManifestFromBytes :: "(string \<Rightarrow> goerr + 'y manifest) \<Rightarrow> string \<Rightarrow> goerr + 'y manifest" where
  "LoadManifestFromBytes yaml raw = (case yaml raw of
       Inl err \<Rightarrow> Inl (Wrap ''surface: parse manifest: '' err [])
     | Inr m \<Rightarrow> (case Validate m of Some e \<Rightarrow> Inl e | None \<Rightarrow> Inr m))"

definition LoadManifestFromFS :: "(string \<Rightarrow> goerr + string) \<Rightarrow> (string \<Rightarrow> goerr + 'y manifest) \<Rightarrow> string \<Rightarrow> goerr + 'y manifest" where
  "LoadManifestFromFS readFile yaml path = (case readFile path of
       Inl err \<Rightarrow> Inl (Wrap (''surface: read '' @ path @ '': '') err [])
     | Inr raw \<Rightarrow> LoadManifestFromBytes yaml raw)"


section \<open>The endpoints\<close>

text \<open>A value to encode: nil, one with a JSON text, or one that \<^verbatim>\<open>encoding/json\<close> refuses.\<close>

datatype any_value = AnyNil | AnyJSON string | AnyBad goerr

text \<open>Status and body; every response of \<^verbatim>\<open>WriteJSON\<close> is \<^verbatim>\<open>application/json; charset=utf-8\<close>.\<close>

definition WriteJSON :: "nat \<Rightarrow> any_value \<Rightarrow> nat \<times> string" where
  "WriteJSON status v = (status, case v of
       AnyNil \<Rightarrow> ''null''
     | AnyJSON text \<Rightarrow> text @ [CHR 0x0A]
     | AnyBad err \<Rightarrow> ''{'' @ [CHR 0x22] @ ''error'' @ [CHR 0x22] @ '':'' @ [CHR 0x22] @ ''encode failed: '' @ error_text err
                     @ [CHR 0x22] @ ''}'')"

definition errorBody :: "string \<Rightarrow> any_value" where
  "errorBody msg = AnyJSON (json_object False [(''error'', json_string False msg)])"

definition MaxActionBodyBytes :: nat where "MaxActionBodyBytes = 512 * 1024"

text \<open>
  The body as a stream: nil, or its bytes and the error after them, if any. \<^verbatim>\<open>io.LimitReader\<close>
  stops one byte past the limit, before it can see a later error.
\<close>

type_synonym body_stream = "(string \<times> goerr option) option"

definition ReadActionBody :: "body_stream \<Rightarrow> goerr + gobytes" where
  "ReadActionBody body = (case body of
       None \<Rightarrow> Inr None
     | Some (bytes, end_err) \<Rightarrow>
         (let raw = take (MaxActionBodyBytes + 1) bytes
          in case (if length bytes \<le> MaxActionBodyBytes then end_err else None) of
               Some err \<Rightarrow> Inl (Wrap ''read action body: '' err [])
             | None \<Rightarrow>
                 if length raw > MaxActionBodyBytes
                 then Inl (ErrorText (''action body exceeds '' @ show_nat MaxActionBodyBytes @ '' bytes''))
                 else Inr (Some raw)))"

record surface_request =
  sr_method :: string
  sr_segments :: "string list"
  sr_rawQuery :: string
  sr_header :: "string \<Rightarrow> string"
  sr_body :: body_stream

record data_request =
  dq_ViewID :: string
  dq_RawQuery :: string
  dq_Header :: "string \<Rightarrow> string"

record action_request =
  aq_ActionID :: string
  aq_Body :: gobytes
  aq_Header :: "string \<Rightarrow> string"

record 'u data_handler =
  dh_HandleData :: "data_request \<Rightarrow> 'u \<Rightarrow> (goerr + any_value) \<times> 'u"
  dh_HandleAction :: "action_request \<Rightarrow> 'u \<Rightarrow> (goerr + any_value) \<times> 'u"

definition write_result :: "(goerr + any_value) \<Rightarrow> nat \<times> string" where
  "write_result r = (case r of Inl err \<Rightarrow> WriteJSON 500 (errorBody (error_text err)) | Inr out \<Rightarrow> WriteJSON 200 out)"

definition serve_data :: "'u data_handler \<Rightarrow> string \<Rightarrow> surface_request \<Rightarrow> 'u \<Rightarrow> (nat \<times> string) \<times> 'u" where
  "serve_data h viewID req u =
     (if viewID = [] then (WriteJSON 400 (errorBody ''viewId is required''), u)
      else let (r, u1) = dh_HandleData h \<lparr>dq_ViewID = viewID, dq_RawQuery = sr_rawQuery req, dq_Header = sr_header req\<rparr> u
           in (write_result r, u1))"

definition serve_action :: "'u data_handler \<Rightarrow> string \<Rightarrow> surface_request \<Rightarrow> 'u \<Rightarrow> (nat \<times> string) \<times> 'u" where
  "serve_action h actionID req u =
     (if actionID = [] then (WriteJSON 400 (errorBody ''actionId is required''), u)
      else case ReadActionBody (sr_body req) of
        Inl err \<Rightarrow> (WriteJSON 400 (errorBody (error_text err)), u)
      | Inr raw \<Rightarrow>
         (let (r, u1) = dh_HandleAction h \<lparr>aq_ActionID = actionID, aq_Body = raw, aq_Header = sr_header req\<rparr> u
          in (write_result r, u1)))"

text \<open>
  The mux with the three patterns of \<^verbatim>\<open>RegisterHandlers\<close>; \<^verbatim>\<open>GET\<close> patterns also match \<^verbatim>\<open>HEAD\<close>.
  \<open>mv\<close> is the manifest captured at registration, as the encoder sees it.
\<close>

definition serve_surface :: "any_value \<Rightarrow> 'u data_handler \<Rightarrow> surface_request \<Rightarrow> 'u \<Rightarrow> (nat \<times> string) \<times> 'u" where
  "serve_surface mv h req u =
     (let get = (sr_method req = ''GET'' \<or> sr_method req = ''HEAD'');
          not_allowed = ((405, ''Method Not Allowed'' @ [CHR 0x0A]), u);
          not_found = ((404, ''404 page not found'' @ [CHR 0x0A]), u)
      in case sr_segments req of
           [s, k] \<Rightarrow>
             if s = ''surface'' \<and> k = ''manifest''
             then (if get then (WriteJSON 200 mv, u) else not_allowed) else not_found
         | [s, k, x] \<Rightarrow>
             if s = ''surface'' \<and> k = ''data'' \<and> x \<noteq> []
             then (if get then serve_data h x req u else not_allowed)
             else if s = ''surface'' \<and> k = ''action'' \<and> x \<noteq> []
             then (if sr_method req = ''POST'' then serve_action h x req u else not_allowed)
             else not_found
         | _ \<Rightarrow> not_found)"


section \<open>The verified caller\<close>

definition InputVerifiedCallerID :: string where "InputVerifiedCallerID = ''verified_caller_id''"

text \<open>The input map may be nil.\<close>

definition VerifiedCallerID :: "(string \<rightharpoonup> goany) option \<Rightarrow> string" where
  "VerifiedCallerID input = (case input of None \<Rightarrow> []
     | Some m \<Rightarrow> (case m InputVerifiedCallerID of Some (AStr v) \<Rightarrow> TrimSpace v | _ \<Rightarrow> []))"


section \<open>A declarative specification of valid manifests\<close>

definition valid_field :: "'y form_field \<Rightarrow> bool" where
  "valid_field f = (\<not> blank (ff_Field f) \<and> \<not> blank (ff_Label f) \<and> ff_Kind f \<in> set SupportedFormFieldKinds
     \<and> (ff_Kind f = FormFieldKindSelect \<longrightarrow> ff_Options f \<noteq> []))"

definition valid_page :: "'y page \<Rightarrow> bool" where
  "valid_page p = (\<not> blank (pg_ID p) \<and> prefix ''/'' (pg_Path p) \<and> \<not> blank (pg_Title p)
     \<and> v_Kind (pg_View p) \<in> set SupportedViewKinds
     \<and> (v_Kind (pg_View p) = ViewKindCustom \<longrightarrow> \<not> blank (v_Component (pg_View p)))
     \<and> (v_Kind (pg_View p) = ViewKindForm \<longrightarrow> v_Fields (pg_View p) \<noteq> [] \<and> list_all valid_field (v_Fields (pg_View p))))"

definition valid_widget :: "'y widget \<Rightarrow> bool" where
  "valid_widget w = (\<not> blank (wg_ID w) \<and> \<not> blank (wg_Target w) \<and> v_Kind (wg_View w) \<in> set SupportedViewKinds)"

definition valid_manifest :: "'y manifest \<Rightarrow> bool" where
  "valid_manifest m = (\<not> blank (mf_Surface m) \<and> 1 \<le> mf_SchemaVersion m \<and> mf_SchemaVersion m \<le> SchemaVersionCurrent
     \<and> \<not> blank (mf_SurfaceVersion m) \<and> \<not> blank (mf_DisplayName m) \<and> mf_Pages m \<noteq> []
     \<and> list_all valid_page (mf_Pages m) \<and> distinct (map pg_ID (mf_Pages m))
     \<and> list_all valid_widget (mf_Widgets m) \<and> distinct (map wg_ID (mf_Widgets m))
     \<and> list_all (\<lambda>p. \<not> blank (pm_ID p)) (mf_Permissions m) \<and> distinct (map pm_ID (mf_Permissions m)))"

lemma fail_not_None [simp]: "fail msg \<noteq> None"
  by (simp add: fail_def)

lemma check_fields_None: "check_fields pid j fs = None \<longleftrightarrow> list_all valid_field fs"
  by (induction fs arbitrary: j) (auto simp: valid_field_def)

lemma ViewKind_distinct: "ViewKindCustom \<noteq> ViewKindForm"
  by (simp add: ViewKindCustom_def ViewKindForm_def)

lemma check_page_view_None:
  "\<not> blank (pg_ID p) \<Longrightarrow> prefix ''/'' (pg_Path p) \<Longrightarrow> \<not> blank (pg_Title p) \<Longrightarrow>
   check_page_view p = None \<longleftrightarrow> valid_page p"
  using ViewKind_distinct by (auto simp: check_page_view_def valid_page_def check_fields_None)

lemma check_pages_None:
  "check_pages i seen ps = None \<longleftrightarrow>
     list_all valid_page ps \<and> distinct (map pg_ID ps) \<and> set seen \<inter> pg_ID ` set ps = {}"
proof (induction ps arbitrary: i seen)
  case (Cons p ps)
  show ?case
  proof (cases "\<not> blank (pg_ID p) \<and> pg_ID p \<notin> set seen \<and> prefix ''/'' (pg_Path p) \<and> \<not> blank (pg_Title p)")
    case True
    then have "check_pages i seen (p # ps) = None \<longleftrightarrow> valid_page p \<and> check_pages (Suc i) (pg_ID p # seen) ps = None"
      using check_page_view_None [of p] by (auto simp: HasPrefix_def split: option.split)
    then show ?thesis using True Cons.IH by auto
  next
    case False
    then have "check_pages i seen (p # ps) \<noteq> None" by (auto simp: HasPrefix_def fail_def)
    then show ?thesis using False by (auto simp: valid_page_def)
  qed
qed simp

lemma check_widgets_None:
  "check_widgets i seen ws = None \<longleftrightarrow>
     list_all valid_widget ws \<and> distinct (map wg_ID ws) \<and> set seen \<inter> wg_ID ` set ws = {}"
  by (induction ws arbitrary: i seen) (auto simp: valid_widget_def)

lemma check_permissions_None:
  "check_permissions i seen ps = None \<longleftrightarrow>
     list_all (\<lambda>p. \<not> blank (pm_ID p)) ps \<and> distinct (map pm_ID ps) \<and> set seen \<inter> pm_ID ` set ps = {}"
  by (induction ps arbitrary: i seen) auto

lemma Validate_None: "Validate m = None \<longleftrightarrow> valid_manifest m"
  using check_pages_None [of 0 "[]" "mf_Pages m"] check_widgets_None [of 0 "[]" "mf_Widgets m"]
    check_permissions_None [of 0 "[]" "mf_Permissions m"]
  by (auto simp: Validate_def valid_manifest_def split: option.split)


lemma errorBody_json:
  assumes "valid_utf8 msg"
  shows "\<exists>body. WriteJSON st (errorBody msg) = (st, body @ [CHR 0x0A]) \<and> json_parse body = Some (JObj [(''error'', JStr msg)])"
proof -
  have "list_all good_member [(''error'', json_string False msg, JStr msg)]"
    using assms by (simp add: denotes_string valid_utf8_ascii byte_def)
  from denotes_parse [OF denotes_object [OF this]]
  have "json_parse (json_object False [(''error'', json_string False msg)]) = Some (JObj [(''error'', JStr msg)])"
    by (simp add: max_nesting_depth_def)
  then show ?thesis by (simp add: WriteJSON_def errorBody_def)
qed


section \<open>Properties\<close>

text \<open>
  \<^bold>\<open>C38\<close>: \<^verbatim>\<open>Validate\<close> decides exactly the declarative notion of a valid manifest: required texts are
  not blank, the schema version is supported, there is a page, every page, form field and
  widget is well-formed, and page, widget and permission ids are each unique. The loop and
  its map of seen ids neither miss a defect nor reject a valid manifest.
\<close>

theorem Validate_iff: "Validate m = None \<longleftrightarrow> valid_manifest m"
  by (rule Validate_None)

text \<open>
  a loaded manifest is a valid one, wherever it came from, and loading fails with a message
  rather than returning a defective manifest.
\<close>

theorem LoadManifest_valid:
  "LoadManifestFromFS readFile yaml path = Inr m \<longleftrightarrow>
     (\<exists>raw. readFile path = Inr raw \<and> yaml raw = Inr m \<and> valid_manifest m)"
  by (auto simp: LoadManifestFromFS_def LoadManifestFromBytes_def Validate_None [symmetric]
      split: sum.split option.splits)

text \<open>
  \<^verbatim>\<open>ReadActionBody\<close> never returns more than 512 KiB: a body of at most that size is returned
  byte for byte, a longer one is an error however long it is, and a read error within the
  limit is passed on.
\<close>

theorem ReadActionBody_bounds:
  "ReadActionBody (Some (bytes, err)) =
    (if length bytes > 524288 then Inl (ErrorText (''action body exceeds '' @ show_nat 524288 @ '' bytes''))
     else case err of Some e \<Rightarrow> Inl (Wrap ''read action body: '' e []) | None \<Rightarrow> Inr (Some bytes))"
  by (simp add: ReadActionBody_def MaxActionBodyBytes_def Let_def split: option.split)

text \<open>
  the verified caller id cannot be forged through the parameters: no member of the input
  other than the one core stamps, \<^verbatim>\<open>params\<close> in particular, has any influence on it, and the
  value returned is never padded with white space.
\<close>

theorem VerifiedCallerID_unforgeable:
  assumes "k \<noteq> InputVerifiedCallerID"
  shows "VerifiedCallerID (Some (m(k \<mapsto> v))) = VerifiedCallerID (Some m)
    \<and> VerifiedCallerID (Some (m(k := None))) = VerifiedCallerID (Some m)
    \<and> TrimSpace (VerifiedCallerID (Some m)) = VerifiedCallerID (Some m)"
proof -
  have "TrimSpace [] = []" by code_simp
  then show ?thesis using assms by (simp add: VerifiedCallerID_def split: option.split goany.split)
qed

theorem VerifiedCallerID_unforgeable_witness:
  "VerifiedCallerID (Some [''verified_caller_id'' \<mapsto> AStr '' abc '', ''params'' \<mapsto> AMap [(''collaborator_id'', AStr ''spoofed'')]])
     = VerifiedCallerID (Some [''verified_caller_id'' \<mapsto> AStr '' abc ''])"
  using VerifiedCallerID_unforgeable [of "''params''" "[''verified_caller_id'' \<mapsto> AStr '' abc '']"
      "AMap [(''collaborator_id'', AStr ''spoofed'')]"] by (simp add: InputVerifiedCallerID_def)

text \<open>
  \<^bold>\<open>C39\<close>: errors of the author's handlers reach the console as JSON. For every view (by \<^verbatim>\<open>GET\<close>) and every
  action (by \<^verbatim>\<open>POST\<close>), when the handler returns an error with a UTF-8 message the answer is a 500
  whose body is an object with the only member \<^verbatim>\<open>error\<close>, exactly that message; an action body of
  more than 512 KiB is refused with a 400 without running the handler.
\<close>

theorem handler_error_is_json:
  assumes "valid_utf8 (error_text err)" and "x \<noteq> []"
    and "sr_segments req = [''surface'', ''data'', x] \<and> sr_method req = ''GET''
         \<and> dh_HandleData h \<lparr>dq_ViewID = x, dq_RawQuery = sr_rawQuery req, dq_Header = sr_header req\<rparr> u = (Inl err, u1)
       \<or> sr_segments req = [''surface'', ''action'', x] \<and> sr_method req = ''POST'' \<and> ReadActionBody (sr_body req) = Inr raw
         \<and> dh_HandleAction h \<lparr>aq_ActionID = x, aq_Body = raw, aq_Header = sr_header req\<rparr> u = (Inl err, u1)"
    and "length big > 524288" and "sr_segments breq = [''surface'', ''action'', x]" and "sr_method breq = ''POST''"
    and "sr_body breq = Some (big, berr)"
  shows "(\<exists>body. serve_surface mv h req u = ((500, body @ [CHR 0x0A]), u1)
      \<and> json_parse body = Some (JObj [(''error'', JStr (error_text err))]))
    \<and> (\<exists>body. serve_surface mv h breq u = ((400, body), u))"
proof
  show "\<exists>body. serve_surface mv h req u = ((500, body @ [CHR 0x0A]), u1)
      \<and> json_parse body = Some (JObj [(''error'', JStr (error_text err))])"
    using assms(2,3) errorBody_json [OF assms(1), of 500]
    by (auto simp: serve_surface_def serve_data_def serve_action_def write_result_def Let_def)
  show "\<exists>body. serve_surface mv h breq u = ((400, body), u)"
    using assms(2,4-7)
    by (simp add: serve_surface_def serve_action_def ReadActionBody_def MaxActionBodyBytes_def WriteJSON_def Let_def)
qed

text \<open>A console request, and an adapter whose handlers fail.\<close>

definition console_call :: "string \<Rightarrow> string list \<Rightarrow> body_stream \<Rightarrow> surface_request" where
  "console_call m segs b = \<lparr>sr_method = m, sr_segments = segs, sr_rawQuery = [], sr_header = (\<lambda>_. []), sr_body = b\<rparr>"

definition failing :: "unit data_handler" where
  "failing = \<lparr>dh_HandleData = (\<lambda>r u. (Inl (ErrorText [CHR ''a'', CHR 0x0A, CHR 0x22]), u)),
     dh_HandleAction = (\<lambda>r u. (Inl (ErrorText [CHR ''a'', CHR 0x0A, CHR 0x22]), u))\<rparr>"

theorem handler_error_is_json_witness:
  "\<exists>body. serve_surface AnyNil failing (console_call ''GET'' [''surface'', ''data'', ''pulses''] None) () = ((500, body @ [CHR 0x0A]), ())
    \<and> json_parse body = Some (JObj [(''error'', JStr [CHR ''a'', CHR 0x0A, CHR 0x22])])"
proof -
  let ?m = "[CHR ''a'', CHR 0x0A, CHR 0x22]"
  have "valid_utf8 (error_text (ErrorText ?m))" by (simp add: valid_utf8_ascii byte_def)
  from handler_error_is_json [OF this, of "''pulses''" "console_call ''GET'' [''surface'', ''data'', ''pulses''] None"
      failing "()" "()" None "replicate 524289 (CHR ''x'')"
      "console_call ''POST'' [''surface'', ''action'', ''pulses''] (Some (replicate 524289 (CHR ''x''), None))" None AnyNil]
  show ?thesis by (simp add: console_call_def failing_def)
qed

end
