(* ===== verification/SurfaceJson.thy ===== *)
theory SurfaceJson
  imports Surface "HOL-Library.List_Lexorder" "HOL-Library.Char_ord"
begin

text \<open>
  The JSON of a surface manifest, as the struct tags of \<^verbatim>\<open>surface/types.go\<close> tell \<^verbatim>\<open>encoding/json\<close> to
  write it: members in the order of the fields, \<^verbatim>\<open>omitempty\<close> members left out when they are
  empty, maps with their keys sorted. It is what \<^verbatim>\<open>GET /surface/manifest\<close> answers. The dynamic values
  that a manifest carries come from the YAML library; \<open>aj\<close> gives their JSON value or the error of
  the encoder, which stops at the first one it meets.
\<close>

section \<open>Members\<close>

type_synonym member = "string \<times> (goerr + json)"

fun members :: "member list \<Rightarrow> goerr + (string \<times> json) list" where
  "members [] = Inr []"
| "members ((k, r) # ms) = (case r of Inl e \<Rightarrow> Inl e | Inr v \<Rightarrow> map_sum id (Cons (k, v)) (members ms))"

fun elements :: "(goerr + json) list \<Rightarrow> goerr + json list" where
  "elements [] = Inr []"
| "elements (r # rs) = (case r of Inl e \<Rightarrow> Inl e | Inr v \<Rightarrow> map_sum id (Cons v) (elements rs))"

definition obj :: "member list \<Rightarrow> goerr + json" where
  "obj ms = map_sum id JObj (members ms)"

definition arr :: "(goerr + json) list \<Rightarrow> goerr + json" where
  "arr rs = map_sum id JArr (elements rs)"

definition str_member :: "string \<Rightarrow> string \<Rightarrow> member list" where
  "str_member k s = [(k, Inr (JStr s))]"

text \<open>\<^verbatim>\<open>omitempty\<close> on strings, numbers, booleans, slices, pointers, maps and interfaces.\<close>

definition str_omit :: "string \<Rightarrow> string \<Rightarrow> member list" where
  "str_omit k s = (if s = [] then [] else [(k, Inr (JStr s))])"

definition int_omit :: "string \<Rightarrow> int \<Rightarrow> member list" where
  "int_omit k i = (if i = 0 then [] else [(k, Inr (JInt i))])"

definition bool_omit :: "string \<Rightarrow> bool \<Rightarrow> member list" where
  "bool_omit k b = (if b then [(k, Inr (JBool True))] else [])"

definition list_omit :: "string \<Rightarrow> (goerr + json) list \<Rightarrow> member list" where
  "list_omit k rs = (if rs = [] then [] else [(k, arr rs)])"

definition ptr_omit :: "string \<Rightarrow> (goerr + json) option \<Rightarrow> member list" where
  "ptr_omit k p = (case p of None \<Rightarrow> [] | Some r \<Rightarrow> [(k, r)])"

definition any_value_of :: "('y \<Rightarrow> goerr + json) \<Rightarrow> 'y option \<Rightarrow> goerr + json" where
  "any_value_of aj x = (case x of None \<Rightarrow> Inr JNull | Some y \<Rightarrow> aj y)"

definition map_omit :: "('y \<Rightarrow> goerr + json) \<Rightarrow> string \<Rightarrow> (string \<times> 'y option) list \<Rightarrow> member list" where
  "map_omit aj k m = (if m = [] then [] else [(k, obj (map (\<lambda>(x, v). (x, any_value_of aj v)) (sort_key fst m)))])"

definition strs :: "string list \<Rightarrow> (goerr + json) list" where
  "strs ss = map (\<lambda>s. Inr (JStr s)) ss"


section \<open>The structs\<close>

definition permission_value :: "permission \<Rightarrow> goerr + json" where
  "permission_value p = obj (str_member ''id'' (pm_ID p) @ str_member ''label'' (pm_Label p))"

definition empty_value :: "empty_state \<Rightarrow> goerr + json" where
  "empty_value e = obj (str_member ''title'' (es_Title e) @ str_member ''body'' (es_Body e))"

definition data_source_value :: "data_source \<Rightarrow> goerr + json" where
  "data_source_value d = obj (str_member ''endpoint'' (src_Endpoint d) @ int_omit ''refresh_interval_s'' (src_RefreshIntervalS d))"

definition column_value :: "column \<Rightarrow> goerr + json" where
  "column_value c = obj (str_member ''field'' (col_Field c) @ str_member ''label'' (col_Label c)
     @ str_omit ''format'' (col_Format c) @ str_omit ''suffix'' (col_Suffix c))"

definition filter_value :: "('y \<Rightarrow> goerr + json) \<Rightarrow> 'y view_filter \<Rightarrow> goerr + json" where
  "filter_value aj f = obj (str_member ''id'' (flt_ID f) @ str_member ''kind'' (flt_Kind f) @ str_omit ''field'' (flt_Field f)
     @ str_omit ''label'' (flt_Label f) @ str_omit ''placeholder'' (flt_Placeholder f)
     @ list_omit ''options'' (strs (flt_Options f)) @ map_omit aj ''applies'' (flt_Applies f))"

definition form_field_value :: "('y \<Rightarrow> goerr + json) \<Rightarrow> 'y form_field \<Rightarrow> goerr + json" where
  "form_field_value aj f = obj (str_member ''field'' (ff_Field f) @ str_member ''label'' (ff_Label f)
     @ str_member ''kind'' (ff_Kind f) @ bool_omit ''required'' (ff_Required f)
     @ list_omit ''options'' (strs (ff_Options f)) @ ptr_omit ''default'' (map_option aj (ff_Default f)))"

definition confirm_value :: "confirm \<Rightarrow> goerr + json" where
  "confirm_value c = obj (str_member ''title'' (cf_Title c) @ str_member ''body'' (cf_Body c))"

definition action_value :: "('y \<Rightarrow> goerr + json) \<Rightarrow> 'y view_action \<Rightarrow> goerr + json" where
  "action_value aj a = obj (str_member ''id'' (va_ID a) @ str_member ''label'' (va_Label a)
     @ str_member ''endpoint'' (va_Endpoint a) @ list_omit ''requires'' (strs (va_Requires a))
     @ ptr_omit ''confirm'' (map_option confirm_value (va_Confirm a)) @ map_omit aj ''on_success'' (va_OnSuccess a)
     @ str_omit ''show_when'' (va_ShowWhen a))"

definition timeline_item_value :: "('y \<Rightarrow> goerr + json) \<Rightarrow> 'y timeline_item \<Rightarrow> goerr + json" where
  "timeline_item_value aj t = obj (str_member ''timestamp_field'' (ti_TimestampField t)
     @ str_member ''title_field'' (ti_TitleField t) @ str_omit ''body_field'' (ti_BodyField t)
     @ list_omit ''badges'' (map column_value (ti_Badges t)) @ map_omit aj ''click'' (ti_Click t))"

definition detail_field_value :: "detail_field \<Rightarrow> goerr + json" where
  "detail_field_value f = obj (str_member ''field'' (df_Field f) @ str_omit ''label'' (df_Label f)
     @ str_omit ''format'' (df_Format f))"

definition detail_section_value :: "detail_section \<Rightarrow> goerr + json" where
  "detail_section_value s = obj (str_member ''title'' (sec_Title s)
     @ [(''fields'', case sec_Fields s of None \<Rightarrow> Inr JNull | Some fs \<Rightarrow> arr (map detail_field_value fs))])"

definition metric_value :: "metric \<Rightarrow> goerr + json" where
  "metric_value m = obj (str_member ''label'' (mt_Label m) @ str_member ''field'' (mt_Field m)
     @ str_omit ''alert_when'' (mt_AlertWhen m))"

text \<open>A drawer is encoded once its view is.\<close>

definition drawer_value :: "(goerr + json) drawer \<Rightarrow> goerr + json" where
  "drawer_value d = obj (str_member ''id'' (dr_ID d) @ str_member ''fetch'' (dr_Fetch d) @ [(''view'', dr_View d)])"

primrec view_value :: "('y \<Rightarrow> goerr + json) \<Rightarrow> 'y view \<Rightarrow> goerr + json" where
  "view_value aj (View kind component dataSource columns filters rowActions item drawers sections metrics endpoint meth formFields
      submitLabel title link urlField flt extras) =
     obj (str_member ''kind'' kind @ str_omit ''component'' component
       @ ptr_omit ''data_source'' (map_option data_source_value dataSource)
       @ list_omit ''columns'' (map column_value columns) @ list_omit ''filters'' (map (filter_value aj) filters)
       @ list_omit ''row_actions'' (map (action_value aj) rowActions)
       @ ptr_omit ''item'' (map_option (timeline_item_value aj) item) @ list_omit ''drawers'' (map drawer_value (map (map_drawer (view_value aj)) drawers))
       @ list_omit ''sections'' (map detail_section_value sections) @ list_omit ''metrics'' (map metric_value metrics)
       @ str_omit ''endpoint'' endpoint @ str_omit ''method'' meth @ list_omit ''fields'' (map (form_field_value aj) formFields)
       @ str_omit ''submit_label'' submitLabel @ str_omit ''title'' title @ str_omit ''link'' link
       @ str_omit ''url_field'' urlField @ ptr_omit ''filter'' (map_option (filter_value aj) flt)
       @ map_omit aj ''extras'' extras)"

definition page_value :: "('y \<Rightarrow> goerr + json) \<Rightarrow> 'y page \<Rightarrow> goerr + json" where
  "page_value aj p = obj (str_member ''id'' (pg_ID p) @ str_member ''path'' (pg_Path p) @ str_member ''title'' (pg_Title p)
     @ list_omit ''requires'' (strs (pg_Requires p)) @ [(''view'', view_value aj (pg_View p))]
     @ ptr_omit ''empty_state'' (map_option empty_value (pg_EmptyState p)))"

definition widget_value :: "('y \<Rightarrow> goerr + json) \<Rightarrow> 'y widget \<Rightarrow> goerr + json" where
  "widget_value aj w = obj (str_member ''id'' (wg_ID w) @ str_member ''target'' (wg_Target w) @ str_omit ''section'' (wg_Section w)
     @ int_omit ''priority'' (wg_Priority w) @ [(''view'', view_value aj (wg_View w))])"

text \<open>No page stands for the nil slice; a valid manifest has one.\<close>

definition manifest_value :: "('y \<Rightarrow> goerr + json) \<Rightarrow> 'y manifest \<Rightarrow> goerr + json" where
  "manifest_value aj m = obj (str_member ''surface'' (mf_Surface m) @ str_member ''surface_version'' (mf_SurfaceVersion m)
     @ [(''schema_version'', Inr (JInt (mf_SchemaVersion m)))] @ str_member ''display_name'' (mf_DisplayName m)
     @ str_member ''icon'' (mf_Icon m) @ str_omit ''description'' (mf_Description m)
     @ list_omit ''permissions'' (map permission_value (mf_Permissions m))
     @ [(''pages'', if mf_Pages m = [] then Inr JNull else arr (map (page_value aj) (mf_Pages m)))]
     @ list_omit ''widgets'' (map (widget_value aj) (mf_Widgets m)))"

text \<open>The encoder of \<^verbatim>\<open>WriteJSON\<close> does not escape HTML characters, and writes nothing when it fails.\<close>

definition manifest_any :: "('y \<Rightarrow> goerr + json) \<Rightarrow> 'y manifest \<Rightarrow> any_value" where
  "manifest_any aj m = (case manifest_value aj m of Inl e \<Rightarrow> AnyBad e | Inr v \<Rightarrow> AnyJSON (print_json False v))"

text \<open>The mux that \<^verbatim>\<open>RegisterHandlers\<close> fills.\<close>

definition RegisterHandlers ::
  "('y \<Rightarrow> goerr + json) \<Rightarrow> 'y manifest \<Rightarrow> 'u data_handler \<Rightarrow> surface_request \<Rightarrow> 'u \<Rightarrow> (nat \<times> string) \<times> 'u" where
  "RegisterHandlers aj m h = serve_surface (manifest_any aj m) h"


section \<open>What the encoder yields\<close>

lemma Inl_flip: "Inl e = r \<Longrightarrow> r = Inl e"
  by (rule sym)

lemma map_sum_iff [simp]:
  "map_sum id f s = Inr b \<longleftrightarrow> (\<exists>a. s = Inr a \<and> b = f a)"
  "map_sum id f s = Inl e \<longleftrightarrow> s = Inl e"
  by (cases s; auto)+

lemma members_Inr: "members ms = Inr vs \<longleftrightarrow> ms = map (\<lambda>(k, v). (k, Inr v)) vs"
proof (induction ms arbitrary: vs)
  case (Cons m ms)
  obtain k r where m: "m = (k, r)" by (cases m)
  show ?case
  proof (cases vs)
    case (Cons w ws)
    then show ?thesis using m Cons.IH [of ws] by (cases w) (auto split: sum.splits)
  qed (auto simp: m split: sum.splits)
qed auto

lemma members_Inl: "members ms = Inl e \<Longrightarrow> \<exists>k. (k, Inl e) \<in> set ms"
  by (induction ms) (auto split: sum.splits)

lemma elements_Inr: "elements rs = Inr vs \<longleftrightarrow> rs = map Inr vs"
proof (induction rs arbitrary: vs)
  case (Cons r rs)
  then show ?case by (cases vs) (auto split: sum.splits)
qed auto

lemma elements_Inl: "elements rs = Inl e \<Longrightarrow> Inl e \<in> set rs"
  by (induction rs) (auto split: sum.splits)

lemma obj_Inr: "obj ms = Inr v \<longleftrightarrow> (\<exists>vs. v = JObj vs \<and> ms = map (\<lambda>(k, v). (k, Inr v)) vs)"
  by (auto simp: obj_def members_Inr [symmetric] split: sum.splits)

lemma obj_Inl: "obj ms = Inl e \<Longrightarrow> \<exists>k. (k, Inl e) \<in> set ms"
  by (auto simp: obj_def dest: members_Inl split: sum.splits)

lemma arr_Inr: "arr rs = Inr v \<longleftrightarrow> (\<exists>vs. v = JArr vs \<and> rs = map Inr vs)"
  by (auto simp: arr_def elements_Inr [symmetric] split: sum.splits)

lemma arr_Inl: "arr rs = Inl e \<Longrightarrow> Inl e \<in> set rs"
  by (auto simp: arr_def dest: elements_Inl split: sum.splits)

text \<open>The members of an encoded struct are looked up among those it was built from.\<close>

lemma obj_lookup:
  assumes "obj ms = Inr (JObj vs)"
  shows "map_option Inr (map_of vs k) = map_of ms k"
  using assms by (auto simp: obj_Inr map_of_map)

lemma map_add_hit: "(f ++ g) k = (case g k of None \<Rightarrow> f k | Some v \<Rightarrow> Some v)"
  by (simp add: map_add_def)

lemma lookup_members [simp]:
  "map_of (str_member k s) k' = (if k' = k then Some (Inr (JStr s)) else None)"
  "k' \<noteq> k \<Longrightarrow> map_of (str_omit k s) k' = None"
  "k' \<noteq> k \<Longrightarrow> map_of (list_omit k rs) k' = None"
  by (simp_all add: str_member_def str_omit_def list_omit_def)

text \<open>The errors of a struct are those of its dynamic values.\<close>

lemma member_errors [simp]:
  "(k', Inl e) \<notin> set (str_member k s)" "(k', Inl e) \<notin> set (str_omit k s)" "(k', Inl e) \<notin> set (int_omit k i)"
  "(k', Inl e) \<notin> set (bool_omit k b)" "Inl e \<notin> set (strs ss)"
  by (auto simp: str_member_def str_omit_def int_omit_def bool_omit_def strs_def)

lemma list_omit_error: "(k', Inl e) \<in> set (list_omit k rs) \<Longrightarrow> Inl e \<in> set rs"
  using arr_Inl [of rs e] by (auto simp: list_omit_def split: if_splits)

lemma ptr_omit_error: "(k', Inl e) \<in> set (ptr_omit k p) \<longleftrightarrow> k' = k \<and> p = Some (Inl e)"
  by (auto simp: ptr_omit_def split: option.split)

lemma map_error: "obj (map (\<lambda>(x, v). (x, any_value_of aj v)) m) = Inl e \<Longrightarrow> \<exists>y. aj y = Inl e"
  by (drule obj_Inl) (auto simp: any_value_of_def image_iff split: option.splits intro: sym)

lemma map_omit_error: "(k', Inl e) \<in> set (map_omit aj k m) \<Longrightarrow> \<exists>y. aj y = Inl e"
  using map_error [of aj "sort_key fst m" e] by (auto simp: map_omit_def split: if_splits)

lemma static_structs [simp]:
  "permission_value p \<noteq> Inl e" "empty_value es \<noteq> Inl e" "data_source_value d \<noteq> Inl e" "column_value c \<noteq> Inl e"
  "confirm_value cf \<noteq> Inl e" "detail_field_value f \<noteq> Inl e" "metric_value mt \<noteq> Inl e"
  by (auto simp: permission_value_def empty_value_def data_source_value_def column_value_def confirm_value_def
      detail_field_value_def metric_value_def dest!: obj_Inl)

lemma static_section [simp]: "detail_section_value s \<noteq> Inl e"
  by (auto simp: detail_section_value_def dest!: obj_Inl Inl_flip arr_Inl split: option.splits)

lemma dynamic_structs:
  "filter_value aj f = Inl e \<Longrightarrow> \<exists>y. aj y = Inl e"
  "form_field_value aj ff = Inl e \<Longrightarrow> \<exists>y. aj y = Inl e"
  "action_value aj a = Inl e \<Longrightarrow> \<exists>y. aj y = Inl e"
  "timeline_item_value aj t = Inl e \<Longrightarrow> \<exists>y. aj y = Inl e"
  by (auto simp: filter_value_def form_field_value_def action_value_def timeline_item_value_def ptr_omit_error
      dest!: obj_Inl Inl_flip list_omit_error map_omit_error)

lemma drawer_error: "drawer_value d = Inl e \<Longrightarrow> dr_View d = Inl e"
  by (auto simp: drawer_value_def dest!: obj_Inl Inl_flip)

lemma view_error: "view_value aj v = Inl e \<Longrightarrow> \<exists>y. aj y = Inl e"
proof (induction v)
  case (View x1 x2 x3 x4 x5 x6 x7 x8 x9 x10 x11 x12 x13 x14 x15 x16 x17 x18 x19)
  have drawers: "\<exists>y. aj y = Inl e" if "d \<in> set x8" "drawer_value (map_drawer (view_value aj) d) = Inl e" for d
    using View.IH [OF that(1), of "dr_View d"] drawer_error [OF that(2)]
    by (simp add: drawer.map_sel drawer.set_sel)
  then show ?case using View.prems
    by (auto simp: ptr_omit_error dest!: obj_Inl Inl_flip list_omit_error map_omit_error dynamic_structs)
qed

lemma page_error: "page_value aj p = Inl e \<Longrightarrow> \<exists>y. aj y = Inl e"
  by (auto simp: page_value_def ptr_omit_error dest!: obj_Inl Inl_flip list_omit_error view_error)

lemma widget_error: "widget_value aj w = Inl e \<Longrightarrow> \<exists>y. aj y = Inl e"
  using view_error [of aj "wg_View w" e] by (auto simp: widget_value_def dest!: obj_Inl)

lemma manifest_error: "manifest_value aj m = Inl e \<Longrightarrow> \<exists>y. aj y = Inl e"
  by (auto simp: manifest_value_def dest!: obj_Inl Inl_flip list_omit_error arr_Inl page_error widget_error split: if_splits)


lemma json_depth_JInt [simp]: "json_depth (JInt i) = 0"
  by (simp add: JInt_def)

lemma encodable: "(\<forall>y. \<exists>v. aj y = Inr v) \<Longrightarrow> \<exists>v. manifest_value aj m = Inr v"
  using manifest_error [of aj m] by (cases "manifest_value aj m") (metis Inl_Inr_False)+

lemma view_members:
  assumes "view_value aj v = Inr r"
  shows "\<exists>vms. r = JObj vms \<and> map_of vms ''kind'' = Some (JStr (v_Kind v))"
proof -
  obtain vms where r: "r = JObj vms" using assms by (cases v) (auto simp: obj_Inr)
  with assms show ?thesis by (cases v) (auto simp: map_add_hit dest!: obj_lookup [where k = "''kind''"])
qed

text \<open>The console finds in a page's object its id, its path, its title and the kind of its view.\<close>

definition shows_page :: "'y page \<Rightarrow> json \<Rightarrow> bool" where
  "shows_page p r = (\<exists>ms vms. r = JObj ms \<and> map_of ms ''id'' = Some (JStr (pg_ID p)) \<and> map_of ms ''path'' = Some (JStr (pg_Path p))
     \<and> map_of ms ''title'' = Some (JStr (pg_Title p)) \<and> map_of ms ''view'' = Some (JObj vms)
     \<and> map_of vms ''kind'' = Some (JStr (v_Kind (pg_View p))))"

lemma page_members:
  assumes "page_value aj p = Inr r"
  shows "shows_page p r"
proof -
  obtain ms where r: "r = JObj ms" using assms by (auto simp: page_value_def obj_Inr)
  note look = obj_lookup [OF assms [unfolded page_value_def r]]
  have "map_option Inr (map_of ms ''view'') = Some (view_value aj (pg_View p))" by (simp add: look map_add_hit)
  then obtain w where w: "map_of ms ''view'' = Some w" "view_value aj (pg_View p) = Inr w" by auto
  show ?thesis
    using look [of "''id''"] look [of "''path''"] look [of "''title''"] w(1) view_members [OF w(2)] r
    by (auto simp: shows_page_def map_add_hit)
qed

lemma manifest_members:
  assumes "manifest_value aj m = Inr v" "mf_Pages m \<noteq> []"
  shows "\<exists>ms ps. v = JObj ms \<and> map_of ms ''surface'' = Some (JStr (mf_Surface m))
    \<and> map_of ms ''schema_version'' = Some (JInt (mf_SchemaVersion m))
    \<and> map_of ms ''pages'' = Some (JArr ps) \<and> list_all2 shows_page (mf_Pages m) ps"
proof -
  obtain ms where v: "v = JObj ms" using assms by (auto simp: manifest_value_def obj_Inr)
  note look = obj_lookup [OF assms(1) [unfolded manifest_value_def v]]
  have "map_option Inr (map_of ms ''pages'') = Some (arr (map (page_value aj) (mf_Pages m)))"
    using assms(2) by (simp add: look map_add_hit)
  then obtain ps where ps: "map_of ms ''pages'' = Some (JArr ps)" "map (page_value aj) (mf_Pages m) = map Inr ps"
    by (auto simp: arr_Inr dest!: Inl_flip sym [of "Inr _"])
  from ps(2) have "list_all2 shows_page (mf_Pages m) ps"
    by (auto simp: list_all2_conv_all_nth list_eq_iff_nth_eq intro!: page_members [of aj])
  with ps(1) v show ?thesis using look [of "''surface''"] look [of "''schema_version''"] by (auto simp: map_add_hit)
qed


section \<open>Properties\<close>

text \<open>
  \<^bold>\<open>C37\<close>: the console gets the manifest that was loaded. When the encoder accepts the dynamic values of a
  manifest that \<^verbatim>\<open>LoadManifestFromBytes\<close> returned, and its texts are UTF-8, \<^verbatim>\<open>GET /surface/manifest\<close> is
  answered 200 with one JSON value and a newline, without running a handler; the value reads
  back to an object with the surface's name, schema version 1, and in the manifest's order one
  object per page, at least one, with that page's id, path, title and view kind.
\<close>

theorem manifest_is_served:
  assumes "LoadManifestFromBytes yaml raw = Inr m" and "\<forall>y. \<exists>v. aj y = Inr v"
    and "\<forall>v. manifest_value aj m = Inr v \<longrightarrow> good_json v \<and> json_depth v \<le> max_nesting_depth"
    and "sr_method req = ''GET''" and "sr_segments req = [''surface'', ''manifest'']"
  shows "\<exists>body ms ps. RegisterHandlers aj m h req u = ((200, body @ [CHR 0x0A]), u) \<and> json_parse body = Some (JObj ms)
    \<and> map_of ms ''surface'' = Some (JStr (mf_Surface m)) \<and> map_of ms ''schema_version'' = Some (JInt 1)
    \<and> map_of ms ''pages'' = Some (JArr ps) \<and> ps \<noteq> [] \<and> list_all2 shows_page (mf_Pages m) ps"
proof -
  have "valid_manifest m"
    using assms(1) by (auto simp: LoadManifestFromBytes_def Validate_None [symmetric] split: sum.splits option.splits)
  then have ne: "mf_Pages m \<noteq> []" and one: "mf_SchemaVersion m = 1"
    by (auto simp: valid_manifest_def SchemaVersionCurrent_def)
  obtain v where v: "manifest_value aj m = Inr v" using encodable [OF assms(2)] by blast
  then have "json_parse (print_json False v) = Some v" using assms(3) denotes_parse [OF denotes_print] by blast
  moreover have "RegisterHandlers aj m h req u = ((200, print_json False v @ [CHR 0x0A]), u)"
    using assms(4,5) v by (simp add: RegisterHandlers_def serve_surface_def manifest_any_def WriteJSON_def)
  ultimately show ?thesis using manifest_members [OF v ne] one ne by fastforce
qed

text \<open>
  A manifest that the encoder refuses is still answered 200: the status line is written before
  the encoder runs. The error is that of a dynamic value, since nothing else can fail.
\<close>

theorem refused_manifest_is_200:
  assumes "manifest_value aj m = Inl e" and "sr_method req = ''GET''" and "sr_segments req = [''surface'', ''manifest'']"
  shows "fst (RegisterHandlers aj m h req u) = WriteJSON 200 (AnyBad e) \<and> (\<exists>y. aj y = Inl e)"
  using assms manifest_error [OF assms(1)] by (simp add: RegisterHandlers_def serve_surface_def manifest_any_def)

text \<open>A manifest with one page, a table that is refreshed every 30 seconds; its dynamic values are strings.\<close>

definition pulse_manifest :: "string manifest" where
  "pulse_manifest = \<lparr>mf_Surface = ''pulse'', mf_SurfaceVersion = ''0.1'', mf_SchemaVersion = 1, mf_DisplayName = ''Pulse'',
     mf_Icon = ''bolt'', mf_Description = [], mf_Permissions = [],
     mf_Pages = [\<lparr>pg_ID = ''home'', pg_Path = ''/'', pg_Title = ''Home'', pg_Requires = [''read''],
        pg_View = View ''table'' [] (Some \<lparr>src_Endpoint = ''/d'', src_RefreshIntervalS = 30\<rparr>) [] [] [] None [] [] [] [] [] [] [] [] [] [] None
          [(''z'', Some ''1''), (''a'', None)],
        pg_EmptyState = None\<rparr>],
     mf_Widgets = []\<rparr>"

lemmas pulse_defs = pulse_manifest_def manifest_value_def page_value_def data_source_value_def obj_def arr_def str_member_def
  str_omit_def int_omit_def list_omit_def ptr_omit_def map_omit_def any_value_of_def strs_def

lemma pulse_loaded: "LoadManifestFromBytes (\<lambda>_. Inr pulse_manifest) raw = Inr pulse_manifest"
proof -
  have "Validate pulse_manifest = None" by code_simp
  then show ?thesis by (simp add: LoadManifestFromBytes_def)
qed

lemma pulse_good: "manifest_value (\<lambda>s. Inr (JStr s)) pulse_manifest = Inr v \<Longrightarrow> good_json v \<and> json_depth v \<le> max_nesting_depth"
  by (auto simp: pulse_defs valid_utf8_ascii byte_def max_nesting_depth_def)

theorem manifest_is_served_witness:
  "\<exists>body ms ps. RegisterHandlers (\<lambda>s. Inr (JStr s)) pulse_manifest failing (console_call ''GET'' [''surface'', ''manifest''] None) ()
      = ((200, body @ [CHR 0x0A]), ())
    \<and> json_parse body = Some (JObj ms) \<and> map_of ms ''surface'' = Some (JStr ''pulse'')
    \<and> map_of ms ''pages'' = Some (JArr ps) \<and> length ps = 1"
proof -
  from manifest_is_served [OF pulse_loaded, of "\<lambda>s. Inr (JStr s)" "console_call ''GET'' [''surface'', ''manifest''] None" failing "()"]
  show ?thesis using pulse_good by (fastforce simp: console_call_def pulse_manifest_def dest: list_all2_lengthD)
qed

end
