(* ===== verification/Mtls.thy ===== *)
theory Mtls
  imports Base64
begin

text \<open>
  Package \<^verbatim>\<open>mtls\<close> (\<^verbatim>\<open>src/mtls/mtls.go\<close>): building a \<^verbatim>\<open>*tls.Config\<close> from a PKCS#12 bundle.

  The operating system (\<^verbatim>\<open>os.ReadFile\<close>, \<^verbatim>\<open>os.Getenv\<close>) and the PKCS#12 decoder of
  \<^verbatim>\<open>golang.org/x/crypto\<close> are parameters, collected in the record \<open>mtls_env\<close>. Base64 is the
  model of \<^verbatim>\<open>encoding/base64\<close>; the text of its error is a parameter too. A \<^verbatim>\<open>Source\<close> is a Go
  \<^verbatim>\<open>int\<close>, so a value other than the three constants is possible and is kept.
\<close>


section \<open>Sources and configuration\<close>

datatype Source = SourceDisabled | SourceFile | SourceBase64 | SourceOther int

record config =
  Source :: Source
  Path :: string
  Base64 :: string
  Password :: string

text \<open>
  What \<^verbatim>\<open>pkcs12.Decode\<close> returns: a private key of some Go type and a certificate. \<open>RSAKey\<close> is
  the dynamic type \<^verbatim>\<open>*rsa.PrivateKey\<close>, \<open>OtherKey t\<close> any other, with its \<^verbatim>\<open>%T\<close> text.
\<close>

datatype private_key = RSAKey string | OtherKey string

record certificate =
  Raw :: bytes

record tls_certificate =
  Certificate :: "bytes list"
  PrivateKey :: string
  Leaf :: certificate

record tls_config =
  Certificates :: "tls_certificate list"
  RootCAs :: "certificate list"

record mtls_env =
  ReadFile :: "string \<Rightarrow> goerr + bytes"
  Getenv :: "string \<Rightarrow> string"
  Decode :: "bytes \<Rightarrow> string \<Rightarrow> goerr + private_key \<times> certificate"
  base64_error :: "string \<Rightarrow> goerr"


section \<open>Loading\<close>

definition loadFromP12Bytes :: "mtls_env \<Rightarrow> bytes \<Rightarrow> string \<Rightarrow> goerr + tls_config option" where
  "loadFromP12Bytes E raw password =
     (if raw = [] then Inl (ErrorText ''mtls: empty P12 payload'')
      else case Decode E raw password of
        Inl err \<Rightarrow> Inl (Wrap ''mtls: pkcs12 decode: '' err [])
      | Inr (key, cert) \<Rightarrow>
          (case key of
             OtherKey t \<Rightarrow>
               Inl (ErrorText (''mtls: P12 contained unsupported key type '' @ t @ '' (want *rsa.PrivateKey)''))
           | RSAKey rsaKey \<Rightarrow>
               Inr (Some \<lparr>Certificates = [\<lparr>Certificate = [Raw cert], PrivateKey = rsaKey, Leaf = cert\<rparr>],
                          RootCAs = []\<rparr>)))"

definition Load :: "mtls_env \<Rightarrow> config \<Rightarrow> goerr + tls_config option" where
  "Load E cfg =
     (case Source cfg of
        SourceDisabled \<Rightarrow> Inr None
      | SourceFile \<Rightarrow>
          (case ReadFile E (Path cfg) of
             Inl err \<Rightarrow> Inl (Wrap (''mtls: read '' @ go_quote (Path cfg) @ '': '') err [])
           | Inr raw \<Rightarrow> loadFromP12Bytes E raw (Password cfg))
      | SourceBase64 \<Rightarrow>
          (case b64_decode (Base64 cfg) of
             None \<Rightarrow> Inl (Wrap ''mtls: base64 decode: '' (base64_error E (Base64 cfg)) [])
           | Some raw \<Rightarrow> loadFromP12Bytes E raw (Password cfg))
      | SourceOther n \<Rightarrow> Inl (ErrorText (''mtls: unknown Source value '' @ show_int n)))"

definition LoadFromEnv :: "mtls_env \<Rightarrow> string \<Rightarrow> goerr + tls_config option" where
  "LoadFromEnv E pfx =
     (let enabled = Getenv E (pfx @ ''_MTLS_ENABLED'') in
      if enabled \<in> {[], ''false'', ''0'', ''False'', ''FALSE''}
      then Load E \<lparr>Source = SourceDisabled, Path = [], Base64 = [], Password = []\<rparr>
      else
        let path = Getenv E (pfx @ ''_CERTIFICATE'');
            b64 = Getenv E (pfx @ ''_CERTIFICATE_BASE64'');
            pwd = Getenv E (pfx @ ''_CERTIFICATE_PASSWORD'') in
        if path \<noteq> [] then Load E \<lparr>Source = SourceFile, Path = path, Base64 = [], Password = pwd\<rparr>
        else if b64 \<noteq> [] then Load E \<lparr>Source = SourceBase64, Path = [], Base64 = b64, Password = pwd\<rparr>
        else Inl (ErrorText (''mtls: '' @ pfx @ ''_MTLS_ENABLED=true but neither '' @ pfx
                    @ ''_CERTIFICATE nor '' @ pfx @ ''_CERTIFICATE_BASE64 is set'')))"


section \<open>What a loaded configuration holds\<close>

text \<open>The bytes of the bundle a configuration names, when they can be had.\<close>

definition p12_bundle :: "mtls_env \<Rightarrow> config \<Rightarrow> bytes option" where
  "p12_bundle E cfg =
     (case Source cfg of
        SourceFile \<Rightarrow> (case ReadFile E (Path cfg) of Inl _ \<Rightarrow> None | Inr raw \<Rightarrow> Some raw)
      | SourceBase64 \<Rightarrow> b64_decode (Base64 cfg)
      | _ \<Rightarrow> None)"

lemma loadFromP12Bytes_Some:
  "loadFromP12Bytes E raw pwd = Inr (Some c) \<longleftrightarrow>
     raw \<noteq> [] \<and> (\<exists>k cert. Decode E raw pwd = Inr (RSAKey k, cert) \<and>
       c = \<lparr>Certificates = [\<lparr>Certificate = [Raw cert], PrivateKey = k, Leaf = cert\<rparr>], RootCAs = []\<rparr>)"
  by (auto simp: loadFromP12Bytes_def split: sum.split private_key.split)

lemma loadFromP12Bytes_not_nil: "loadFromP12Bytes E raw pwd \<noteq> Inr None"
  by (auto simp: loadFromP12Bytes_def split: sum.split private_key.split)

lemma Load_p12:
  "Load E cfg = Inr (Some c) \<longleftrightarrow> (\<exists>raw. p12_bundle E cfg = Some raw \<and> loadFromP12Bytes E raw (Password cfg) = Inr (Some c))"
  by (auto simp: Load_def p12_bundle_def split: Source.split sum.split option.split)

lemma Load_nil: "Load E cfg = Inr None \<longleftrightarrow> Source cfg = SourceDisabled"
  by (auto simp: Load_def loadFromP12Bytes_not_nil split: Source.split sum.split option.split)


section \<open>Properties\<close>

text \<open>
  \<^bold>\<open>C40\<close>: \<^verbatim>\<open>Load\<close> returns a configuration exactly when the source's bundle can be read, is not
  empty and decodes under the password to an RSA key; it then holds that one key pair, with
  an empty pool of root authorities (not the system's). A nil configuration without an error
  is returned for the disabled source only, so a failure never looks like "no mTLS".
\<close>

theorem Load_exact:
  "(Load E cfg = Inr (Some c) \<longleftrightarrow>
      (\<exists>raw k cert. p12_bundle E cfg = Some raw \<and> raw \<noteq> [] \<and> Decode E raw (Password cfg) = Inr (RSAKey k, cert) \<and>
         c = \<lparr>Certificates = [\<lparr>Certificate = [Raw cert], PrivateKey = k, Leaf = cert\<rparr>], RootCAs = []\<rparr>))
   \<and> (Load E cfg = Inr None \<longleftrightarrow> Source cfg = SourceDisabled)"
  by (auto simp: Load_p12 Load_nil loadFromP12Bytes_Some)

text \<open>
  the two ways of shipping a bundle are interchangeable: with mTLS enabled, a base64
  variable holding the encoding of a file's contents gives what naming the file gives, errors
  of the decoder included; and when both variables are set the file wins.
\<close>

theorem LoadFromEnv_sources_agree:
  assumes "Getenv E (pfx @ ''_MTLS_ENABLED'') \<notin> {[], ''false'', ''0'', ''False'', ''FALSE''}"
    and "Getenv E (pfx @ ''_CERTIFICATE'') = path" and "path \<noteq> []" and "ReadFile E path = Inr raw" and "raw \<noteq> []"
    and "\<forall>v. Getenv E' v = (if v = pfx @ ''_CERTIFICATE'' then [] else
                if v = pfx @ ''_CERTIFICATE_BASE64'' then b64_encode raw else Getenv E v)"
    and "Decode E' = Decode E"
  shows "LoadFromEnv E' pfx = LoadFromEnv E pfx
    \<and> LoadFromEnv E pfx = Load E \<lparr>Source = SourceFile, Path = path, Base64 = [],
                                   Password = Getenv E (pfx @ ''_CERTIFICATE_PASSWORD'')\<rparr>"
proof -
  have ne: "b64_encode raw \<noteq> []" using assms(5) by (cases raw rule: b64_encode.cases) auto
  have "LoadFromEnv E pfx = loadFromP12Bytes E raw (Getenv E (pfx @ ''_CERTIFICATE_PASSWORD''))"
    using assms(1-4) by (simp add: LoadFromEnv_def Load_def)
  moreover have "LoadFromEnv E' pfx = loadFromP12Bytes E' raw (Getenv E (pfx @ ''_CERTIFICATE_PASSWORD''))"
    using assms(1,6) ne by (simp add: LoadFromEnv_def Load_def)
  moreover have "loadFromP12Bytes E' raw pwd = loadFromP12Bytes E raw pwd" for pwd
    by (simp add: loadFromP12Bytes_def assms(7))
  ultimately show ?thesis using assms(1-3) by (simp add: LoadFromEnv_def)
qed

text \<open>An environment with one bundle, mounted as a file or shipped as text.\<close>

definition demo_env :: "(string \<times> string) list \<Rightarrow> mtls_env" where
  "demo_env vars =
     \<lparr>ReadFile = (\<lambda>p. if p = ''/certs/efi.p12'' then Inr ''bundle'' else Inl (ErrorText ''no such file'')),
      Getenv = (\<lambda>v. case map_of vars v of None \<Rightarrow> [] | Some s \<Rightarrow> s),
      Decode = (\<lambda>raw pwd. if pwd = ''secret'' then Inr (RSAKey ''key'', \<lparr>Raw = raw\<rparr>) else Inl (ErrorText ''wrong password'')),
      base64_error = (\<lambda>s. ErrorText ''illegal base64 data'')\<rparr>"

definition demo_base :: "(string \<times> string) list" where
  "demo_base = [(''EFI_MTLS_ENABLED'', ''true''), (''EFI_CERTIFICATE_PASSWORD'', ''secret'')]"

theorem LoadFromEnv_sources_agree_witness:
  "LoadFromEnv (demo_env ((''EFI_CERTIFICATE_BASE64'', b64_encode ''bundle'') # demo_base)) ''EFI''
     = LoadFromEnv (demo_env ((''EFI_CERTIFICATE'', ''/certs/efi.p12'') # demo_base)) ''EFI''"
proof -
  have "\<forall>v. Getenv (demo_env ((''EFI_CERTIFICATE_BASE64'', b64_encode ''bundle'') # demo_base)) v =
      (if v = ''EFI'' @ ''_CERTIFICATE'' then [] else if v = ''EFI'' @ ''_CERTIFICATE_BASE64'' then b64_encode ''bundle''
       else Getenv (demo_env ((''EFI_CERTIFICATE'', ''/certs/efi.p12'') # demo_base)) v)"
    by (simp add: demo_env_def demo_base_def del: b64_encode.simps)
  from LoadFromEnv_sources_agree [OF _ _ _ _ _ this, of "''/certs/efi.p12''"] show ?thesis
    by (simp add: demo_env_def demo_base_def del: b64_encode.simps)
qed

end
