(* ===== verification/Spec2Isabelle.thy ===== *)
theory Spec2Isabelle
  imports AmqpRace AmqpPool AmqpLoops AmqpLife HttpPool Hosting EventBus Webhook SurfaceJson Mtls
begin

text \<open>
  Verification of \<^verbatim>\<open>yggdrasil-sdk-go\<close>, the Go library with which integration adapters are
  written. An adapter's \<^verbatim>\<open>main\<close> registers capabilities (or reconcilers, which the SDK turns
  into the capability \<^verbatim>\<open>execute\<close>), picks a transport and calls \<^verbatim>\<open>Run\<close>; requests arrive as
  deliveries over AMQP or HTTP, the SDK runs the author's handler, answers and settles the
  delivery, and reports every successful change as a mutation event to the core's event bus.
  Beside this path the SDK has a webhook server with signature checks, the surface manifest
  with its endpoints, and a loader for client certificates.

  \<^bold>\<open>Theories and the code they model\<close>

  \<^item> \<open>Prelude\<close>: Go strings as byte lists, Go errors (\<^verbatim>\<open>errors.Is\<close>, \<^verbatim>\<open>errors.As\<close>, wrapping, and
    \<^verbatim>\<open>webhookhttp.TerminalError\<close>), the functions of \<^verbatim>\<open>strings\<close> and \<^verbatim>\<open>strconv\<close> the SDK calls, and the
    interfaces \<open>registry\<close> (last write wins) and \<open>codec\<close> (round trip) as locales.
  \<^item> \<open>Json\<close>, \<open>JsonText\<close>: \<^verbatim>\<open>encoding/json\<close> (parser with nesting limit, string quoting, \<^verbatim>\<open>%q\<close>, numbers as
    float64, decoding into structs with case folding of keys) and lemmas that relate a text
    to the value it denotes.
  \<^item> \<open>Base64\<close>, \<open>Digest\<close>: \<^verbatim>\<open>encoding/base64\<close>, \<^verbatim>\<open>encoding/hex\<close>, SHA-256 and HMAC on 32-bit words; the
    constants of SHA-256 are computed from the prime roots that define them.
  \<^item> \<open>Rpc\<close> (\<^verbatim>\<open>rpc/transport.go\<close>): messages, sentinels, the \<^verbatim>\<open>Delivery\<close> methods, the interfaces \<^verbatim>\<open>Transport\<close> and
    \<^verbatim>\<open>Subscription\<close> as a record of operations, and the contracts as locales: \<open>delivery_contract\<close> (at most
    one answer and one settlement per delivery), \<open>transport_contract\<close> (what consuming opens and
    closing ends), \<open>closable\<close> (closing a transport is idempotent and leaves it closed),
    \<open>capped_backoff\<close> (doubling delays under a cap), and for step relations \<open>step_invariant\<close>,
    \<open>throttle\<close> (a semaphore's bound, which gives an invariant) and \<open>draining\<close> (work that can always be
    brought to its end).
  \<^item> \<open>Amqp\<close>, \<open>AmqpRace\<close>, \<open>AmqpPool\<close>, \<open>AmqpLoops\<close>, \<open>AmqpLife\<close> (\<^verbatim>\<open>rpc/amqp/amqp.go\<close>): the transport, its subscriptions and
    deliveries as functions on a state record with the AMQP library as the record \<open>lib\<close> of
    parameters; the interleavings of \<^verbatim>\<open>reconnect\<close>, \<^verbatim>\<open>publishChannel\<close> and the transport's \<^verbatim>\<open>Close\<close> as a step
    relation; the handlers that the calls of \<^verbatim>\<open>deliverLoop\<close> run concurrently, each under its semaphore, as a second; the
    watchdog loop, and \<^verbatim>\<open>runWithReconnect\<close> against the subscription's \<^verbatim>\<open>Close\<close> as a third; and histories of
    whole operations with the well-formedness of the transport's state.
  \<^item> \<open>HttpTransport\<close> (\<^verbatim>\<open>rpc/http/http.go\<close>): envelope encoding, client, server and closing;
    \<open>HttpPool\<close>: the exchanges \<^verbatim>\<open>net/http\<close> serves concurrently, under the semaphore and against \<^verbatim>\<open>Close\<close>.
  \<^item> \<open>Adapter\<close> (\<^verbatim>\<open>adapter/adapter.go\<close>, \<^verbatim>\<open>adapter/transport.go\<close>): registration, \<^verbatim>\<open>Run\<close>, \<^verbatim>\<open>wrap\<close>, the error
    envelope, \<^verbatim>\<open>ListenHTTP\<close>, \<^verbatim>\<open>ListenAMQP\<close> and the dial loop. \<^verbatim>\<open>Run\<close> works on any transport, given by its
    record of operations; \<open>Hosting\<close> gives it the two of the repository, as the listeners build them.
  \<^item> \<open>Events\<close> (\<^verbatim>\<open>sdk/events\<close>): mutation events, their JSON and the HTTP emitter with its retries.
  \<^item> \<open>Reconcile\<close>, \<open>ReconcileIds\<close> (\<^verbatim>\<open>sdk/reconcile\<close>): options, the dispatch tables, the three operations,
    inference of references and resource ids, emission; \<open>EventBus\<close>: the SDK with the HTTP emitter behind it.
  \<^item> \<open>Hmac\<close> (\<^verbatim>\<open>sig/hmac\<close>), \<open>Webhook\<close> (\<^verbatim>\<open>webhookhttp\<close>), \<open>Surface\<close> and \<open>SurfaceJson\<close> (\<^verbatim>\<open>surface\<close>: types, validation, endpoints;
    the JSON the struct tags give), \<open>Mtls\<close> (\<^verbatim>\<open>mtls\<close>).

  A Go struct is a record with the struct's fields, an operation a function from the state
  before to the result and the state after, an error result \<open>Inl\<close> or \<open>Some\<close>, a panic or a
  goroutine blocked for ever an outcome of its own. Code that is not in the repository
  (the AMQP client, the HTTP client and server, YAML, PKCS#12, the author's handlers and
  reconcilers, clocks and UUIDs) is an argument of the definitions that use it.

  \<^bold>\<open>What is shown\<close>

  \<^item> Deliveries: over both transports every delivery is answered at most once and settled
    exactly once whatever the handler does (\<open>delivery_contract\<close> interpreted on both). Concurrent
    handlers lose nothing and refine the sequential code delivery by delivery (\<open>throttle\<close>,
    ledgers). They stay within the configured concurrency per HTTP subscription and per AMQP channel:
    after a rebind the handlers of the old and the new channel together may exceed it. This
    theory adds what an adapter sends on every branch.
  \<^item> Running: an adapter reaches its wait with every capability consumed, over both transports,
    answers its callers from there, and leaves nothing open when it ends, whatever happened
    (\<open>transport_contract\<close>); and why it cannot run again on the same HTTP transport.
  \<^item> Reconciling: the three operations on every branch, one event per success and none per
    failure, legacy names as their canonical operations; end to end from
    registration over \<^verbatim>\<open>Run\<close> on HTTP to the client's reply, and on to the requests the core receives.
  \<^item> Connections: single flight of reconnects, recovery of subscriptions and of the watchdog
    with its delays, finality of \<^verbatim>\<open>Close\<close>, well-formedness of the transport after every history of
    operations; and the executions in which the locking goes wrong.
  \<^item> Retries: the schedules of the three loops, with their bounds.
  \<^item> Webhooks: the signature verifiers accept exactly the HMACs of the payload; the mux built
    from the route table serves every request by the handler last registered for it.
  \<^item> Data: round trips of envelopes, headers, base64 and ids; the JSON forms; manifest
    validation against its declarative meaning, and what the console reads of a served manifest;
    loading of certificates.

  \<^bold>\<open>Bounds and fuel\<close>

  The JSON parser runs with fuel taken from the length of its input, proved sufficient; its
  nesting limit of 10000 is the library's. The rebinding and watchdog loops of AMQP, which
  the code does not bound, take fuel, and their properties state that enough fuel gives the
  result. All other loops are total functions. Where Go's 64-bit arithmetic can wrap (the
  skew of a Stripe timestamp, the conversion of a float64 id) the wrap-around is written out.

  \<^bold>\<open>Not modelled, or modelled up to a limit\<close>

  \<^item> \<^verbatim>\<open>ToLower\<close> folds ASCII letters only; \<^verbatim>\<open>%q\<close> takes bytes above 127 as printable; the sign of a
    float64 zero is dropped; the texts of \<^verbatim>\<open>encoding/json\<close> errors are not reproduced; times are
    their RFC 3339 texts.
  \<^item> \<^verbatim>\<open>ServeMux\<close> patterns are exact paths (the surface endpoints with their one wildcard apart);
    the text of its panic on a duplicate pattern is not reproduced; sockets, TLS handshakes and
    the enforcement of server timeouts belong to \<^verbatim>\<open>net/http\<close>.
  \<^item> Contexts are their observable end: when they are done and with which error. The context that a
    handler receives is part of what the handler is: the transports do not look at it again.
    \<^verbatim>\<open>reconcile.Discoverer\<close> and \<^verbatim>\<open>DriftReporter\<close> are interfaces the SDK never calls; the format, filter and
    slot names of \<^verbatim>\<open>surface/views.go\<close> are read by no code.
\<close>


section \<open>Hosting a handler on a transport\<close>

text \<open>
  An author's handler reads the data of its delivery and its own state; it leaves settling and
  replying to \<^verbatim>\<open>Adapter.wrap\<close>. \<open>plain\<close> is the data of a delivery and \<open>hosted\<close> runs such a
  handler on the state of an HTTP exchange.
\<close>

definition plain :: "'s delivery \<Rightarrow> 'w delivery" where
  "plain d = \<lparr>d_Endpoint = d_Endpoint d, d_Body = d_Body d, d_ContentType = d_ContentType d, d_Headers = d_Headers d,
     d_CorrelationID = d_CorrelationID d, d_ReplyTo = d_ReplyTo d, d_AckFn = None, d_NackFn = None, d_ReplyFn = None\<rparr>"

definition hosted :: "'w adapter_handler \<Rightarrow> 'w hstate adapter_handler" where
  "hosted h d s = (let (r, w) = h (plain d) (hs_user s) in (r, s\<lparr>hs_user := w\<rparr>))"

definition http_data :: "string \<Rightarrow> envelope \<Rightarrow> 'w delivery" where
  "http_data endpoint e = \<lparr>d_Endpoint = endpoint, d_Body = env_Body e, d_ContentType = env_ContentType e,
     d_Headers = env_Headers e, d_CorrelationID = env_CorrelationID e, d_ReplyTo = ''http-response'', d_AckFn = None,
     d_NackFn = None, d_ReplyFn = None\<rparr>"

lemma plain_http: "plain (http_delivery endpoint e) = http_data endpoint e"
  by (simp add: plain_def http_delivery_def http_data_def)

text \<open>What the originator of a request is sent for the result of a handler.\<close>

definition result_body :: "goerr + gobytes \<times> string \<Rightarrow> gobytes" where
  "result_body r = (case r of Inl err \<Rightarrow> Some (errorEnvelope err) | Inr (body, _) \<Rightarrow> body)"

definition result_type :: "goerr + gobytes \<times> string \<Rightarrow> string" where
  "result_type r = (case r of Inl _ \<Rightarrow> application_json
     | Inr (_, ct) \<Rightarrow> if ct = [] then application_json else ct)"

lemma wrap_over_http:
  assumes "hsub_handler sub = wrap (hosted h)" and "h (http_data (hsub_endpoint sub) e) u = (r, u')"
  shows "run_handler sub e \<lparr>hs_replied = False, hs_answers = [], hs_writeErr = we, hs_user = u\<rparr>
    = \<lparr>hs_replied = True, hs_answers = [Answer 200 application_json (marshal_envelope
         (empty_envelope\<lparr>env_CorrelationID := env_CorrelationID e, env_ContentType := result_type r,
            env_Body := result_body r\<rparr>))], hs_writeErr = we, hs_user = u'\<rparr>"
proof -
  have "hosted h (http_delivery (hsub_endpoint sub) e) \<lparr>hs_replied = False, hs_answers = [], hs_writeErr = we, hs_user = u\<rparr>
      = (r, \<lparr>hs_replied = False, hs_answers = [], hs_writeErr = we, hs_user = u'\<rparr>)"
    using assms(2) by (simp add: hosted_def plain_http)
  then show ?thesis
    by (simp add: run_handler_def assms(1) wrap_def Reply_def Nack_def Ack_def http_delivery_def http_reply_def
        http_nack_def http_ack_def write_answer_def empty_envelope_def result_body_def result_type_def
        application_json_def Let_def split: sum.split option.split)
qed

lemma served_over_http:
  assumes "hsub_handler sub = wrap (hosted h)" and "\<not> hsub_closed sub"
    and "good_envelope (request_envelope req)"
    and "bytes_of (rq_Body req) \<noteq> [] \<or> rq_CorrelationID req \<noteq> [] \<or> rq_Headers req \<noteq> []"
    and "h (http_data (hsub_endpoint sub) (request_envelope req)) u = (r, u')"
  shows "serveHTTP sub (plain_call\<lparr>hc_body := Inr (marshal_envelope (request_envelope req))\<rparr>) u
    = ([Answer 200 application_json (marshal_envelope (empty_envelope\<lparr>env_CorrelationID := rq_CorrelationID req,
          env_ContentType := result_type r, env_Body := result_body r\<rparr>))], u')"
proof -
  have dec: "decode_inbound (marshal_envelope (request_envelope req)) = request_envelope req"
    using assms(3,4) by (intro decode_inbound_envelope) (auto simp: request_envelope_def)
  have corr: "env_CorrelationID (request_envelope req) = rq_CorrelationID req" by (simp add: request_envelope_def)
  show ?thesis
    using assms(2) wrap_over_http [OF assms(1,5)] by (simp add: serveHTTP_def plain_call_def dec corr Let_def)
qed

lemma application_json_utf8: "valid_utf8 application_json"
  by (rule valid_utf8_ascii) (simp add: application_json_def byte_def)

lemma called_over_http:
  assumes "rq_Endpoint req \<noteq> []" "ht_BaseURL t \<noteq> []" "ht_Mux t = Some mux"
    "map_of mux (ht_PathPrefix t @ rq_Endpoint req) = Some i"
    and srv: "serveHTTP (ht_store t i) (plain_call\<lparr>hc_body := Inr (marshal_envelope (request_envelope req))\<rparr>) u
      = ([Answer 200 application_json (marshal_envelope (empty_envelope\<lparr>env_CorrelationID := rq_CorrelationID req,
          env_ContentType := ct, env_Body := b\<rparr>))], u')"
    and "valid_utf8 ct" "valid_utf8 (rq_CorrelationID req)"
  shows "HttpTransport.Request t (\<lambda>_. None) (loopback t plain_call u) req =
    Inr \<lparr>rp_Body = b, rp_ContentType = ct, rp_Headers = [], rp_CorrelationID = rq_CorrelationID req\<rparr>"
proof -
  let ?e = "empty_envelope\<lparr>env_CorrelationID := rq_CorrelationID req, env_ContentType := ct, env_Body := b\<rparr>"
  have "good_envelope ?e" using assms(6,7) by (simp add: good_envelope_def good_headers_def empty_envelope_def)
  then have rt: "unmarshal_envelope (marshal_envelope ?e) = Some ?e" by (rule envelope_wire.round_trip)
  have "env_Headers ?e = []" by (simp add: empty_envelope_def)
  moreover have "fst (serveHTTP (ht_store t i) (plain_call\<lparr>hc_body := Inr (marshal_envelope (request_envelope req))\<rparr>) u)
      = [Answer 200 application_json (marshal_envelope ?e)]" by (simp add: srv)
  note Request_loopback [OF assms(1-4) this]
  ultimately show ?thesis by (simp add: rt)
qed

lemma serve_mux_found:
  "ht_Mux t = Some mux \<Longrightarrow> map_of mux path = Some i \<Longrightarrow> serve_mux t path c u = serveHTTP (ht_store t i) c u"
  by (simp add: serve_mux_def)

text \<open>The wrapped handler on an AMQP delivery: what leaves the process, on every branch.\<close>

definition amqp_trace :: "'n lib \<Rightarrow> raw_delivery \<Rightarrow> nat option \<Rightarrow> goerr + gobytes \<times> string \<Rightarrow> 'n \<Rightarrow> wire list" where
  "amqp_trace l raw ch r n =
     (let answer = reply_publishing raw (result_body r) (result_type r);
          delivered = (case ch of None \<Rightarrow> False | Some c \<Rightarrow>
             rd_ReplyTo raw \<noteq> [] \<and> fst (l_Publish l c (rd_ReplyTo raw) answer n) = None)
      in (if rd_ReplyTo raw \<noteq> [] \<and> ch \<noteq> None then [WirePublish (rd_ReplyTo raw) answer] else [])
         @ [case r of Inl _ \<Rightarrow> WireNack False | Inr _ \<Rightarrow> if delivered then WireAck else WireNack True])"

lemma settle_after_settle: "ds_settled s \<Longrightarrow> settle x f s = (None, s)"
  by (simp add: settle_def)

lemma handle_settled:
  assumes "handler (amqp_delivery l endpoint raw) s = (e, s1)" and "ds_settled s1"
  shows "handle_raw l handler endpoint raw s = s1"
  using assms by (simp add: handle_raw_def ack_fn_def nack_fn_def settle_after_settle split: option.split)

lemma application_json_ne [simp]: "application_json \<noteq> []"
  by (simp add: application_json_def)

lemma content_type_result: "content_type (result_type r) = result_type r"
  by (simp add: content_type_def result_type_def split: sum.split)

lemma wrap_wire:
  assumes "handler (amqp_delivery l endpoint raw) (fresh_state ch n) = (r, fresh_state ch n1)"
  shows "ds_settled (snd (wrap handler (amqp_delivery l endpoint raw) (fresh_state ch n)))
    \<and> ds_wire (snd (wrap handler (amqp_delivery l endpoint raw) (fresh_state ch n))) = amqp_trace l raw ch r n1"
  using assms
  by (cases r; cases ch)
    (auto simp: wrap_def Reply_def Nack_def Ack_def amqp_delivery_def reply_fn_def nack_fn_def ack_fn_def settle_def
      send_def fresh_state_def amqp_trace_def result_body_def result_type_def content_type_def Let_def
      split: prod.split option.split)

lemma handled_wire:
  assumes "handler (amqp_delivery l endpoint raw) (fresh_state ch n) = (r, fresh_state ch n1)"
  shows "ds_wire (handle_raw l (wrap handler) endpoint raw (fresh_state ch n)) = amqp_trace l raw ch r n1"
  using wrap_wire [where handler = handler and n = n, OF assms]
    handle_settled [of "wrap handler" l endpoint raw "fresh_state ch n"]
  by (cases "wrap handler (amqp_delivery l endpoint raw) (fresh_state ch n)") simp


text \<open>The same for a handler that makes calls of its own: the ledger of the delivery.\<close>

definition closing_call :: "goerr + gobytes \<times> string \<Rightarrow> bool \<Rightarrow> action" where
  "closing_call r sent = (case r of Inl _ \<Rightarrow> DoNack False | Inr _ \<Rightarrow> if sent then DoAck else DoNack True)"

definition answer_sent :: "'n lib \<Rightarrow> raw_delivery \<Rightarrow> nat \<Rightarrow> goerr + gobytes \<times> string \<Rightarrow> 'n dstate \<Rightarrow> bool" where
  "answer_sent l raw c r s \<longleftrightarrow> rd_ReplyTo raw \<noteq> []
     \<and> (ds_replied s \<or> fst (l_Publish l c (rd_ReplyTo raw) (reply_publishing raw (result_body r) (result_type r)) (ds_net s)) = None)"

lemma Reply_sent:
  assumes "ds_ch s = Some c"
  shows "fst (Reply (amqp_delivery l endpoint raw) (result_body r) (result_type r) s) = None \<longleftrightarrow> answer_sent l raw c r s"
  using assms content_type_result [of r]
  by (auto simp: Reply_def amqp_delivery_def reply_fn_def send_def answer_sent_def content_type_def [symmetric] Let_def case_prod_beta)

lemma Reply_type:
  "Reply (amqp_delivery l endpoint raw) b (if ct = [] then application_json else ct) = Reply (amqp_delivery l endpoint raw) b ct"
  by (auto simp: Reply_def amqp_delivery_def)

lemma wrap_calls:
  assumes "handler (amqp_delivery l endpoint raw) s0 = (r, s)"
  shows "snd (wrap handler (amqp_delivery l endpoint raw) s0) = acts (amqp_delivery l endpoint raw)
    [DoReply (result_body r) (result_type r),
     closing_call r (fst (Reply (amqp_delivery l endpoint raw) (result_body r) (result_type r) s) = None)] s"
  using assms
  by (cases r) (auto simp: wrap_def closing_call_def result_body_def result_type_def Reply_type Let_def split: prod.split option.split)

lemma handled_ledger:
  assumes "handler (amqp_delivery l endpoint raw) (fresh_state (Some c) n) = (r, s)"
    and s: "s = acts (amqp_delivery l endpoint raw) calls (fresh_state (Some c) n1)"
  shows "ledger_of (handle_raw l (wrap handler) endpoint raw (fresh_state (Some c) n))
    = fold (ledger_act raw) (calls @ [DoReply (result_body r) (result_type r), closing_call r (answer_sent l raw c r s)]) new_ledger"
proof -
  let ?d = "amqp_delivery l endpoint raw" and ?closing = "[DoReply (result_body r) (result_type r), closing_call r (answer_sent l raw c r s)]"
  let ?f = "fresh_state (Some c) n1"
  have f: "ds_ch ?f \<noteq> None" "ledger_of ?f = new_ledger" by (simp_all add: fresh_state_def ledger_of_def new_ledger_def)
  have "ds_ch s = Some c" unfolding s using acts_refine [OF f(1)] by (simp add: fresh_state_def)
  then have w: "snd (wrap handler ?d (fresh_state (Some c) n)) = acts ?d (calls @ ?closing) ?f"
    using wrap_calls [where handler = handler, OF assms(1)] Reply_sent [of s c l endpoint raw r] by (simp add: acts_append s)
  have led: "ledger_of (acts ?d (calls @ ?closing) ?f) = fold (ledger_act raw) (calls @ ?closing) new_ledger"
    using acts_refine [OF f(1)] f(2) by simp
  have "fst (ledger_act raw (closing_call r b) L)" for b L
    by (cases L) (simp add: closing_call_def split: sum.split)
  then have "ds_settled (acts ?d (calls @ ?closing) ?f)" using led by (simp add: ledger_of_def) (metis fst_conv)
  with w have "handle_raw l (wrap handler) endpoint raw (fresh_state (Some c) n) = acts ?d (calls @ ?closing) ?f"
    using handle_settled [of "wrap handler" l endpoint raw "fresh_state (Some c) n"]
    by (cases "wrap handler ?d (fresh_state (Some c) n)") simp
  then show ?thesis using led by simp
qed


section \<open>Properties across components\<close>

text \<open>
  \<^bold>\<open>C2\<close>: an adapter on AMQP. Whatever calls of \<^verbatim>\<open>Ack\<close>, \<^verbatim>\<open>Nack\<close> and \<^verbatim>\<open>Reply\<close> a handler makes on its delivery before it
  returns, what leaves the process for the message is what the ledger of the delivery
  records for those calls followed by two of the SDK: the answer (the handler's body, or
  the error envelope) and one settlement, which is a rejection without requeue for a
  handler error, an ack when the answer counts as sent, and a rejection with requeue otherwise; a
  call that comes second of its kind does nothing. So for a handler that leaves its delivery
  to the SDK it is, on every branch, exactly the answer to the message's reply queue under its
  correlation id, when there is a reply queue and a channel, and then that settlement. The
  transport's own fallback adds nothing, and neither does the time the handler took: its result
  alone decides.
\<close>

theorem adapter_over_amqp:
  assumes "handler (amqp_delivery l endpoint raw) (fresh_state ch n) = (r, s)"
    and "s = acts (amqp_delivery l endpoint raw) calls (fresh_state ch n1)"
  shows "(calls = [] \<longrightarrow> ds_wire (handle_raw l (wrap handler) endpoint raw (fresh_state ch n)) = amqp_trace l raw ch r n1)
    \<and> (\<forall>c. ch = Some c \<longrightarrow> ledger_of (handle_raw l (wrap handler) endpoint raw (fresh_state ch n))
         = fold (ledger_act raw) (calls @ [DoReply (result_body r) (result_type r), closing_call r (answer_sent l raw c r s)]) new_ledger)"
proof (intro conjI impI allI)
  show "ds_wire (handle_raw l (wrap handler) endpoint raw (fresh_state ch n)) = amqp_trace l raw ch r n1" if "calls = []"
    using handled_wire [where handler = handler and n = n] assms that by simp
  show "ledger_of (handle_raw l (wrap handler) endpoint raw (fresh_state ch n))
      = fold (ledger_act raw) (calls @ [DoReply (result_body r) (result_type r), closing_call r (answer_sent l raw c r s)]) new_ledger"
    if "ch = Some c" for c
    using handled_ledger [where handler = handler and n = n] assms that by blast
qed

theorem adapter_over_amqp_witness:
  "ds_wire (handle_raw ex_lib (wrap (\<lambda>d s. (Inl (ErrorText ''no''), s))) ''q'' (ex_raw ''c'') (fresh_state (Some 1) 2))
     = [WirePublish ''amq.gen'' (reply_publishing (ex_raw ''c'') (Some (errorEnvelope (ErrorText ''no''))) application_json),
        WireNack False]
   \<and> ds_wire (handle_raw ex_lib (wrap (\<lambda>d s. (Inl (ErrorText ''no''), acts d [DoAck] s))) ''q'' (ex_raw ''c'') (fresh_state (Some 1) 2))
     = [WireAck, WirePublish ''amq.gen'' (reply_publishing (ex_raw ''c'') (Some (errorEnvelope (ErrorText ''no''))) application_json)]"
proof
  show "ds_wire (handle_raw ex_lib (wrap (\<lambda>d s. (Inl (ErrorText ''no''), s))) ''q'' (ex_raw ''c'') (fresh_state (Some 1) 2))
      = [WirePublish ''amq.gen'' (reply_publishing (ex_raw ''c'') (Some (errorEnvelope (ErrorText ''no''))) application_json), WireNack False]"
    using adapter_over_amqp [of "\<lambda>d s. (Inl (ErrorText ''no''), s)" ex_lib "''q''" "ex_raw ''c''" "Some 1" 2 _ _ "[]", OF refl]
    by (simp add: amqp_trace_def result_body_def result_type_def ex_raw_def)
  let ?h = "\<lambda>d s. (Inl (ErrorText ''no'') :: goerr + gobytes \<times> string, acts d [DoAck] s)"
  from adapter_over_amqp [of ?h ex_lib "''q''" "ex_raw ''c''" "Some 1" 2 _ _ "[DoAck]", OF refl refl]
  have "ledger_of (handle_raw ex_lib (wrap ?h) ''q'' (ex_raw ''c'') (fresh_state (Some 1) 2))
      = (True, True, [WireAck, WirePublish ''amq.gen'' (reply_publishing (ex_raw ''c'') (Some (errorEnvelope (ErrorText ''no''))) application_json)])"
    by (simp add: closing_call_def new_ledger_def result_body_def result_type_def ex_raw_def content_type_def)
  then show "ds_wire (handle_raw ex_lib (wrap ?h) ''q'' (ex_raw ''c'') (fresh_state (Some 1) 2))
      = [WireAck, WirePublish ''amq.gen'' (reply_publishing (ex_raw ''c'') (Some (errorEnvelope (ErrorText ''no''))) application_json)]"
    by (simp add: ledger_of_def)
qed

text \<open>
  \<^bold>\<open>C28\<close>: one-way messages are never acknowledged. A message without a reply queue, which is what
  the transport's own \<^verbatim>\<open>Publish\<close> sends, is handed back to the broker with requeue although its
  handler succeeded: however often the broker delivers it again, the handler runs again and
  the message is requeued again.
\<close>

theorem one_way_message_is_requeued_forever:
  assumes "rd_ReplyTo raw = []" and "\<And>m. \<exists>b m'. handler (amqp_delivery l endpoint raw) (fresh_state ch m) = (Inr b, fresh_state ch m')"
  shows "fst (deliverLoop l (wrap handler) endpoint ch (replicate k raw) n) = replicate k (rd_Tag raw, [WireNack True])"
proof (induction k arbitrary: n)
  case (Suc k)
  obtain b m' where "handler (amqp_delivery l endpoint raw) (fresh_state ch n) = (Inr b, fresh_state ch m')"
    using assms(2) by blast
  note handled_wire [where handler = handler and n = n, OF this]
  then have "ds_wire (handle_raw l (wrap handler) endpoint raw (fresh_state ch n)) = [WireNack True]"
    using assms(1) by (simp add: amqp_trace_def split: option.split)
  then show ?case using Suc by (simp add: Let_def case_prod_beta)
qed simp

theorem one_way_message_is_requeued_forever_witness:
  "fst (deliverLoop ex_lib (wrap (\<lambda>d s. (Inr (Some ''{}'', []), s))) ''q'' (Some 1)
      (replicate 3 ((ex_raw ''c'')\<lparr>rd_ReplyTo := []\<rparr>)) 2) = replicate 3 (1, [WireNack True])"
proof -
  have "fst (deliverLoop ex_lib (wrap (\<lambda>d s. (Inr (Some ''{}'', []), s))) ''q'' (Some 1)
      (replicate 3 ((ex_raw ''c'')\<lparr>rd_ReplyTo := []\<rparr>)) 2)
      = replicate 3 (rd_Tag ((ex_raw ''c'')\<lparr>rd_ReplyTo := []\<rparr>), [WireNack True])"
    by (rule one_way_message_is_requeued_forever) auto
  then show ?thesis by (simp add: ex_raw_def)
qed

lemma adapter_called:
  assumes "rq_Endpoint req \<noteq> []" and "ht_BaseURL t \<noteq> []" and "ht_Mux t = Some mux"
    and "map_of mux (ht_PathPrefix t @ rq_Endpoint req) = Some i"
    and "hsub_handler (ht_store t i) = wrap (hosted h)" and "\<not> hsub_closed (ht_store t i)"
    and "good_envelope (request_envelope req)"
    and "bytes_of (rq_Body req) \<noteq> [] \<or> rq_CorrelationID req \<noteq> [] \<or> rq_Headers req \<noteq> []"
    and "h (http_data (hsub_endpoint (ht_store t i)) (request_envelope req)) u = (r, u')" and "valid_utf8 (result_type r)"
  shows "HttpTransport.Request t (\<lambda>_. None) (loopback t plain_call u) req =
      Inr \<lparr>rp_Body = result_body r, rp_ContentType = result_type r, rp_Headers = [], rp_CorrelationID = rq_CorrelationID req\<rparr>
    \<and> snd (serve_mux t (ht_PathPrefix t @ rq_Endpoint req)
            (plain_call\<lparr>hc_body := Inr (marshal_envelope (request_envelope req))\<rparr>) u) = u'"
proof -
  note srv = served_over_http [OF assms(5-9)]
  have "valid_utf8 (rq_CorrelationID req)" using assms(7) by (simp add: good_envelope_def request_envelope_def)
  from called_over_http [OF assms(1-4) srv assms(10) this] show ?thesis
    by (simp add: serve_mux_found [OF assms(3,4)] srv)
qed

text \<open>\<^verbatim>\<open>Client.Do\<close> towards a server that is reachable at an origin.\<close>

definition reach :: "string \<Rightarrow> 'u http_transport \<Rightarrow> http_call \<Rightarrow> 'u \<Rightarrow> http_do" where
  "reach origin t = loopback (t\<lparr>ht_BaseURL := origin\<rparr>)"

definition execute_call :: "string \<Rightarrow> request" where
  "execute_call body = \<lparr>rq_Endpoint = ''execute'', rq_Body = Some body, rq_ContentType = application_json, rq_Headers = [],
     rq_CorrelationID = ''c1'', rq_Timeout = 0\<rparr>"

lemma execute_call_good:
  "good_envelope (request_envelope (execute_call body))" "rq_CorrelationID (execute_call body) = ''c1''"
  using application_json_utf8
  by (simp_all add: good_envelope_def good_headers_def request_envelope_def execute_call_def valid_utf8_ascii byte_def)

text \<open>What a client meets once an adapter on HTTP has reached its wait.\<close>

lemma client_reaches:
  assumes "listen addr = None" and "distinct order" and "set order = fst ` set (a_handlers a)" and "[] \<notin> set order"
    and "map_of (a_handlers a) (rq_Endpoint req) = Some (hosted h)"
    and "ht_BaseURL client \<noteq> []" and "ht_PathPrefix client = DefaultPathPrefix"
  obtains ss t mux i where "run_start (http_env listen b d serving) order (ListenHTTP addr a) listen_http_transport
      = Started (HTTPTransport addr) (Some (AfterHTTPShutdown addr)) (RanBefore # map (\<lambda>(c, i). Consumed c i) ss) (Returns None) ss t"
    and "map fst ss = order" and "rq_Endpoint req \<noteq> []" and "ht_Mux t = Some mux" and "ht_PathPrefix t = DefaultPathPrefix"
    and "map_of mux (DefaultPathPrefix @ rq_Endpoint req) = Some i" and "hsub_handler (ht_store t i) = wrap (hosted h)"
    and "\<not> hsub_closed (ht_store t i)" and "hsub_endpoint (ht_store t i) = rq_Endpoint req"
    and "\<And>f g. HttpTransport.Request client f g req = HttpTransport.Request (t\<lparr>ht_BaseURL := ht_BaseURL client\<rparr>) f g req"
    and "serve_mux (t\<lparr>ht_BaseURL := ht_BaseURL client\<rparr>) = serve_mux t"
proof -
  have "a_handlers a \<noteq> []" using assms(5) by auto
  let ?mux = "zip (map (\<lambda>c. DefaultPathPrefix @ c) order) [0..<length order]"
  from serving_http [where listen = listen and addr = addr, OF assms(1) \<open>a_handlers a \<noteq> []\<close> assms(2-4), of b d serving] assms(5) obtain t i where
    start: "run_start (http_env listen b d serving) order (ListenHTTP addr a) listen_http_transport
      = Started (HTTPTransport addr) (Some (AfterHTTPShutdown addr)) (RanBefore # map (\<lambda>(c, i). Consumed c i) (zip order [0..<length order]))
          (Returns None) (zip order [0..<length order]) t"
    and t: "ht_Mux t = Some ?mux" "ht_PathPrefix t = DefaultPathPrefix" "map_of ?mux (DefaultPathPrefix @ rq_Endpoint req) = Some i"
      "ht_store t i = http_sub_of (a_config a) (rq_Endpoint req, hosted h)"
    by blast
  have "rq_Endpoint req \<in> set order" using assms(3,5) by (metis domI dom_map_of_conv_image_fst)
  then have ep: "rq_Endpoint req \<noteq> []" using assms(4) by auto
  have sub: "hsub_handler (ht_store t i) = wrap (hosted h)" "\<not> hsub_closed (ht_store t i)"
    "hsub_endpoint (ht_store t i) = rq_Endpoint req" by (simp_all add: t(4) http_sub_of_def)
  have "HttpTransport.Request client f g req = HttpTransport.Request (t\<lparr>ht_BaseURL := ht_BaseURL client\<rparr>) f g req" for f g
    using assms(7) t(2) by (simp add: HttpTransport.Request_def)
  moreover have "serve_mux (t\<lparr>ht_BaseURL := ht_BaseURL client\<rparr>) = serve_mux t"
    by (intro ext) (simp add: serve_mux_def split: option.split)
  moreover have "map fst (zip order [0..<length order]) = order" by simp
  ultimately show thesis using that [OF start _ ep t(1-3) sub] by blast
qed

text \<open>
  \<^bold>\<open>C16\<close>: an adapter over HTTP, from its start to its answers. When the address can be bound, \<^verbatim>\<open>Run\<close> of an
  adapter built with \<^verbatim>\<open>ListenHTTP\<close> gets to its wait with every registered capability consumed, in
  any order of its map. A client that then calls one of them receives the result the handler
  computed from the data it sent: the body and content type on success, the error envelope
  with status 200 on a handler error, each with its own correlation id; and the handler ran
  exactly once, from the state \<open>u\<close> to \<open>u'\<close>.
\<close>

theorem adapter_over_http:
  assumes "listen addr = None" and "distinct order" and "set order = fst ` set (a_handlers a)" and "[] \<notin> set order"
    and "map_of (a_handlers a) (rq_Endpoint req) = Some (hosted h)"
    and "ht_BaseURL client \<noteq> []" and "ht_PathPrefix client = DefaultPathPrefix"
    and "good_envelope (request_envelope req)"
    and "bytes_of (rq_Body req) \<noteq> [] \<or> rq_CorrelationID req \<noteq> [] \<or> rq_Headers req \<noteq> []"
    and "h (http_data (rq_Endpoint req) (request_envelope req)) u = (r, u')" and "valid_utf8 (result_type r)"
  shows "\<exists>ss t. run_start (http_env listen b d serving) order (ListenHTTP addr a) listen_http_transport
      = Started (HTTPTransport addr) (Some (AfterHTTPShutdown addr)) (RanBefore # map (\<lambda>(c, i). Consumed c i) ss) (Returns None) ss t
    \<and> map fst ss = order
    \<and> HttpTransport.Request client (\<lambda>_. None) (reach (ht_BaseURL client) t plain_call u) req =
      Inr \<lparr>rp_Body = result_body r, rp_ContentType = result_type r, rp_Headers = [], rp_CorrelationID = rq_CorrelationID req\<rparr>
    \<and> snd (serve_mux t (DefaultPathPrefix @ rq_Endpoint req)
            (plain_call\<lparr>hc_body := Inr (marshal_envelope (request_envelope req))\<rparr>) u) = u'"
proof -
  obtain ss t mux i where t: "run_start (http_env listen b d serving) order (ListenHTTP addr a) listen_http_transport
      = Started (HTTPTransport addr) (Some (AfterHTTPShutdown addr)) (RanBefore # map (\<lambda>(c, i). Consumed c i) ss) (Returns None) ss t"
      "map fst ss = order" "rq_Endpoint req \<noteq> []" "ht_Mux t = Some mux" "ht_PathPrefix t = DefaultPathPrefix"
      "map_of mux (DefaultPathPrefix @ rq_Endpoint req) = Some i" "hsub_handler (ht_store t i) = wrap (hosted h)"
      "\<not> hsub_closed (ht_store t i)" "hsub_endpoint (ht_store t i) = rq_Endpoint req"
      "\<And>f g. HttpTransport.Request client f g req = HttpTransport.Request (t\<lparr>ht_BaseURL := ht_BaseURL client\<rparr>) f g req"
      "serve_mux (t\<lparr>ht_BaseURL := ht_BaseURL client\<rparr>) = serve_mux t"
    by (rule client_reaches [where listen = listen and addr = addr and b = b and d = d and serving = serving, OF assms(1-7)]) blast
  have "h (http_data (hsub_endpoint (ht_store t i)) (request_envelope req)) u = (r, u')" using assms(10) t(9) by simp
  from adapter_called [of req "t\<lparr>ht_BaseURL := ht_BaseURL client\<rparr>" mux i h u r u'] assms(6,8,9,11) t this
  show ?thesis by (intro exI [of _ ss] exI [of _ t]) (simp add: reach_def)
qed

text \<open>An adapter whose one capability always fails, and counts its calls.\<close>

definition failing_adapter :: "nat hstate adapter_handler adapter" where
  "failing_adapter = Register ''execute'' (hosted (\<lambda>d u. (Inl (ErrorText ''no''), Suc u)))
     (New \<lparr>cfg_Provider = ''okta'', cfg_IntegrationType = [], cfg_Version = ''1'', cfg_DefaultTimeout = 0, cfg_Concurrency = 0\<rparr>)"

theorem adapter_over_http_witness:
  "\<exists>ss t. run_start (http_env (\<lambda>_. None) (\<lambda>_. None) (\<lambda>_. Inl Canceled) (\<lambda>t. t)) [''execute''] (ListenHTTP '':8080'' failing_adapter)
        listen_http_transport
      = Started (HTTPTransport '':8080'') (Some (AfterHTTPShutdown '':8080'')) (RanBefore # map (\<lambda>(c, i). Consumed c i) ss) (Returns None) ss t
    \<and> HttpTransport.Request echo_transport (\<lambda>_. None) (reach ''http://a/'' t plain_call 0) (execute_call ''{}'') =
      Inr \<lparr>rp_Body = Some (errorEnvelope (ErrorText ''no'')), rp_ContentType = application_json, rp_Headers = [],
         rp_CorrelationID = ''c1''\<rparr>"
proof -
  have "norm_name ''execute'' = ''execute''" by code_simp
  then have hs: "a_handlers failing_adapter = [(''execute'', hosted (\<lambda>d u. (Inl (ErrorText ''no''), Suc u)))]"
    by (simp add: failing_adapter_def Register_def New_def Let_def)
  have base: "ht_BaseURL echo_transport = ''http://a/''" "ht_PathPrefix echo_transport = DefaultPathPrefix"
    by (simp_all add: echo_transport_def DefaultPathPrefix_def)
  have call: "rq_Endpoint (execute_call b) = ''execute''" for b by (simp add: execute_call_def)
  show ?thesis
    using adapter_over_http [of "\<lambda>_. None" "'':8080''" "[''execute'']" failing_adapter "execute_call ''{}''"
        "\<lambda>d u. (Inl (ErrorText ''no''), Suc u)" echo_transport 0 "Inl (ErrorText ''no'')" 1 "\<lambda>_. None" "\<lambda>_. Inl Canceled" "\<lambda>t. t"]
      execute_call_good [of "''{}''"] application_json_utf8
    by (simp add: hs base call result_body_def result_type_def) blast
qed

text \<open>
  The adapter a registration leaves, with its handlers as the SDK runs them on HTTP exchanges: a
  handler of the author, or \<^verbatim>\<open>execute\<close> over the adapter's dispatch table.
\<close>

definition linked :: "'u sdk \<Rightarrow> 'u ahandler adapter \<Rightarrow> 'u world hstate adapter_handler adapter" where
  "linked sdk a = \<lparr>a_config = a_config a, a_transport = a_transport a,
     a_handlers = map (\<lambda>(c, h). (c, hosted (handler_fn sdk h))) (a_handlers a), a_beforeRun = a_beforeRun a,
     a_afterRun = a_afterRun a\<rparr>"

lemma linked_execute:
  assumes "RegisterReconciler ty a res rty r opts sdk = Inr sdk'" and "dispatchTables sdk a = None"
  shows "map_of (a_handlers (linked sdk' (sdk_adapters sdk' a))) ''execute'' = Some (hosted (Dispatch sdk' a))"
proof -
  have "norm_name ''execute'' = ''execute''" by code_simp
  then have "map_of (a_handlers (sdk_adapters sdk' a)) ''execute'' = Some (ExecuteHandler a)"
    using RegisterReconciler_Inr(4) [OF assms(1) refl] assms(2) by (simp add: Register_def update_conv')
  moreover obtain t where "dispatchTables sdk' a = Some t" using RegisterReconciler_Inr(3) [OF assms(1) refl] by simp
  then have "handler_fn sdk' (ExecuteHandler a) = Dispatch sdk' a" by (intro ext) (simp add: handler_fn_def Dispatch_table)
  ultimately show ?thesis by (simp add: linked_def map_of_map)
qed

text \<open>
  \<^bold>\<open>C1\<close>: reconciling end to end. An adapter whose first reconciler was registered with an emitter, and
  which listens on an address that can be bound, gets from \<^verbatim>\<open>Run\<close> to its wait with all its
  capabilities consumed. A client that then posts an \<^verbatim>\<open>execute\<close> request for \<^verbatim>\<open>ensure_X\<close> receives,
  through the envelope, the adapter's wrapping and the dispatch table, exactly the encoded observed
  state; and exactly one \<^verbatim>\<open>provider.X.ensured\<close> event carrying that state was handed to the emitter.
\<close>

theorem ensure_over_http:
  assumes "RegisterReconciler ty a res rty r opts sdk = Inr sdk'" and "dispatchTables sdk a = None"
    and "cfg = fold apply_option opts no_options" and "o_emitter cfg = Some em"
    and "''ensure_'' @ norm_name res \<notin> norm_name ` set (o_legacyNames cfg)"
    and "decode_request (bytes_of (rq_Body req)) = Some ereq" and "requested_op ereq = ''ensure_'' @ norm_name res"
    and "parse_desired ty ereq = Inr desired" and "r_Ensure r desired (w_user w) = (Inr observed, u)"
    and "marshal_O ty observed = Inr body"
    and "ad = linked sdk' (sdk_adapters sdk' a)" and "listen addr = None" and "distinct order"
    and "set order = fst ` set (a_handlers ad)" and "[] \<notin> set order"
    and "rq_Endpoint req = ''execute''" and "ht_BaseURL client \<noteq> []" and "ht_PathPrefix client = DefaultPathPrefix"
    and "good_envelope (request_envelope req)" and "rq_CorrelationID req \<noteq> []"
  shows "\<exists>ss t. run_start (http_env listen b d serving) order (ListenHTTP addr ad) listen_http_transport
      = Started (HTTPTransport addr) (Some (AfterHTTPShutdown addr)) (RanBefore # map (\<lambda>(c, i). Consumed c i) ss) (Returns None) ss t
    \<and> map fst ss = order
    \<and> HttpTransport.Request client (\<lambda>_. None) (reach (ht_BaseURL client) t plain_call w) req =
      Inr \<lparr>rp_Body = Some body, rp_ContentType = application_json, rp_Headers = [], rp_CorrelationID = rq_CorrelationID req\<rparr>
    \<and> (\<exists>ev. w_emits (snd (serve_mux t (DefaultPathPrefix @ ''execute'')
            (plain_call\<lparr>hc_body := Inr (marshal_envelope (request_envelope req))\<rparr>) w)) = w_emits w @ [ev]
        \<and> ev_EventType ev = o_provider cfg @ ''.'' @ norm_name res @ ''.ensured'' \<and> ev_Observed ev = Some body)"
proof -
  let ?d = "http_data ''execute'' (request_envelope req)"
  have "decode_request (bytes_of (d_Body ?d)) = Some ereq"
    using assms(6) by (simp add: http_data_def request_envelope_def)
  note run = Dispatch_ensure_run [where d = ?d and w = w, OF assms(1,3,5) this assms(7-10)]
  have "map_of (a_handlers ad) (rq_Endpoint req) = Some (hosted (Dispatch sdk' a))"
    using linked_execute [OF assms(1,2)] assms(11,16) by simp
  from client_reaches [where listen = listen and addr = addr and b = b and d = d and serving = serving,
      OF assms(12-15) this assms(17,18)] obtain ss t mux i where
    t: "run_start (http_env listen b d serving) order (ListenHTTP addr ad) listen_http_transport
      = Started (HTTPTransport addr) (Some (AfterHTTPShutdown addr)) (RanBefore # map (\<lambda>(c, i). Consumed c i) ss) (Returns None) ss t"
      "map fst ss = order" "rq_Endpoint req \<noteq> []" "ht_Mux t = Some mux" "ht_PathPrefix t = DefaultPathPrefix"
      "map_of mux (DefaultPathPrefix @ rq_Endpoint req) = Some i" "hsub_handler (ht_store t i) = wrap (hosted (Dispatch sdk' a))"
      "\<not> hsub_closed (ht_store t i)" "hsub_endpoint (ht_store t i) = rq_Endpoint req"
      "\<And>f g. HttpTransport.Request client f g req = HttpTransport.Request (t\<lparr>ht_BaseURL := ht_BaseURL client\<rparr>) f g req"
      "serve_mux (t\<lparr>ht_BaseURL := ht_BaseURL client\<rparr>) = serve_mux t" by blast
  let ?r = "Inr (Some body, application_json)"
  let ?w' = "snd (Dispatch sdk' a ?d w)"
  have "Dispatch sdk' a (http_data (hsub_endpoint (ht_store t i)) (request_envelope req)) w = (?r, ?w')"
    using run t(9) assms(16) by simp
  moreover have "result_type ?r = application_json" "result_body ?r = Some body" by (simp_all add: result_type_def result_body_def)
  moreover have "w_emits ?w' = w_emits w @ [event_of (norm_name res) cfg ereq VerbEnsured
      (inferResourceID (reflect_O ty observed) body (norm_name res)) body (w\<lparr>w_user := u\<rparr>)]"
    unfolding run using emit_with_emitter(1) [OF assms(4)] by simp
  ultimately show ?thesis
    using adapter_called [of req "t\<lparr>ht_BaseURL := ht_BaseURL client\<rparr>" mux i "Dispatch sdk' a" w ?r ?w']
      assms(16,17,19,20) t application_json_utf8
    by (intro exI [of _ ss] exI [of _ t]) (simp add: reach_def event_of_def VerbEnsured_def)
qed

theorem ensure_over_http_witness:
  "\<exists>sdk' ss t. RegisterReconciler ex_types 0 ''user'' ''users'' ex_reconciler ex_opts ex_sdk = Inr sdk'
    \<and> run_start (http_env (\<lambda>_. None) (\<lambda>_. None) (\<lambda>_. Inl Canceled) (\<lambda>t. t)) [''execute'']
        (ListenHTTP '':8080'' (linked sdk' (sdk_adapters sdk' 0))) listen_http_transport
      = Started (HTTPTransport '':8080'') (Some (AfterHTTPShutdown '':8080'')) (RanBefore # map (\<lambda>(c, i). Consumed c i) ss) (Returns None) ss t
    \<and> HttpTransport.Request echo_transport (\<lambda>_. None) (reach ''http://a/'' t plain_call ex_world) (execute_call (op_body ''ensure_user'')) =
      Inr \<lparr>rp_Body = Some ''{}'', rp_ContentType = application_json, rp_Headers = [], rp_CorrelationID = ''c1''\<rparr>"
proof -
  obtain sdk' where reg: "RegisterReconciler ex_types 0 ''user'' ''users'' ex_reconciler ex_opts ex_sdk = Inr sdk'"
    using ex_reg by blast
  have fresh: "dispatchTables ex_sdk 0 = None" by (simp add: ex_sdk_def)
  have "norm_name ''execute'' = ''execute''" by code_simp
  then have keys: "fst ` set (a_handlers (linked sdk' (sdk_adapters sdk' 0))) = {''execute''}"
    using RegisterReconciler_Inr(4) [OF reg refl] fresh
    by (simp add: linked_def Register_def ex_sdk_def New_def Let_def)
  have body: "rq_Body (execute_call b) = Some b" "rq_Endpoint (execute_call b) = ''execute''" for b
    by (simp_all add: execute_call_def)
  have base: "ht_BaseURL echo_transport = ''http://a/''" "ht_PathPrefix echo_transport = DefaultPathPrefix"
    by (simp_all add: echo_transport_def DefaultPathPrefix_def)
  show ?thesis
    using ensure_over_http [OF reg fresh refl ex_cfg(2), of "execute_call (op_body ''ensure_user'')" "Reconcile.ex_request ''ensure_user''"
        "[]" ex_world "''{}''" "()" "''{}''" _ "\<lambda>_. None" "'':8080''" "[''execute'']" echo_transport
        "\<lambda>_. None" "\<lambda>_. Inl Canceled" "\<lambda>t. t", OF _ _ _ _ _ _ refl] reg execute_call_good [of "op_body ''ensure_user''"]
    by (simp add: body base keys ex_norm ex_cfg ex_decode ex_op ex_payload) blast
qed

end
